(* ===== verification/Prelude.thy ===== *)
theory Prelude
  imports Main "HOL-Library.Word" "HOL-Library.List_Lexorder"
begin

text \<open>
  Shared vocabulary of the development: the machine types of Go that the
  modelled packages use, results that may be errors, the parts of the Go
  standard library that the sources call (\<open>bytes.Compare\<close>, the
  little- and big-endian codecs of \<open>encoding/binary\<close>), and the
  generic lemmas on lists and words that the components share.

  Machine integers keep their width: \<open>uint8\<close>, \<open>uint16\<close>,
  \<open>uint32\<close> and \<open>uint64\<close> are words whose arithmetic wraps
  around.  A function that returns \<open>(T, error)\<close> returns a sum, with
  \<open>Inl\<close> for the error; a run-time panic is an error value of the
  component that can panic.
\<close>

named_theorems result_simps \<open>rewrite rules for sequenced results\<close>
named_theorems word_codec \<open>words read back from their bytes\<close>

named_theorems codec_simps \<open>round trips and lengths of byte encodings\<close>

type_synonym byte = "8 word"
type_synonym uint16 = "16 word"
type_synonym uint32 = "32 word"
type_synonym uint64 = "64 word"

text \<open>A \<open>chainhash.Hash\<close> is an array of 32 bytes.\<close>

type_synonym hash = "byte list"

definition HashSize :: nat where
  "HashSize = 32"

definition is_hash :: "hash \<Rightarrow> bool" where
  "is_hash h \<longleftrightarrow> length h = HashSize"

section \<open>Results that may be errors\<close>

text \<open>
  Sequencing of fallible calls: the error of the first one is returned
  unchanged, as \<open>if err != nil { return nil, err }\<close> does.
\<close>

definition bindE :: "'e + 'a \<Rightarrow> ('a \<Rightarrow> 'e + 'b) \<Rightarrow> 'e + 'b" where
  "bindE m f = (case m of Inl e \<Rightarrow> Inl e | Inr a \<Rightarrow> f a)"

lemma bindE_Inl [simp, result_simps]: "bindE (Inl e) f = Inl e"
  by (simp add: bindE_def)

lemma bindE_Inr [simp, result_simps]: "bindE (Inr a) f = f a"
  by (simp add: bindE_def)

lemma bindE_eq_Inr_iff [result_simps]:
  "bindE m f = Inr b \<longleftrightarrow> (\<exists>a. m = Inr a \<and> f a = Inr b)"
  by (cases m) auto

lemma bindE_eq_Inl_iff:
  "bindE m f = Inl e \<longleftrightarrow> m = Inl e \<or> (\<exists>a. m = Inr a \<and> f a = Inl e)"
  by (cases m) auto

lemma bindE_cong [fundef_cong]:
  "m = m' \<Longrightarrow> (\<And>a. m' = Inr a \<Longrightarrow> f a = g a) \<Longrightarrow> bindE m f = bindE m' g"
  by (cases m') auto

text \<open>
  \<open>for _, x := range xs\<close> with a body that may return an error: the loop
  stops at the first one.
\<close>

fun foldE :: "('a \<Rightarrow> 's \<Rightarrow> 'e + 's) \<Rightarrow> 'a list \<Rightarrow> 's \<Rightarrow> 'e + 's" where
  "foldE f [] s = Inr s"
| "foldE f (x # xs) s = bindE (f x s) (foldE f xs)"

lemma foldE_append [result_simps]:
  "foldE f (xs @ ys) s = bindE (foldE f xs s) (foldE f ys)"
proof (induction xs arbitrary: s)
  case (Cons x xs)
  then show ?case by (cases "f x s") auto
qed simp

text \<open>An invariant of the loop body is an invariant of the loop.\<close>

lemma foldE_invariant:
  assumes "foldE f xs s = Inr s'" and "P s"
    and "\<And>x t t'. x \<in> set xs \<Longrightarrow> P t \<Longrightarrow> f x t = Inr t' \<Longrightarrow> P t'"
  shows "P s'"
  using assms
proof (induction xs arbitrary: s)
  case (Cons x xs)
  from Cons.prems(1) obtain t where t: "f x s = Inr t" "foldE f xs t = Inr s'"
    by (auto simp: bindE_eq_Inr_iff)
  with Cons.prems have "P t" by auto
  with t(2) Cons.prems(3) show ?case by (auto intro: Cons.IH)
qed simp

section \<open>Comparing byte strings\<close>

text \<open>\<open>bytes.Compare\<close>: lexicographic, a proper prefix is smaller.\<close>

fun bytes_compare :: "byte list \<Rightarrow> byte list \<Rightarrow> int" where
  "bytes_compare [] [] = 0"
| "bytes_compare [] (_ # _) = -1"
| "bytes_compare (_ # _) [] = 1"
| "bytes_compare (a # as) (b # bs) =
     (if a < b then -1 else if b < a then 1 else bytes_compare as bs)"

lemma bytes_compare_less [simp]: "bytes_compare as bs < 0 \<longleftrightarrow> as < bs"
  by (induction as bs rule: bytes_compare.induct) auto

lemma bytes_compare_eq [simp]: "bytes_compare as bs = 0 \<longleftrightarrow> as = bs"
  by (induction as bs rule: bytes_compare.induct) auto

lemma bytes_compare_greater [simp]: "0 < bytes_compare as bs \<longleftrightarrow> bs < as"
  by (induction as bs rule: bytes_compare.induct) auto

section \<open>Fixed-width byte encodings\<close>

text \<open>
  \<open>binary.LittleEndian.PutUintN\<close> writes the \<open>n\<close> low bytes of a value,
  the least significant first; \<open>binary.BigEndian.PutUintN\<close> the same bytes
  in the opposite order.
\<close>

fun le_bytes :: "nat \<Rightarrow> nat \<Rightarrow> byte list" where
  "le_bytes 0 x = []"
| "le_bytes (Suc n) x = word_of_nat (x mod 256) # le_bytes n (x div 256)"

fun of_le_bytes :: "byte list \<Rightarrow> nat" where
  "of_le_bytes [] = 0"
| "of_le_bytes (b # bs) = unat b + 256 * of_le_bytes bs"

definition be_bytes :: "nat \<Rightarrow> nat \<Rightarrow> byte list" where
  "be_bytes n x = rev (le_bytes n x)"

definition of_be_bytes :: "byte list \<Rightarrow> nat" where
  "of_be_bytes bs = of_le_bytes (rev bs)"

lemma length_le_bytes [simp, codec_simps]: "length (le_bytes n x) = n"
  by (induction n arbitrary: x) auto

lemma length_be_bytes [simp, codec_simps]: "length (be_bytes n x) = n"
  by (simp add: be_bytes_def)

lemma unat_byte_mod [simp]: "unat (word_of_nat (x mod 256) :: byte) = x mod 256"
  by (simp add: unat_of_nat)

lemma of_le_bytes_le_bytes [codec_simps]: "of_le_bytes (le_bytes n x) = x mod 256 ^ n"
proof (induction n arbitrary: x)
  case (Suc n)
  have "x mod (256 * 256 ^ n) = x mod 256 + 256 * (x div 256 mod 256 ^ n)"
    by (rule mod_mult2_eq [THEN trans]) simp
  with Suc show ?case by simp
qed simp

lemma of_be_bytes_be_bytes [codec_simps]: "of_be_bytes (be_bytes n x) = x mod 256 ^ n"
  by (simp add: of_be_bytes_def be_bytes_def of_le_bytes_le_bytes)

lemma of_le_bytes_bound: "of_le_bytes bs < 256 ^ length bs"
proof (induction bs)
  case (Cons b bs)
  have "unat b < 256" using unsigned_less [of b] by simp
  with Cons show ?case by simp
qed simp

lemma of_be_bytes_bound: "of_be_bytes bs < 256 ^ length bs"
  using of_le_bytes_bound [of "rev bs"] by (simp add: of_be_bytes_def)

lemma le_bytes_of_le_bytes [codec_simps]: "le_bytes (length bs) (of_le_bytes bs) = bs"
proof (induction bs)
  case (Cons b bs)
  have "unat b < 256" using unsigned_less [of b] by simp
  with Cons show ?case by simp
qed simp

lemma be_bytes_of_be_bytes [codec_simps]: "be_bytes (length bs) (of_be_bytes bs) = bs"
  using le_bytes_of_le_bytes [of "rev bs"] by (simp add: be_bytes_def of_be_bytes_def)

text \<open>A word of \<open>8 * n\<close> bits survives its encoding in \<open>n\<close> bytes.\<close>

lemma word_of_le_bytes:
  fixes w :: "'a::len word"
  assumes "LENGTH('a) \<le> 8 * n"
  shows "word_of_nat (of_le_bytes (le_bytes n (unat w))) = w"
proof -
  have "unat w < 2 ^ LENGTH('a)" by (rule unsigned_less)
  also have "\<dots> \<le> 2 ^ (8 * n)" using assms by (rule power_increasing) simp
  also have "\<dots> = (256::nat) ^ n" by (simp add: power_mult)
  finally show ?thesis by (simp add: of_le_bytes_le_bytes)
qed

lemma word_of_be_bytes:
  fixes w :: "'a::len word"
  assumes "LENGTH('a) \<le> 8 * n"
  shows "word_of_nat (of_be_bytes (be_bytes n (unat w))) = w"
  using word_of_le_bytes [OF assms] by (simp add: of_be_bytes_def be_bytes_def)

lemma word_of_le_bytes_width [word_codec]:
  "word_of_nat (of_le_bytes (le_bytes 2 (unat a))) = (a :: uint16)"
  "word_of_nat (of_le_bytes (le_bytes 4 (unat b))) = (b :: uint32)"
  "word_of_nat (of_le_bytes (le_bytes 8 (unat c))) = (c :: uint64)"
  by (simp_all add: word_of_le_bytes)

section \<open>Words\<close>

lemma unat_uminus:
  fixes w :: "'a::len word"
  assumes "w \<noteq> 0"
  shows "unat (- w) = 2 ^ LENGTH('a) - unat w"
proof -
  have "unat w \<noteq> 0" using assms by (simp add: unsigned_eq_0_iff)
  then have "\<not> w \<le> 0" by (simp add: word_le_nat_alt)
  then show ?thesis using unat_sub_if' [of 0 w] by (simp add: word_le_nat_alt)
qed

section \<open>Lists\<close>

lemma sorted_wrt_less_distinct: "sorted_wrt (<) (xs :: 'a::linorder list) \<Longrightarrow> distinct xs"
  by (simp add: strict_sorted_iff)

end
