(* ===== verification/ParentStack.thy ===== *)
theory ParentStack
  imports Prelude
begin

text \<open>
  The stack of parent nodes of \<open>blockchain/stake/internal/tickettreap/common.go\<close>:
  a static array of \<open>staticDepth\<close> pointers and an overflow slice.  The
  model keeps the two arrays and the index of the code; a nil pointer is
  \<open>None\<close> and an access out of the range of a slice is the panic of the Go
  runtime.  The interface \<open>node_stack\<close> says what the treap operations rely
  on, namely that the four operations act as those of a list whose head is the
  top, and the interpretation proves it of the arrays.
\<close>

datatype stack_panic = IndexOutOfRange

definition staticDepth :: nat where
  "staticDepth = 128"

record 'a parentStack =
  ps_index :: nat
  ps_items :: "'a option list"
  ps_overflow :: "'a option list"

text \<open>\<open>var parents parentStack\<close>: the zero value.\<close>

definition newParentStack :: "'a parentStack" where
  "newParentStack = \<lparr>ps_index = 0, ps_items = replicate staticDepth None, ps_overflow = []\<rparr>"

definition Len :: "'a parentStack \<Rightarrow> nat" where
  "Len s = ps_index s"

definition slice_get :: "'a list \<Rightarrow> nat \<Rightarrow> stack_panic + 'a" where
  "slice_get xs i = (if i < length xs then Inr (xs ! i) else Inl IndexOutOfRange)"

definition slice_set :: "'a list \<Rightarrow> nat \<Rightarrow> 'a \<Rightarrow> stack_panic + 'a list" where
  "slice_set xs i x = (if i < length xs then Inr (xs[i := x]) else Inl IndexOutOfRange)"

definition At :: "'a parentStack \<Rightarrow> int \<Rightarrow> stack_panic + 'a option" where
  "At s n =
     (let index = int (ps_index s) - n - 1 in
      if index < 0 then Inr None
      else if index < int staticDepth then slice_get (ps_items s) (nat index)
      else slice_get (ps_overflow s) (nat index - staticDepth))"

definition Pop :: "'a parentStack \<Rightarrow> stack_panic + 'a option \<times> 'a parentStack" where
  "Pop s =
     (if ps_index s = 0 then Inr (None, s)
      else
        let index = ps_index s - 1 in
        if index < staticDepth
        then bindE (slice_get (ps_items s) index) (\<lambda>node.
             bindE (slice_set (ps_items s) index None) (\<lambda>items.
             Inr (node, s\<lparr>ps_index := index, ps_items := items\<rparr>)))
        else bindE (slice_get (ps_overflow s) (index - staticDepth)) (\<lambda>node.
             bindE (slice_set (ps_overflow s) (index - staticDepth) None) (\<lambda>overflow.
             Inr (node, s\<lparr>ps_index := index, ps_overflow := overflow\<rparr>))))"

definition Push :: "'a parentStack \<Rightarrow> 'a \<Rightarrow> stack_panic + 'a parentStack" where
  "Push s node =
     (if ps_index s < staticDepth
      then bindE (slice_set (ps_items s) (ps_index s) (Some node)) (\<lambda>items.
           Inr (s\<lparr>ps_index := ps_index s + 1, ps_items := items\<rparr>))
      else
        let index = ps_index s - staticDepth;
            overflow = (if index + 1 > length (ps_overflow s)
                        then ps_overflow s @ replicate (index + 1 - length (ps_overflow s)) None
                        else ps_overflow s)
        in bindE (slice_set overflow index (Some node)) (\<lambda>overflow'.
           Inr (s\<lparr>ps_index := ps_index s + 1, ps_overflow := overflow'\<rparr>)))"

section \<open>The interface\<close>

text \<open>
  \<open>lst s\<close> lists the items of a stack, the top first.  \<open>peek s n\<close> is
  \<open>At\<close>; the law for \<open>n = -1\<close> records that the slot above the top holds
  nil, which \<open>Delete\<close> reads when the removed node was the root.
\<close>

locale node_stack =
  fixes new :: 's
    and len :: "'s \<Rightarrow> nat"
    and peek :: "'s \<Rightarrow> int \<Rightarrow> stack_panic + 'a option"
    and pop :: "'s \<Rightarrow> stack_panic + 'a option \<times> 's"
    and push :: "'s \<Rightarrow> 'a \<Rightarrow> stack_panic + 's"
    and inv :: "'s \<Rightarrow> bool"
    and lst :: "'s \<Rightarrow> 'a list"
  assumes new_inv: "inv new" and new_lst: "lst new = []"
    and len_lst: "inv s \<Longrightarrow> len s = length (lst s)"
    and peek_lst: "inv s \<Longrightarrow> 0 \<le> n \<Longrightarrow>
      peek s n = Inr (if nat n < length (lst s) then Some (lst s ! nat n) else None)"
    and peek_above: "inv s \<Longrightarrow> lst s = [] \<Longrightarrow> peek s (-1) = Inr None"
    and push_ok: "inv s \<Longrightarrow> \<exists>s'. push s x = Inr s' \<and> inv s' \<and> lst s' = x # lst s"
    and pop_empty: "inv s \<Longrightarrow> lst s = [] \<Longrightarrow> pop s = Inr (None, s)"
    and pop_ok: "inv s \<Longrightarrow> lst s = x # xs \<Longrightarrow>
      \<exists>s'. pop s = Inr (Some x, s') \<and> inv s' \<and> lst s' = xs"
begin

lemma push_pop:
  assumes "inv s"
  shows "\<exists>s' s''. push s x = Inr s' \<and> pop s' = Inr (Some x, s'') \<and> inv s'' \<and> lst s'' = lst s"
proof -
  from push_ok [OF assms] obtain s' where s': "push s x = Inr s'" "inv s'" "lst s' = x # lst s"
    by blast
  with pop_ok show ?thesis by blast
qed

text \<open>Pushing a sequence and popping it again gives it back in reverse, without a panic.\<close>

fun push_all :: "'s \<Rightarrow> 'a list \<Rightarrow> stack_panic + 's" where
  "push_all s [] = Inr s"
| "push_all s (x # xs) = bindE (push s x) (\<lambda>s'. push_all s' xs)"

lemma push_all_ok:
  "inv s \<Longrightarrow> \<exists>s'. push_all s xs = Inr s' \<and> inv s' \<and> lst s' = rev xs @ lst s"
proof (induction xs arbitrary: s)
  case (Cons x xs)
  from push_ok [OF Cons.prems] obtain t where "push s x = Inr t" "inv t" "lst t = x # lst s"
    by blast
  with Cons.IH [of t] show ?case by auto
qed simp

lemma bottom_is_last:
  assumes "inv s" and "lst s \<noteq> []"
  shows "peek s (int (len s) - 1) = Inr (Some (last (lst s)))"
  using assms by (simp add: peek_lst len_lst last_conv_nth nat_diff_distrib')

end

section \<open>The arrays implement it\<close>

definition ps_slots :: "'a parentStack \<Rightarrow> 'a option list" where
  "ps_slots s = ps_items s @ ps_overflow s"

definition ps_list :: "'a parentStack \<Rightarrow> 'a list" where
  "ps_list s = rev (map the (take (ps_index s) (ps_slots s)))"

definition ps_wf :: "'a parentStack \<Rightarrow> bool" where
  "ps_wf s \<longleftrightarrow>
     length (ps_items s) = staticDepth \<and> ps_index s \<le> length (ps_slots s) \<and>
     list_all (\<lambda>x. x \<noteq> None) (take (ps_index s) (ps_slots s)) \<and>
     list_all (\<lambda>x. x = None) (drop (ps_index s) (ps_slots s))"

lemma ps_wf_below: "ps_wf s \<Longrightarrow> i < ps_index s \<Longrightarrow> \<exists>x. ps_slots s ! i = Some x"
  by (force simp: ps_wf_def list_all_length)

lemma ps_wf_above: "ps_wf s \<Longrightarrow> ps_index s \<le> i \<Longrightarrow> i < length (ps_slots s) \<Longrightarrow> ps_slots s ! i = None"
  using list_all_length [of "\<lambda>x. x = None" "drop (ps_index s) (ps_slots s)"]
  by (auto simp: ps_wf_def dest!: spec [of _ "i - ps_index s"])

lemma ps_list_nth:
  assumes "ps_wf s" and "n < ps_index s"
  shows "Some (ps_list s ! n) = ps_slots s ! (ps_index s - Suc n)"
proof -
  have "ps_index s \<le> length (ps_slots s)" using assms(1) by (simp add: ps_wf_def)
  with assms(2) have "ps_list s ! n = the (ps_slots s ! (ps_index s - Suc n))"
    by (simp add: ps_list_def rev_nth min_absorb2)
  with ps_wf_below [OF assms(1), of "ps_index s - Suc n"] assms(2) show ?thesis by auto
qed

lemma length_ps_list: "ps_wf s \<Longrightarrow> length (ps_list s) = ps_index s"
  by (simp add: ps_list_def ps_wf_def)

text \<open>Both array accesses of \<open>At\<close> and \<open>Pop\<close> read one slot of the joined arrays.\<close>

lemma slot_read:
  assumes "ps_wf s" and "i < length (ps_slots s)"
  shows "(if i < staticDepth then slice_get (ps_items s) i
          else slice_get (ps_overflow s) (i - staticDepth)) = Inr (ps_slots s ! i)"
  using assms by (auto simp: ps_wf_def ps_slots_def slice_get_def nth_append)

lemma At_slot:
  assumes "ps_wf s" and "n \<le> int (ps_index s) - 1" and "int (ps_index s) - n - 1 < int (length (ps_slots s))"
  shows "At s n = Inr (ps_slots s ! nat (int (ps_index s) - n - 1))"
proof -
  let ?i = "nat (int (ps_index s) - n - 1)"
  have "?i < length (ps_slots s)" using assms by linarith
  from slot_read [OF assms(1) this] assms(2) show ?thesis
    by (simp add: At_def Let_def nat_less_iff split: if_splits)
qed

lemma take_Suc_update:
  "i < length xs \<Longrightarrow> take (Suc i) (xs[i := x]) = take i xs @ [x]"
  by (simp add: take_Suc_conv_app_nth)

lemma drop_Suc_update: "drop (Suc i) (xs[i := x]) = drop (Suc i) xs"
  by simp

lemma ps_wf_pushI:
  assumes "length (ps_items t) = staticDepth" and "i < length slots"
    and "ps_slots t = slots[i := Some x]" and "ps_index t = Suc i"
    and "list_all (\<lambda>x. x \<noteq> None) (take i slots)" and "list_all (\<lambda>x. x = None) (drop i slots)"
  shows "ps_wf t \<and> ps_list t = x # rev (map the (take i slots))"
proof -
  have "list_all (\<lambda>x. x = None) (drop (Suc i) slots)"
    using assms(2,6) by (simp add: Cons_nth_drop_Suc [symmetric])
  then show ?thesis using assms
    by (simp add: ps_wf_def ps_list_def take_Suc_update drop_Suc_update)
qed

lemma Push_ok:
  assumes "ps_wf s"
  shows "\<exists>s'. Push s x = Inr s' \<and> ps_wf s' \<and> ps_list s' = x # ps_list s"
proof (cases "ps_index s < staticDepth")
  case True
  let ?t = "s\<lparr>ps_index := ps_index s + 1, ps_items := (ps_items s)[ps_index s := Some x]\<rparr>"
  have "Push s x = Inr ?t"
    using True assms by (simp add: Push_def slice_set_def ps_wf_def)
  moreover have "ps_wf ?t \<and> ps_list ?t = x # ps_list s"
    unfolding ps_list_def [of s]
    by (rule ps_wf_pushI) (use True assms in \<open>auto simp: ps_wf_def ps_slots_def list_update_append\<close>)
  ultimately show ?thesis by blast
next
  case False
  let ?i = "ps_index s - staticDepth"
  let ?pad = "Suc ?i - length (ps_overflow s)"
  let ?ov = "ps_overflow s @ replicate ?pad None"
  let ?t = "s\<lparr>ps_index := ps_index s + 1, ps_overflow := ?ov[?i := Some x]\<rparr>"
  have le: "?i \<le> length (ps_overflow s)" and len: "length (ps_items s) = staticDepth"
    using assms by (auto simp: ps_wf_def ps_slots_def)
  have push: "Push s x = Inr ?t"
    using False by (auto simp: Push_def Let_def slice_set_def)
  have "ps_wf ?t \<and> ps_list ?t = x # rev (map the (take (ps_index s) (ps_slots s @ replicate ?pad None)))"
  proof (rule ps_wf_pushI)
    show "ps_slots ?t = (ps_slots s @ replicate ?pad None)[ps_index s := Some x]"
      using False len by (simp add: ps_slots_def list_update_append)
    show "ps_index s < length (ps_slots s @ replicate ?pad None)"
      using False len by (simp add: ps_slots_def)
  qed (use False assms le in \<open>auto simp: ps_wf_def list_all_iff\<close>)
  moreover have "take (ps_index s) (ps_slots s @ replicate ?pad None) = take (ps_index s) (ps_slots s)"
    using assms by (simp add: ps_wf_def)
  ultimately show ?thesis using push by (auto simp: ps_list_def)
qed

lemma ps_wf_popI:
  assumes "length (ps_items t) = staticDepth" and "ps_wf s" and "ps_index s = Suc i"
    and "ps_slots t = (ps_slots s)[i := None]" and "ps_index t = i"
  shows "ps_wf t \<and> ps_list t = tl (ps_list s)"
proof -
  have i: "i < length (ps_slots s)" using assms(2,3) by (simp add: ps_wf_def)
  have tk: "take i ((ps_slots s)[i := None]) = take i (ps_slots s)" by simp
  have dr: "drop i ((ps_slots s)[i := None]) = None # drop (Suc i) (ps_slots s)"
    using i by (simp add: Cons_nth_drop_Suc [symmetric])
  have "take (Suc i) (ps_slots s) = take i (ps_slots s) @ [ps_slots s ! i]"
    using i by (rule take_Suc_conv_app_nth)
  with assms i tk dr show ?thesis by (simp add: ps_wf_def ps_list_def)
qed

lemma Pop_ok:
  assumes "ps_wf s" and "ps_list s = x # xs"
  shows "\<exists>s'. Pop s = Inr (Some x, s') \<and> ps_wf s' \<and> ps_list s' = xs"
proof -
  obtain i where i: "ps_index s = Suc i"
    using length_ps_list [OF assms(1)] assms(2) by (cases "ps_index s") auto
  have len: "length (ps_items s) = staticDepth" and lt: "i < length (ps_slots s)"
    using assms(1) i by (auto simp: ps_wf_def)
  have x: "ps_slots s ! i = Some x"
    using ps_list_nth [OF assms(1), of 0] assms(2) i by simp
  show ?thesis
  proof (cases "i < staticDepth")
    case True
    let ?t = "s\<lparr>ps_index := i, ps_items := (ps_items s)[i := None]\<rparr>"
    have "Pop s = Inr (Some x, ?t)"
      using True i x len by (simp add: Pop_def Let_def slice_get_def slice_set_def ps_slots_def nth_append)
    moreover have "ps_wf ?t \<and> ps_list ?t = tl (ps_list s)"
      by (rule ps_wf_popI) (use True assms i len in \<open>auto simp: ps_slots_def list_update_append\<close>)
    ultimately show ?thesis using assms(2) by auto
  next
    case False
    let ?t = "s\<lparr>ps_index := i, ps_overflow := (ps_overflow s)[i - staticDepth := None]\<rparr>"
    have "Pop s = Inr (Some x, ?t)"
      using False i x len lt by (auto simp: Pop_def Let_def slice_get_def slice_set_def ps_slots_def nth_append)
    moreover have "ps_wf ?t \<and> ps_list ?t = tl (ps_list s)"
      by (rule ps_wf_popI) (use False assms i len in \<open>auto simp: ps_slots_def list_update_append\<close>)
    ultimately show ?thesis using assms(2) by auto
  qed
qed

interpretation ps: node_stack newParentStack Len At Pop Push ps_wf ps_list
proof unfold_locales
  show "ps_wf newParentStack"
    by (simp add: ps_wf_def newParentStack_def ps_slots_def list_all_iff)
  show "ps_list newParentStack = []"
    by (simp add: ps_list_def newParentStack_def)
next
  fix s :: "'b parentStack" assume wf: "ps_wf s"
  show "Len s = length (ps_list s)" using wf by (simp add: Len_def length_ps_list)
  show "\<exists>s'. Push s x = Inr s' \<and> ps_wf s' \<and> ps_list s' = x # ps_list s" for x
    using wf by (rule Push_ok)
  show "At s n = Inr (if nat n < length (ps_list s) then Some (ps_list s ! nat n) else None)"
    if "0 \<le> n" for n
  proof (cases "nat n < ps_index s")
    case True
    have "ps_index s \<le> length (ps_slots s)" using wf by (simp add: ps_wf_def)
    with True that have "At s n = Inr (ps_slots s ! nat (int (ps_index s) - n - 1))"
      by (intro At_slot [OF wf]) auto
    moreover have "nat (int (ps_index s) - n - 1) = ps_index s - Suc (nat n)"
      using True that by linarith
    ultimately show ?thesis
      using True wf by (simp add: ps_list_nth [symmetric] length_ps_list)
  next
    case False
    then show ?thesis using that wf by (auto simp: At_def Let_def length_ps_list)
  qed
next
  fix s :: "'b parentStack" assume wf: "ps_wf s" and e: "ps_list s = []"
  then have "ps_index s = 0" using length_ps_list [OF wf] by simp
  moreover have "staticDepth \<le> length (ps_slots s)" and "0 < staticDepth"
    using wf by (auto simp: ps_wf_def ps_slots_def staticDepth_def)
  moreover from this have "ps_slots s \<noteq> []" by auto
  ultimately show "At s (-1) = Inr None" and "Pop s = Inr (None, s)"
    using At_slot [OF wf, of "-1"] ps_wf_above [OF wf, of 0] by (auto simp: Pop_def)
next
  fix s :: "'b parentStack" and x xs assume "ps_wf s" and "ps_list s = x # xs"
  then show "\<exists>s'. Pop s = Inr (Some x, s') \<and> ps_wf s' \<and> ps_list s' = xs" by (rule Pop_ok)
qed

end
