(* ===== verification/TicketTreap.thy ===== *)
theory TicketTreap
  imports ParentStack
begin

text \<open>
  The immutable ticket treap of \<open>blockchain/stake/internal/tickettreap\<close>:
  a binary search tree on the ticket hash and a min-heap on the priority, which
  \<open>Put\<close> sets to the height of the ticket.  Every node stores the number of
  nodes of its subtree in a \<open>uint32\<close>.

  The code walks down from the root with a stack of parents and then back up
  with rotations.  A stack entry of the model (a \<open>frame\<close>) is the copied
  parent without the child on the side the walk took; linking the copies as the
  code does (\<open>oldParent.left = nodeCopy\<close>) is filling that hole
  (\<open>plug\<close>).  The stack itself is a list with the top first, which is
  what \<open>ParentStack\<close> proves of the arrays of the code.
\<close>

type_synonym tkey = hash

record tvalue =
  Height :: uint32
  Missed :: bool
  Revoked :: bool
  Spent :: bool
  Expired :: bool

datatype treapNode =
    TNil
  | TNode (node_key: tkey) (node_value: tvalue) (node_priority: uint32) (node_size: uint32)
          (node_left: treapNode) (node_right: treapNode)

datatype treap_panic = OutOfBounds | NilDereference

section \<open>Nodes\<close>

text \<open>On a 64-bit machine a pointer has 8 bytes.\<close>

definition ptrSize :: uint64 where
  "ptrSize = 8"

definition nodeFieldsSize :: uint64 where
  "nodeFieldsSize = 32 + ptrSize + 4 + 4 + 2 * ptrSize"

definition nodeValueSize :: uint64 where
  "nodeValueSize = 8"

text \<open>The key is an array of 32 bytes, so \<open>len(node.key)\<close> is constant.\<close>

definition nodeSize :: uint64 where
  "nodeSize = nodeFieldsSize + of_nat HashSize + nodeValueSize"

definition newTreapNode :: "tkey \<Rightarrow> tvalue \<Rightarrow> uint32 \<Rightarrow> treapNode" where
  "newTreapNode k v p = TNode k v p 1 TNil TNil"

text \<open>\<open>leftSize\<close> and \<open>rightSize\<close>: the size of a child, zero for nil.\<close>

fun childSize :: "treapNode \<Rightarrow> uint32" where
  "childSize TNil = 0"
| "childSize (TNode k v p s l r) = s"

text \<open>
  The loop of \<open>getByIndex\<close>.  \<open>int(node.left.size)\<close> is the unsigned
  value of the size; following a nil link panics.
\<close>

fun getByIndex_loop :: "treapNode \<Rightarrow> int \<Rightarrow> treap_panic + tkey \<times> tvalue" where
  "getByIndex_loop TNil idx = Inl NilDereference"
| "getByIndex_loop (TNode k v p s l r) idx =
     (if l = TNil
      then if idx = 0 then Inr (k, v) else getByIndex_loop r (idx - 1)
      else if idx < uint (childSize l) then getByIndex_loop l idx
      else if idx = uint (childSize l) then Inr (k, v)
      else getByIndex_loop r (idx - uint (childSize l) - 1))"

fun getByIndex :: "treapNode \<Rightarrow> int \<Rightarrow> treap_panic + tkey \<times> tvalue" where
  "getByIndex TNil idx =
     (if idx < 0 then Inl OutOfBounds else Inl NilDereference)"
| "getByIndex (TNode k v p s l r) idx =
     (if idx < 0 \<or> idx > uint s then Inl OutOfBounds
      else getByIndex_loop (TNode k v p s l r) idx)"

section \<open>The treap\<close>

record immutable =
  root :: treapNode
  count :: int
  totalSize :: uint64

definition newImmutable :: "treapNode \<Rightarrow> int \<Rightarrow> uint64 \<Rightarrow> immutable" where
  "newImmutable r c sz = \<lparr>root = r, count = c, totalSize = sz\<rparr>"

definition NewImmutable :: immutable where
  "NewImmutable = newImmutable TNil 0 0"

definition ImLen :: "immutable \<Rightarrow> int" where
  "ImLen t = count t"

definition ImSize :: "immutable \<Rightarrow> uint64" where
  "ImSize t = totalSize t"

fun get_loop :: "tkey \<Rightarrow> treapNode \<Rightarrow> treapNode" where
  "get_loop key TNil = TNil"
| "get_loop key (TNode k v p s l r) =
     (let compareResult = bytes_compare key k in
      if compareResult < 0 then get_loop key l
      else if compareResult > 0 then get_loop key r
      else TNode k v p s l r)"

definition get :: "immutable \<Rightarrow> tkey \<Rightarrow> treapNode" where
  "get t key = get_loop key (root t)"

definition Has :: "immutable \<Rightarrow> tkey \<Rightarrow> bool" where
  "Has t key = (get t key \<noteq> TNil)"

definition Get :: "immutable \<Rightarrow> tkey \<Rightarrow> tvalue option" where
  "Get t key = (case get t key of TNil \<Rightarrow> None | TNode k v p s l r \<Rightarrow> Some v)"

definition GetByIndex :: "immutable \<Rightarrow> int \<Rightarrow> treap_panic + tkey \<times> tvalue" where
  "GetByIndex t idx = getByIndex (root t) idx"

section \<open>Put\<close>

datatype side = GoLeft | GoRight

record frame =
  fr_side :: side
  fr_key :: tkey
  fr_value :: tvalue
  fr_priority :: uint32
  fr_size :: uint32
  fr_other :: treapNode

definition fill :: "frame \<Rightarrow> treapNode \<Rightarrow> treapNode" where
  "fill f n =
     (case fr_side f of
        GoLeft \<Rightarrow> TNode (fr_key f) (fr_value f) (fr_priority f) (fr_size f) n (fr_other f)
      | GoRight \<Rightarrow> TNode (fr_key f) (fr_value f) (fr_priority f) (fr_size f) (fr_other f) n)"

fun plug :: "frame list \<Rightarrow> treapNode \<Rightarrow> treapNode" where
  "plug [] n = n"
| "plug (f # fs) n = plug fs (fill f n)"

text \<open>
  The descent: every node on the path is copied and pushed; the result is the
  stack and the node with the key, nil if there is none.
\<close>

fun descend :: "tkey \<Rightarrow> treapNode \<Rightarrow> frame list \<Rightarrow> frame list \<times> treapNode" where
  "descend key TNil parents = (parents, TNil)"
| "descend key (TNode k v p s l r) parents =
     (let compareResult = bytes_compare key k in
      if compareResult < 0 then
        descend key l (\<lparr>fr_side = GoLeft, fr_key = k, fr_value = v, fr_priority = p,
                        fr_size = s, fr_other = r\<rparr> # parents)
      else if compareResult > 0 then
        descend key r (\<lparr>fr_side = GoRight, fr_key = k, fr_value = v, fr_priority = p,
                        fr_size = s, fr_other = l\<rparr> # parents)
      else (parents, TNode k v p s l r))"

text \<open>
  The rotations of \<open>Put\<close>: while the new node has a smaller priority than
  its parent, it takes the parent's place, and both sizes are corrected.
\<close>

fun rotate_up :: "treapNode \<Rightarrow> frame list \<Rightarrow> treapNode" where
  "rotate_up node [] = node"
| "rotate_up TNil (f # fs) = plug (f # fs) TNil"
| "rotate_up (TNode k v p s l r) (f # fs) =
     (if p \<ge> fr_priority f then plug (f # fs) (TNode k v p s l r)
      else case fr_side f of
        GoLeft \<Rightarrow>
          (let s' = s + (1 + childSize (fr_other f));
               parent_size = fr_size f - (1 + childSize l)
           in rotate_up (TNode k v p s' l
                (TNode (fr_key f) (fr_value f) (fr_priority f) parent_size r (fr_other f))) fs)
      | GoRight \<Rightarrow>
          (let s' = s + (1 + childSize (fr_other f));
               parent_size = fr_size f - (1 + childSize r)
           in rotate_up (TNode k v p s'
                (TNode (fr_key f) (fr_value f) (fr_priority f) parent_size (fr_other f) l) r) fs))"

definition grow :: "frame \<Rightarrow> frame" where
  "grow f = f\<lparr>fr_size := fr_size f + 1\<rparr>"

definition Put :: "immutable \<Rightarrow> tkey \<Rightarrow> tvalue option \<Rightarrow> immutable" where
  "Put t key value =
     (case value of
        None \<Rightarrow> t
      | Some v \<Rightarrow>
          if root t = TNil then newImmutable (newTreapNode key v (Height v)) 1 nodeSize
          else
            (case descend key (root t) [] of
               (parents, TNode k old p s l r) \<Rightarrow>
                 newImmutable (plug parents (TNode k v p s l r)) (count t) (totalSize t)
             | (parents, TNil) \<Rightarrow>
                 newImmutable (rotate_up (newTreapNode key v (Height v)) (map grow parents))
                   (count t + 1) (totalSize t + nodeSize)))"

section \<open>Delete\<close>

text \<open>
  The rotations of \<open>Delete\<close> move the node down: the child of smaller
  priority takes its place with the other subtree added to its size, until the
  node is a leaf and is dropped.  \<open>sink l r\<close> is the subtree that remains of
  a node with the children \<open>l\<close> and \<open>r\<close>.
\<close>

function sink :: "treapNode \<Rightarrow> treapNode \<Rightarrow> treapNode" where
  "sink TNil TNil = TNil"
| "sink TNil (TNode k v p s l r) = TNode k v p (s + childSize TNil) (sink TNil l) r"
| "sink (TNode k v p s l r) TNil = TNode k v p (s + childSize TNil) l (sink r TNil)"
| "sink (TNode k v p s l r) (TNode k' v' p' s' l' r') =
     (if p \<le> p'
      then TNode k v p (s + s') l (sink r (TNode k' v' p' s' l' r'))
      else TNode k' v' p' (s' + s) (sink (TNode k v p s l r) l') r')"
  by pat_completeness auto
termination
  by (relation "measure (\<lambda>(l, r). size l + size r)") auto

definition shrink :: "frame \<Rightarrow> frame" where
  "shrink f = f\<lparr>fr_size := fr_size f - 1\<rparr>"

definition Delete :: "immutable \<Rightarrow> tkey \<Rightarrow> immutable" where
  "Delete t key =
     (case descend key (root t) [] of
        (parents, TNil) \<Rightarrow> t
      | (parents, TNode k v p s l r) \<Rightarrow>
          if parents = [] \<and> l = TNil \<and> r = TNil then newImmutable TNil 0 0
          else newImmutable (plug (map shrink parents) (sink l r))
                 (count t - 1) (totalSize t - nodeSize))"

section \<open>Iteration\<close>

text \<open>
  The callback \<open>fn\<close> returns whether to go on; what it captures is the state
  \<open>'s\<close> that it updates.  \<open>push_left lim\<close> pushes a node and its left
  spine as long as \<open>lim\<close> holds of the priority.
\<close>

fun push_left :: "(uint32 \<Rightarrow> bool) \<Rightarrow> treapNode \<Rightarrow> treapNode list \<Rightarrow> treapNode list" where
  "push_left lim TNil parents = parents"
| "push_left lim (TNode k v p s l r) parents =
     (if lim p then push_left lim l (TNode k v p s l r # parents) else parents)"

definition stack_weight :: "treapNode list \<Rightarrow> nat" where
  "stack_weight parents = sum_list (map (\<lambda>n. Suc (size (node_right n))) parents)"

lemma push_left_weight: "stack_weight (push_left lim n parents) \<le> size n + stack_weight parents"
proof (induction lim n parents rule: push_left.induct)
  case (2 lim k v p s l r parents)
  then show ?case by (cases "lim p") (auto simp: stack_weight_def)
qed (simp add: stack_weight_def)

function iter_loop ::
  "(uint32 \<Rightarrow> bool) \<Rightarrow> (tkey \<Rightarrow> tvalue \<Rightarrow> 's \<Rightarrow> 's \<times> bool) \<Rightarrow> treapNode list \<Rightarrow> 's \<Rightarrow> 's" where
  "iter_loop lim fn [] st = st"
| "iter_loop lim fn (n # parents) st =
     (case fn (node_key n) (node_value n) st of
        (st', False) \<Rightarrow> st'
      | (st', True) \<Rightarrow> iter_loop lim fn (push_left lim (node_right n) parents) st')"
  by pat_completeness auto
termination
proof (relation "measure (\<lambda>(lim, fn, parents, st). stack_weight parents)")
  fix lim fn n parents and st st' :: 's and x2
  show "((lim, fn, push_left lim (node_right n) parents, st'), lim, fn, n # parents, st)
      \<in> measure (\<lambda>(lim, fn, parents, st). stack_weight parents)"
    using push_left_weight [of lim "node_right n" parents]
    by (simp add: stack_weight_def)
qed simp

definition ForEach :: "immutable \<Rightarrow> (tkey \<Rightarrow> tvalue \<Rightarrow> 's \<Rightarrow> 's \<times> bool) \<Rightarrow> 's \<Rightarrow> 's" where
  "ForEach t fn st = iter_loop (\<lambda>_. True) fn (push_left (\<lambda>_. True) (root t) []) st"

definition ForEachByHeight ::
  "immutable \<Rightarrow> uint32 \<Rightarrow> (tkey \<Rightarrow> tvalue \<Rightarrow> 's \<Rightarrow> 's \<times> bool) \<Rightarrow> 's \<Rightarrow> 's" where
  "ForEachByHeight t heightLessThan fn st =
     iter_loop (\<lambda>p. p < heightLessThan) fn (push_left (\<lambda>p. p < heightLessThan) (root t) []) st"

section \<open>Contents and invariants\<close>

text \<open>The nodes in key order: key, value and priority.\<close>

fun nodes :: "treapNode \<Rightarrow> (tkey \<times> tvalue \<times> uint32) list" where
  "nodes TNil = []"
| "nodes (TNode k v p s l r) = nodes l @ (k, v, p) # nodes r"

definition entries_of :: "(tkey \<times> tvalue \<times> uint32) list \<Rightarrow> (tkey \<times> tvalue) list" where
  "entries_of xs = map (\<lambda>(k, v, p). (k, v)) xs"

definition entries :: "immutable \<Rightarrow> (tkey \<times> tvalue) list" where
  "entries t = entries_of (nodes (root t))"

definition bst :: "treapNode \<Rightarrow> bool" where
  "bst n \<longleftrightarrow> sorted_wrt (<) (map fst (nodes n))"

definition prios :: "treapNode \<Rightarrow> uint32 set" where
  "prios n = (snd \<circ> snd) ` set (nodes n)"

fun heap :: "treapNode \<Rightarrow> bool" where
  "heap TNil \<longleftrightarrow> True"
| "heap (TNode k v p s l r) \<longleftrightarrow>
     heap l \<and> heap r \<and> (\<forall>q \<in> prios l \<union> prios r. p \<le> q)"

fun sized :: "treapNode \<Rightarrow> bool" where
  "sized TNil \<longleftrightarrow> True"
| "sized (TNode k v p s l r) \<longleftrightarrow>
     sized l \<and> sized r \<and> s = of_nat (length (nodes (TNode k v p s l r)))"

text \<open>
  \<open>treap_wf\<close> is the invariant of all operations.  \<open>prio_ok\<close>, that the
  priority of a node is the height of its ticket, is kept by insertions of new
  keys only: \<open>Put\<close> on a key that is present replaces the value and keeps
  the old priority.
\<close>

definition treap_wf :: "immutable \<Rightarrow> bool" where
  "treap_wf t \<longleftrightarrow> bst (root t) \<and> heap (root t) \<and> sized (root t) \<and>
     count t = int (length (entries t)) \<and> totalSize t = of_nat (length (entries t)) * nodeSize"

definition prio_ok :: "immutable \<Rightarrow> bool" where
  "prio_ok t \<longleftrightarrow> (\<forall>(k, v, p) \<in> set (nodes (root t)). p = Height v)"

definition ticket_wf :: "immutable \<Rightarrow> bool" where
  "ticket_wf t \<longleftrightarrow> treap_wf t \<and> prio_ok t"

named_theorems treap_simps \<open>contents of treaps\<close>

lemma prios_simps [simp, treap_simps]:
  "prios TNil = {}"
  "prios (TNode k v p s l r) = insert p (prios l \<union> prios r)"
  by (auto simp: prios_def)

lemma entries_of_simps [simp, treap_simps]:
  "entries_of [] = []"
  "entries_of ((k, v, p) # xs) = (k, v) # entries_of xs"
  "entries_of (xs @ ys) = entries_of xs @ entries_of ys"
  "length (entries_of xs) = length xs"
  "map fst (entries_of xs) = map fst xs"
  by (auto simp: entries_of_def)

lemma nodes_eq_Nil [simp]: "nodes n = [] \<longleftrightarrow> n = TNil"
  by (cases n) auto

lemma childSize_sized [treap_simps]: "sized n \<Longrightarrow> childSize n = of_nat (length (nodes n))"
  by (cases n) auto

subsection \<open>Contexts\<close>

fun before :: "frame list \<Rightarrow> (tkey \<times> tvalue \<times> uint32) list" where
  "before [] = []"
| "before (f # fs) = before fs @
     (case fr_side f of GoLeft \<Rightarrow> [] | GoRight \<Rightarrow> nodes (fr_other f) @ [(fr_key f, fr_value f, fr_priority f)])"

fun after :: "frame list \<Rightarrow> (tkey \<times> tvalue \<times> uint32) list" where
  "after [] = []"
| "after (f # fs) =
     (case fr_side f of GoLeft \<Rightarrow> (fr_key f, fr_value f, fr_priority f) # nodes (fr_other f) | GoRight \<Rightarrow> [])
     @ after fs"

lemma nodes_fill:
  "nodes (fill f n) =
     (case fr_side f of
        GoLeft \<Rightarrow> nodes n @ (fr_key f, fr_value f, fr_priority f) # nodes (fr_other f)
      | GoRight \<Rightarrow> nodes (fr_other f) @ (fr_key f, fr_value f, fr_priority f) # nodes n)"
  by (simp add: fill_def split: side.split)

lemma nodes_plug [treap_simps]: "nodes (plug fs n) = before fs @ nodes n @ after fs"
  by (induction fs arbitrary: n) (auto simp: nodes_fill split: side.split)

lemma grow_shrink_fields [simp]:
  "fr_side (grow f) = fr_side f" "fr_key (grow f) = fr_key f" "fr_value (grow f) = fr_value f"
  "fr_priority (grow f) = fr_priority f" "fr_other (grow f) = fr_other f"
  "fr_size (grow f) = fr_size f + 1"
  "fr_side (shrink f) = fr_side f" "fr_key (shrink f) = fr_key f" "fr_value (shrink f) = fr_value f"
  "fr_priority (shrink f) = fr_priority f" "fr_other (shrink f) = fr_other f"
  "fr_size (shrink f) = fr_size f - 1"
  by (simp_all add: grow_def shrink_def)

lemma before_after_map [simp]:
  "before (map grow fs) = before fs" "after (map grow fs) = after fs"
  "before (map shrink fs) = before fs" "after (map shrink fs) = after fs"
  by (induction fs) (auto split: side.split)

fun heap_ctx :: "frame list \<Rightarrow> bool" where
  "heap_ctx [] \<longleftrightarrow> True"
| "heap_ctx (f # fs) \<longleftrightarrow>
     heap (fr_other f) \<and> (\<forall>q \<in> prios (fr_other f). fr_priority f \<le> q) \<and>
     (\<forall>g \<in> set fs. fr_priority g \<le> fr_priority f) \<and> heap_ctx fs"

lemma heap_plug:
  "heap (plug fs n) \<longleftrightarrow>
     heap n \<and> heap_ctx fs \<and> (\<forall>f \<in> set fs. \<forall>q \<in> prios n. fr_priority f \<le> q)"
proof (induction fs arbitrary: n)
  case (Cons f fs)
  have "heap (fill f n) \<longleftrightarrow> heap n \<and> heap (fr_other f) \<and>
      (\<forall>q \<in> prios n \<union> prios (fr_other f). fr_priority f \<le> q)"
    and "prios (fill f n) = insert (fr_priority f) (prios n \<union> prios (fr_other f))"
    by (auto simp: fill_def split: side.split)
  moreover have "\<forall>g \<in> set fs. fr_priority g \<le> fr_priority f \<Longrightarrow>
      \<forall>q \<in> prios (fr_other f). fr_priority f \<le> q \<Longrightarrow>
      \<forall>g \<in> set fs. \<forall>q \<in> prios (fr_other f). fr_priority g \<le> q"
    using order_trans by blast
  ultimately show ?case using Cons [of "fill f n"] by (simp add: ball_Un) blast
qed simp

lemma heap_ctx_map [simp]:
  "heap_ctx (map grow fs) = heap_ctx fs" "heap_ctx (map shrink fs) = heap_ctx fs"
  by (induction fs) auto

fun sized_ctx :: "frame list \<Rightarrow> nat \<Rightarrow> bool" where
  "sized_ctx [] m \<longleftrightarrow> True"
| "sized_ctx (f # fs) m \<longleftrightarrow>
     sized (fr_other f) \<and> fr_size f = of_nat (Suc (m + length (nodes (fr_other f)))) \<and>
     sized_ctx fs (Suc (m + length (nodes (fr_other f))))"

lemma sized_plug: "sized (plug fs n) \<longleftrightarrow> sized n \<and> sized_ctx fs (length (nodes n))"
proof (induction fs arbitrary: n)
  case (Cons f fs)
  have "sized (fill f n) \<longleftrightarrow> sized n \<and> sized (fr_other f) \<and>
      fr_size f = of_nat (Suc (length (nodes n) + length (nodes (fr_other f))))"
    and "length (nodes (fill f n)) = Suc (length (nodes n) + length (nodes (fr_other f)))"
    by (auto simp: fill_def add.commute split: side.split)
  with Cons [of "fill f n"] show ?case by auto
qed simp

lemma sized_ctx_grow: "sized_ctx fs m \<Longrightarrow> sized_ctx (map grow fs) (Suc m)"
  by (induction fs arbitrary: m) auto

lemma sized_ctx_shrink: "sized_ctx fs (Suc m) \<Longrightarrow> sized_ctx (map shrink fs) m"
  by (induction fs arbitrary: m) auto

subsection \<open>The descent\<close>

lemma plug_descend: "descend key t fs = (fs', n) \<Longrightarrow> plug fs' n = plug fs t"
  by (induction key t fs rule: descend.induct)
    (auto simp: Let_def fill_def split: if_splits)

text \<open>
  The descent splits the nodes at the key: those on its left are smaller, those
  on its right larger, and the node it stops at has the key.
\<close>

lemma descend_split:
  assumes "descend key t fs = (fs', n)" and "sorted_wrt (<) (map fst (nodes t))"
  shows "\<exists>xs ys. before fs' = before fs @ xs \<and> after fs' = ys @ after fs \<and>
     nodes t = xs @ nodes n @ ys \<and> (\<forall>x \<in> set xs. fst x < key) \<and> (\<forall>y \<in> set ys. key < fst y) \<and>
     (n = TNil \<or> node_key n = key)"
  using assms
proof (induction key t fs rule: descend.induct)
  case (2 key k v p s l r fs)
  note srt = "2.prems"(2)
  consider "key < k" | "k < key" | "key = k" by fastforce
  then show ?case
  proof cases
    case 1
    with "2.IH"(1) [OF refl] "2.prems" obtain xs ys where
      "before fs' = before fs @ xs" "after fs' = ys @ (k, v, p) # nodes r @ after fs"
      "nodes l = xs @ nodes n @ ys" "\<forall>x \<in> set xs. fst x < key" "\<forall>y \<in> set ys. key < fst y"
      "n = TNil \<or> node_key n = key"
      by (auto simp: sorted_wrt_append)
    moreover have "\<forall>y \<in> set (nodes r). key < fst y"
      using 1 srt by (auto simp: sorted_wrt_append intro: less_trans)
    ultimately show ?thesis
      by (intro exI [of _ xs] exI [of _ "ys @ (k, v, p) # nodes r"]) (use 1 in auto)
  next
    case 2
    then have "\<not> key < k" by simp
    with 2 "2.IH"(2) [OF refl] "2.prems" obtain xs ys where
      "before fs' = before fs @ nodes l @ (k, v, p) # xs" "after fs' = ys @ after fs"
      "nodes r = xs @ nodes n @ ys" "\<forall>x \<in> set xs. fst x < key" "\<forall>y \<in> set ys. key < fst y"
      "n = TNil \<or> node_key n = key"
      by (auto simp: sorted_wrt_append)
    moreover have "\<forall>x \<in> set (nodes l). fst x < key"
      using 2 srt by (auto simp: sorted_wrt_append intro: less_trans)
    ultimately show ?thesis
      by (intro exI [of _ "nodes l @ (k, v, p) # xs"] exI [of _ ys]) (use 2 in auto)
  next
    case 3
    with "2.prems" show ?thesis by auto
  qed
qed auto

lemma get_loop_descend: "get_loop key t = snd (descend key t fs)"
  by (induction key t fs rule: descend.induct) (auto simp: Let_def)

lemma nodes_descend:
  assumes "descend key t [] = (fs, n)" and "bst t"
  shows "nodes t = before fs @ nodes n @ after fs" and "\<forall>x \<in> set (before fs). fst x < key"
    and "\<forall>y \<in> set (after fs). key < fst y" and "n = TNil \<or> node_key n = key"
  using descend_split [of key t "[]" fs n] assms by (auto simp: bst_def)

subsection \<open>Rotations\<close>

lemma nodes_rotate_up [treap_simps]:
  "nodes (rotate_up n fs) = before fs @ nodes n @ after fs"
  by (induction n fs rule: rotate_up.induct)
    (auto simp: nodes_plug nodes_fill Let_def split: side.split)

lemma heap_rotate_up:
  assumes "heap n" and "heap_ctx fs"
    and "n = TNil \<or> (\<forall>f \<in> set fs. \<forall>q \<in> prios (node_left n) \<union> prios (node_right n). fr_priority f \<le> q)"
  shows "n \<noteq> TNil \<Longrightarrow> heap (rotate_up n fs)"
  using assms
proof (induction n fs rule: rotate_up.induct)
  case (3 k v p s l r f fs)
  show ?case
  proof (cases "fr_priority f \<le> p")
    case True
    with "3.prems" have "heap (plug (f # fs) (TNode k v p s l r))"
      unfolding heap_plug by (auto intro: order_trans)
    with True show ?thesis by simp
  next
    case False
    then have le: "p \<le> fr_priority f" by simp
    note ctx = "3.prems"(3)
    have "\<forall>q \<in> prios (fr_other f). p \<le> q"
      and "\<forall>g \<in> set fs. \<forall>q \<in> prios (fr_other f). fr_priority g \<le> q"
      using ctx le order_trans by auto blast+
    note facts = this "3.prems" le False
    show ?thesis
    proof (cases "fr_side f")
      case GoLeft
      from "3.IH"(1) [OF False GoLeft refl refl] GoLeft facts show ?thesis
        by (simp add: Let_def ball_Un)
    next
      case GoRight
      from "3.IH"(2) [OF False GoRight refl refl] GoRight facts show ?thesis
        by (simp add: Let_def ball_Un)
    qed
  qed
qed auto

lemma sized_rotate_up:
  "n \<noteq> TNil \<Longrightarrow> sized n \<Longrightarrow> sized_ctx fs (length (nodes n)) \<Longrightarrow> sized (rotate_up n fs)"
proof (induction n fs rule: rotate_up.induct)
  case (3 k v p s l r f fs)
  show ?case
  proof (cases "fr_priority f \<le> p")
    case True
    with "3.prems" have "sized (plug (f # fs) (TNode k v p s l r))"
      unfolding sized_plug by auto
    with True show ?thesis by simp
  next
    case False
    show ?thesis
    proof (cases "fr_side f")
      case GoLeft
      with "3.IH"(1) [OF False GoLeft refl refl] "3.prems" False show ?thesis
        by (simp add: Let_def childSize_sized algebra_simps)
    next
      case GoRight
      with "3.IH"(2) [OF False GoRight refl refl] "3.prems" False show ?thesis
        by (simp add: Let_def childSize_sized algebra_simps)
    qed
  qed
qed auto

lemma nodes_sink [treap_simps]: "nodes (sink l r) = nodes l @ nodes r"
  by (induction l r rule: sink.induct) auto

lemma prios_sink [treap_simps]: "prios (sink l r) = prios l \<union> prios r"
  by (auto simp: prios_def nodes_sink)

lemma heap_sink: "heap l \<Longrightarrow> heap r \<Longrightarrow> heap (sink l r)"
  by (induction l r rule: sink.induct) (auto simp: prios_sink intro: order_trans)

lemma sized_sink: "sized l \<Longrightarrow> sized r \<Longrightarrow> sized (sink l r)"
  by (induction l r rule: sink.induct) (auto simp: nodes_sink algebra_simps)

section \<open>Functional behaviour\<close>

text \<open>
  Where the descent stops: at the node of the key, or at the gap between the
  smaller and the larger keys.
\<close>

lemma locate:
  assumes "bst t" and "descend key t [] = (fs, n)"
  obtains xs zs ys where "nodes t = xs @ zs @ ys"
    and "\<forall>x \<in> set xs. fst x < key" and "\<forall>y \<in> set ys. key < fst y"
    and "n = TNil \<Longrightarrow> zs = [] \<and> xs = before fs \<and> ys = after fs"
    and "\<And>k v p s l r. n = TNode k v p s l r \<Longrightarrow>
       k = key \<and> zs = [(key, v, p)] \<and> xs = before fs @ nodes l \<and> ys = nodes r @ after fs"
proof (cases n)
  case TNil
  with nodes_descend [OF assms(2,1)] that [of "before fs" "[]" "after fs"] show ?thesis by simp
next
  case (TNode k v p s l r)
  note nd = nodes_descend [OF assms(2,1), unfolded TNode, simplified]
  have "sorted_wrt (<) (map fst (nodes t))" using assms(1) by (simp add: bst_def)
  with nd have "\<forall>x \<in> set (before fs @ nodes l). fst x < key"
    "\<forall>y \<in> set (nodes r @ after fs). key < fst y"
    by (auto simp: sorted_wrt_append)
  with nd TNode show ?thesis
    by (intro that [of "before fs @ nodes l" "[(key, v, p)]" "nodes r @ after fs"]) auto
qed

lemma map_of_gap [simp]:
  "\<forall>x \<in> set xs. fst x < (key :: tkey) \<Longrightarrow> map_of (entries_of xs) key = None"
  "\<forall>x \<in> set xs. key < fst x \<Longrightarrow> map_of (entries_of xs) key = None"
  by (force simp: map_of_eq_None_iff entries_of_def)+

lemma Get_map_of: "treap_wf t \<Longrightarrow> Get t k = map_of (entries t) k"
proof -
  assume "treap_wf t"
  then have "bst (root t)" by (simp add: treap_wf_def)
  moreover obtain fs n where d: "descend k (root t) [] = (fs, n)" by fastforce
  ultimately obtain xs zs ys where split: "nodes (root t) = xs @ zs @ ys"
      "\<forall>x \<in> set xs. fst x < k" "\<forall>y \<in> set ys. k < fst y"
      "n = TNil \<Longrightarrow> zs = []" "\<And>k' v p s l r. n = TNode k' v p s l r \<Longrightarrow> zs = [(k, v, p)]"
    by (rule locate) blast
  have "get t k = n" using d by (simp add: get_def get_loop_descend [of _ _ "[]"])
  with split show ?thesis
    by (cases n) (auto simp: Get_def entries_def map_add_def)
qed

lemma Has_Get: "Has t k \<longleftrightarrow> Get t k \<noteq> None"
  by (simp add: Has_def Get_def split: treapNode.split)

text \<open>The nodes after an insertion or an update, and after a removal.\<close>

lemma Put_nodes:
  assumes "bst (root t)" and "descend k (root t) [] = (fs, n)"
  obtains xs zs ys p where "nodes (root t) = xs @ zs @ ys"
    and "nodes (root (Put t k (Some v))) = xs @ (k, v, p) # ys"
    and "\<forall>x \<in> set xs. fst x < k" and "\<forall>y \<in> set ys. k < fst y"
    and "n = TNil \<Longrightarrow> zs = [] \<and> p = Height v"
    and "n \<noteq> TNil \<Longrightarrow> \<exists>old. zs = [(k, old, p)]"
proof -
  obtain xs zs ys where split: "nodes (root t) = xs @ zs @ ys"
    "\<forall>x \<in> set xs. fst x < k" "\<forall>y \<in> set ys. k < fst y"
    "n = TNil \<Longrightarrow> zs = [] \<and> xs = before fs \<and> ys = after fs"
    "\<And>k' v p s l r. n = TNode k' v p s l r \<Longrightarrow>
       k' = k \<and> zs = [(k, v, p)] \<and> xs = before fs @ nodes l \<and> ys = nodes r @ after fs"
    using locate [OF assms] by blast
  show ?thesis
  proof (cases n)
    case TNil
    with split assms(2) show ?thesis
      by (intro that [of xs zs ys "Height v"])
        (auto simp: Put_def newImmutable_def newTreapNode_def nodes_rotate_up)
  next
    case (TNode k' old p s l r)
    with assms(2) have "root t \<noteq> TNil" by auto
    with TNode split assms(2) show ?thesis
      by (intro that [of xs zs ys p]) (auto simp: Put_def newImmutable_def nodes_plug)
  qed
qed

lemma Delete_nodes:
  assumes "bst (root t)"
  obtains xs zs ys where "nodes (root t) = xs @ zs @ ys"
    and "nodes (root (Delete t k)) = xs @ ys"
    and "\<forall>x \<in> set xs. fst x < k" and "\<forall>y \<in> set ys. k < fst y"
    and "zs = [] \<and> Delete t k = t \<or> (\<exists>v p. zs = [(k, v, p)])"
proof -
  obtain fs n where d: "descend k (root t) [] = (fs, n)" by fastforce
  obtain xs zs ys where split: "nodes (root t) = xs @ zs @ ys"
    "\<forall>x \<in> set xs. fst x < k" "\<forall>y \<in> set ys. k < fst y"
    "n = TNil \<Longrightarrow> zs = [] \<and> xs = before fs \<and> ys = after fs"
    "\<And>k' v p s l r. n = TNode k' v p s l r \<Longrightarrow>
       k' = k \<and> zs = [(k, v, p)] \<and> xs = before fs @ nodes l \<and> ys = nodes r @ after fs"
    using locate [OF assms d] by blast
  show ?thesis
  proof (cases n)
    case TNil
    with split d show ?thesis by (intro that [of xs zs ys]) (auto simp: Delete_def)
  next
    case (TNode k' v p s l r)
    with split d show ?thesis
      by (intro that [of xs zs ys])
        (auto simp: Delete_def newImmutable_def nodes_plug nodes_sink)
  qed
qed

lemma bst_glue:
  "sorted_wrt (<) (map fst (xs @ zs @ ys)) \<Longrightarrow> \<forall>x \<in> set xs. fst x < k \<Longrightarrow> \<forall>y \<in> set ys. k < fst y \<Longrightarrow>
     sorted_wrt (<) (map fst (xs @ ys)) \<and> sorted_wrt (<) (map fst (xs @ (k, v) # ys))"
  by (auto simp: sorted_wrt_append)

lemma Put_map_of:
  assumes "treap_wf t"
  shows "map_of (entries (Put t k (Some v))) = (map_of (entries t))(k \<mapsto> v)"
proof -
  obtain fs n where d: "descend k (root t) [] = (fs, n)" by fastforce
  from assms have b: "bst (root t)" by (simp add: treap_wf_def)
  obtain xs zs ys p where split: "nodes (root t) = xs @ zs @ ys"
      "nodes (root (Put t k (Some v))) = xs @ (k, v, p) # ys"
      "\<forall>x \<in> set xs. fst x < k" "\<forall>y \<in> set ys. k < fst y" "zs = [] \<or> (\<exists>old. zs = [(k, old, p)])"
    using Put_nodes [OF b d, of v] by metis
  show ?thesis
    using split(3-5)
    by (auto simp: entries_def split(1,2) fun_eq_iff map_add_def split: option.split)
qed

lemma Delete_map_of:
  assumes "treap_wf t"
  shows "map_of (entries (Delete t k)) = (map_of (entries t))(k := None)"
proof -
  from assms have "bst (root t)" by (simp add: treap_wf_def)
  then obtain xs zs ys where split: "nodes (root t) = xs @ zs @ ys" "nodes (root (Delete t k)) = xs @ ys"
      "\<forall>x \<in> set xs. fst x < k" "\<forall>y \<in> set ys. k < fst y" "zs = [] \<or> (\<exists>v p. zs = [(k, v, p)])"
    using Delete_nodes [of t k] by metis
  show ?thesis
    using split(3-5)
    by (auto simp: entries_def split(1,2) fun_eq_iff map_add_def split: option.split)
qed

lemma treap_wfI:
  assumes "bst (root t)" "heap (root t)" "sized (root t)"
    and "count t = int (length (nodes (root t)))"
    and "totalSize t = of_nat (length (nodes (root t))) * nodeSize"
  shows "treap_wf t"
  using assms by (simp add: treap_wf_def entries_def)

lemma Put_wf:
  assumes wf: "treap_wf t"
  shows "treap_wf (Put t k vo)"
proof (cases vo)
  case (Some v)
  obtain fs n where d: "descend k (root t) [] = (fs, n)" by fastforce
  from wf have b: "bst (root t)" and h: "heap (root t)" and z: "sized (root t)"
    and c: "count t = int (length (nodes (root t)))"
    and sz: "totalSize t = of_nat (length (nodes (root t))) * nodeSize"
    by (auto simp: treap_wf_def entries_def)
  let ?t = "Put t k (Some v)"
  obtain xs zs ys p where split: "nodes (root t) = xs @ zs @ ys"
      "nodes (root ?t) = xs @ (k, v, p) # ys"
      "\<forall>x \<in> set xs. fst x < k" "\<forall>y \<in> set ys. k < fst y"
      "n = TNil \<Longrightarrow> zs = []" "n \<noteq> TNil \<Longrightarrow> \<exists>old. zs = [(k, old, p)]"
    using Put_nodes [OF b d, of v] by metis
  from plug_descend [OF d] have pl: "plug fs n = root t" by simp
  have hp: "heap n" "heap_ctx fs" "\<forall>f \<in> set fs. \<forall>q \<in> prios n. fr_priority f \<le> q"
    using h unfolding pl [symmetric] heap_plug by auto
  have sp: "sized n" "sized_ctx fs (length (nodes n))"
    using z unfolding pl [symmetric] sized_plug by auto
  have "bst (root ?t)"
    using b split(1-4) bst_glue [of xs zs ys k "(v, p)"] by (simp add: bst_def)
  then have "treap_wf ?t"
  proof (cases n)
    case TNil
    have "sized_ctx (map grow fs) 1" using sp(2) TNil sized_ctx_grow [of fs 0] by simp
    with TNil hp(2) d have "heap (root ?t) \<and> sized (root ?t)"
      by (auto simp: Put_def newImmutable_def newTreapNode_def intro!: heap_rotate_up sized_rotate_up)
    moreover have "count ?t = count t + 1 \<and> totalSize ?t = totalSize t + nodeSize"
      using TNil d c sz by (auto simp: Put_def newImmutable_def)
    ultimately show ?thesis using \<open>bst (root ?t)\<close> split TNil c sz
      by (intro treap_wfI) (auto simp: algebra_simps)
  next
    case (TNode k' old p' s l r)
    with d have "root t \<noteq> TNil" by auto
    with TNode d have eq: "?t = newImmutable (plug fs (TNode k' v p' s l r)) (count t) (totalSize t)"
      by (auto simp: Put_def)
    have "heap (root ?t)" using hp TNode unfolding eq by (auto simp: newImmutable_def heap_plug)
    moreover have "sized (root ?t)" using sp TNode unfolding eq by (auto simp: newImmutable_def sized_plug)
    moreover obtain old' where "zs = [(k, old', p)]" using split(6) TNode by auto
    moreover have "count ?t = count t" "totalSize ?t = totalSize t" unfolding eq by (auto simp: newImmutable_def)
    ultimately show ?thesis using \<open>bst (root ?t)\<close> split(1,2) c sz
      by (intro treap_wfI) (auto simp: algebra_simps)
  qed
  with Some show ?thesis by simp
qed (simp add: Put_def wf)

lemma Delete_wf:
  assumes wf: "treap_wf t"
  shows "treap_wf (Delete t k)"
proof -
  obtain fs n where d: "descend k (root t) [] = (fs, n)" by fastforce
  from wf have b: "bst (root t)" and h: "heap (root t)" and z: "sized (root t)"
    and c: "count t = int (length (nodes (root t)))"
    and sz: "totalSize t = of_nat (length (nodes (root t))) * nodeSize"
    by (auto simp: treap_wf_def entries_def)
  obtain xs zs ys where split: "nodes (root t) = xs @ zs @ ys" "nodes (root (Delete t k)) = xs @ ys"
      "\<forall>x \<in> set xs. fst x < k" "\<forall>y \<in> set ys. k < fst y"
      "zs = [] \<and> Delete t k = t \<or> (\<exists>v p. zs = [(k, v, p)])"
    using Delete_nodes [OF b, of k] by metis
  have bst': "bst (root (Delete t k))"
    using b split(1-4) bst_glue [of xs zs ys k] by (simp add: bst_def)
  show ?thesis
  proof (cases n)
    case TNil
    with d wf show ?thesis by (simp add: Delete_def)
  next
    case (TNode k' v p s l r)
    from plug_descend [OF d] have pl: "plug fs n = root t" by simp
    then have len: "length (nodes (root t)) = length (before fs) + length (nodes n) + length (after fs)"
      by (simp add: nodes_plug flip: pl)
    have hp: "heap n" "heap_ctx fs" "\<forall>f \<in> set fs. \<forall>q \<in> prios n. fr_priority f \<le> q"
      using h unfolding pl [symmetric] heap_plug by auto
    have sp: "sized n" "sized_ctx fs (Suc (length (nodes l @ nodes r)))"
      using z unfolding pl [symmetric] sized_plug by (auto simp: TNode)
    have eq: "Delete t k = (if fs = [] \<and> l = TNil \<and> r = TNil then newImmutable TNil 0 0
        else newImmutable (plug (map shrink fs) (sink l r)) (count t - 1) (totalSize t - nodeSize))"
      using d TNode by (simp add: Delete_def)
    have "heap (root (Delete t k))"
      using hp TNode by (auto simp: eq newImmutable_def heap_plug prios_sink intro!: heap_sink)
    moreover have "sized (root (Delete t k))"
      using sp sized_ctx_shrink [OF sp(2)] TNode
      by (auto simp: eq newImmutable_def sized_plug nodes_sink intro!: sized_sink)
    ultimately show ?thesis using bst' c sz len TNode
      by (intro treap_wfI)
        (auto simp: eq newImmutable_def nodes_plug nodes_sink algebra_simps split: if_splits)
  qed
qed

subsection \<open>Access by index\<close>

lemma uint_childSize:
  "sized n \<Longrightarrow> length (nodes n) < 2 ^ 32 \<Longrightarrow> uint (childSize n) = int (length (nodes n))"
  by (simp add: childSize_sized uint_nat unat_of_nat)

lemma getByIndex_loop_nth:
  assumes "sized n" and "length (nodes n) < 2 ^ 32" and "i < length (nodes n)"
  shows "getByIndex_loop n (int i) = Inr (entries_of (nodes n) ! i)"
  using assms
proof (induction n arbitrary: i)
  case (TNode k v p s l r)
  let ?m = "length (nodes l)"
  have m: "uint (childSize l) = int ?m" using TNode.prems by (intro uint_childSize) auto
  consider "i < ?m" | "i = ?m" | "?m < i" by linarith
  then show ?case
  proof cases
    case 1
    with TNode m show ?thesis by (auto simp: nth_append)
  next
    case 2
    with m show ?thesis by (simp add: nth_append)
  next
    case 3
    then obtain j where "i = Suc (?m + j)" using less_imp_Suc_add by blast
    with TNode.IH(2) [of j] TNode.prems m show ?thesis by (auto simp: nth_append)
  qed
qed simp

lemma getByIndex_loop_end:
  assumes "sized n" and "length (nodes n) < 2 ^ 32"
  shows "getByIndex_loop n (int (length (nodes n))) = Inl NilDereference"
  using assms
proof (induction n)
  case (TNode k v p s l r)
  have "uint (childSize l) = int (length (nodes l))" using TNode.prems by (intro uint_childSize) auto
  with TNode show ?case by auto
qed simp

lemma getByIndex_in_range:
  assumes "treap_wf t" and "length (entries t) < 2 ^ 32" and "0 \<le> idx" and "idx < ImLen t"
  shows "GetByIndex t idx = Inr (entries t ! nat idx)"
proof -
  have sz: "sized (root t)" and lt: "length (nodes (root t)) < 2 ^ 32"
    and cnt: "ImLen t = int (length (nodes (root t)))"
    using assms(1,2) by (simp_all add: treap_wf_def entries_def ImLen_def)
  then have "uint (childSize (root t)) = ImLen t" by (simp add: uint_childSize)
  moreover have "getByIndex_loop (root t) idx = Inr (entries t ! nat idx)"
    using getByIndex_loop_nth [OF sz lt, of "nat idx"] assms(3,4) cnt by (simp add: entries_def nat_less_iff)
  ultimately show ?thesis using assms(3,4) cnt by (cases "root t") (auto simp: GetByIndex_def)
qed

subsection \<open>Iteration\<close>

text \<open>\<open>fold_while fn xs\<close> calls \<open>fn\<close> on the entries in order until it returns false.\<close>

fun fold_while :: "(tkey \<Rightarrow> tvalue \<Rightarrow> 's \<Rightarrow> 's \<times> bool) \<Rightarrow> (tkey \<times> tvalue) list \<Rightarrow> 's \<Rightarrow> 's" where
  "fold_while fn [] st = st"
| "fold_while fn ((k, v) # xs) st =
     (case fn k v st of (st', False) \<Rightarrow> st' | (st', True) \<Rightarrow> fold_while fn xs st')"

fun visible :: "(uint32 \<Rightarrow> bool) \<Rightarrow> treapNode \<Rightarrow> (tkey \<times> tvalue) list" where
  "visible lim TNil = []"
| "visible lim (TNode k v p s l r) =
     (if lim p then visible lim l @ (k, v) # visible lim r else [])"

definition pending :: "(uint32 \<Rightarrow> bool) \<Rightarrow> treapNode list \<Rightarrow> (tkey \<times> tvalue) list" where
  "pending lim parents =
     concat (map (\<lambda>n. (node_key n, node_value n) # visible lim (node_right n)) parents)"

lemma pending_push_left: "pending lim (push_left lim n parents) = visible lim n @ pending lim parents"
  by (induction lim n parents rule: push_left.induct) (auto simp: pending_def)

lemma iter_loop_pending: "iter_loop lim fn parents st = fold_while fn (pending lim parents) st"
proof (induction lim fn parents st rule: iter_loop.induct)
  case (2 lim fn n parents st)
  have "pending lim (n # parents) = (node_key n, node_value n) # pending lim (push_left lim (node_right n) parents)"
    by (simp add: pending_push_left) (simp add: pending_def)
  with 2 show ?case by (auto split: prod.split bool.split)
qed (simp add: pending_def)

lemma visible_all: "visible (\<lambda>_. True) n = entries_of (nodes n)"
  by (induction n) auto

lemma visible_below:
  "heap n \<Longrightarrow> visible (\<lambda>p. p < h) n = entries_of (filter (\<lambda>(k, v, p). p < h) (nodes n))"
proof (induction n)
  case (TNode k v p s l r)
  show ?case
  proof (cases "p < h")
    case False
    have "filter (\<lambda>(k, v, p). p < h) (nodes n) = []" if "\<forall>q \<in> prios n. p \<le> q" for n
      using that False by (force simp: filter_empty_conv prios_def)
    with TNode.prems have "filter (\<lambda>(k, v, p). p < h) (nodes l) = []"
      "filter (\<lambda>(k, v, p). p < h) (nodes r) = []" by simp_all
    with False show ?thesis by simp
  qed (use TNode in auto)
qed simp

lemma ForEach_fold: "ForEach t fn st = fold_while fn (entries t) st"
  by (simp add: ForEach_def iter_loop_pending pending_push_left visible_all entries_def)
    (simp add: pending_def)

lemma ForEachByHeight_fold:
  assumes "ticket_wf t"
  shows "ForEachByHeight t h fn st = fold_while fn (filter (\<lambda>(k, v). Height v < h) (entries t)) st"
proof -
  from assms have hp: "heap (root t)" and eq: "\<forall>(k, v, p) \<in> set (nodes (root t)). p = Height v"
    by (auto simp: ticket_wf_def treap_wf_def prio_ok_def)
  have "filter (\<lambda>(k, v). Height v < h) (entries_of xs) = entries_of (filter (\<lambda>(k, v, p). p < h) xs)"
    if "\<forall>(k, v, p) \<in> set xs. p = Height v" for xs
    using that by (induction xs) (auto simp: entries_of_def)
  from this [OF eq] hp show ?thesis
    by (simp add: ForEachByHeight_def iter_loop_pending pending_push_left visible_below entries_def)
      (simp add: pending_def)
qed

section \<open>The interface of the ticket pools\<close>

text \<open>
  What the stake node relies on: a finite map from ticket hashes to ticket
  states, with its entries in key order, its number of entries and the
  iteration over the tickets below a height.
\<close>

locale ticket_map =
  fixes empty :: 't
    and lookup :: "'t \<Rightarrow> tkey \<Rightarrow> tvalue option"
    and has :: "'t \<Rightarrow> tkey \<Rightarrow> bool"
    and put :: "'t \<Rightarrow> tkey \<Rightarrow> tvalue option \<Rightarrow> 't"
    and delete :: "'t \<Rightarrow> tkey \<Rightarrow> 't"
    and len :: "'t \<Rightarrow> int"
    and elems :: "'t \<Rightarrow> (tkey \<times> tvalue) list"
    and inv :: "'t \<Rightarrow> bool"
  assumes inv_empty: "inv empty" and elems_empty: "elems empty = []"
    and elems_sorted: "inv t \<Longrightarrow> sorted_wrt (<) (map fst (elems t))"
    and lookup_elems: "inv t \<Longrightarrow> lookup t k = map_of (elems t) k"
    and has_lookup: "inv t \<Longrightarrow> has t k \<longleftrightarrow> lookup t k \<noteq> None"
    and len_elems: "inv t \<Longrightarrow> len t = int (length (elems t))"
    and put_inv: "inv t \<Longrightarrow> lookup t k = None \<Longrightarrow> inv (put t k (Some v))"
    and put_lookup: "inv t \<Longrightarrow> lookup t k = None \<Longrightarrow> lookup (put t k (Some v)) = (lookup t)(k \<mapsto> v)"
    and delete_inv: "inv t \<Longrightarrow> inv (delete t k)"
    and delete_lookup: "inv t \<Longrightarrow> lookup (delete t k) = (lookup t)(k := None)"
begin

lemma lookup_empty: "lookup empty = Map.empty"
  by (rule ext) (simp add: lookup_elems inv_empty elems_empty)

lemma elems_distinct: "inv t \<Longrightarrow> distinct (map fst (elems t))"
  by (rule sorted_wrt_less_distinct) (rule elems_sorted)

lemma lookup_mem: "inv t \<Longrightarrow> lookup t k = Some v \<longleftrightarrow> (k, v) \<in> set (elems t)"
  by (simp only: lookup_elems map_of_eq_Some_iff elems_distinct)

text \<open>The contents determine the entries and their number, whatever the shape of the treap.\<close>

lemma same_lookup_same_elems:
  assumes "inv t" and "inv u" and "lookup t = lookup u"
  shows "elems t = elems u"
proof -
  have "x \<in> set (elems t) \<longleftrightarrow> x \<in> set (elems u)" for x
    using lookup_mem [OF assms(1), of "fst x" "snd x"] lookup_mem [OF assms(2), of "fst x" "snd x"] assms(3)
    by simp
  then have set: "set (elems t) = set (elems u)" by blast
  have srt: "sorted (map fst (elems w)) \<and> distinct (map fst (elems w))" if "inv w" for w
    using elems_sorted [OF that] by (simp only: strict_sorted_iff)
  have keys: "map fst (elems t) = map fst (elems u)"
    by (rule sorted_distinct_set_unique)
      (simp_all only: srt [OF assms(1)] srt [OF assms(2)] set_map set)
  have rebuild: "elems w = map (\<lambda>k. (k, the (lookup w k))) (map fst (elems w))" if "inv w" for w
  proof (rule nth_equalityI)
    fix i assume i: "i < length (elems w)"
    then have "(fst (elems w ! i), snd (elems w ! i)) \<in> set (elems w)" by simp
    then have "lookup w (fst (elems w ! i)) = Some (snd (elems w ! i))" by (simp only: lookup_mem [OF that])
    with i show "elems w ! i = map (\<lambda>k. (k, the (lookup w k))) (map fst (elems w)) ! i"
      by (simp add: prod_eq_iff)
  qed simp
  have "elems t = map (\<lambda>k. (k, the (lookup t k))) (map fst (elems t))" using assms(1) by (rule rebuild)
  also have "\<dots> = map (\<lambda>k. (k, the (lookup u k))) (map fst (elems u))" by (simp only: keys assms(3))
  also have "\<dots> = elems u" using assms(2) by (rule rebuild [symmetric])
  finally show ?thesis .
qed

lemma same_lookup_same_len:
  "inv t \<Longrightarrow> inv u \<Longrightarrow> lookup t = lookup u \<Longrightarrow> len t = len u"
  using same_lookup_same_elems [of t u] by (simp add: len_elems)

lemma len_dom: "inv t \<Longrightarrow> len t = int (card (dom (lookup t)))"
proof -
  assume inv: "inv t"
  have "lookup t = map_of (elems t)" using lookup_elems [OF inv] by (rule ext)
  then have "dom (lookup t) = set (map fst (elems t))" by (simp add: dom_map_of_conv_image_fst)
  moreover have "distinct (map fst (elems t))" using inv by (rule elems_distinct)
  ultimately show ?thesis using distinct_card [of "map fst (elems t)"] inv by (simp add: len_elems)
qed

end

lemma prio_ok_Put:
  assumes "treap_wf t" and "prio_ok t" and "Get t k = None"
  shows "prio_ok (Put t k (Some v))"
proof -
  obtain fs n where d: "descend k (root t) [] = (fs, n)" by fastforce
  then have "get t k = n" by (simp add: get_def get_loop_descend [of _ _ "[]"])
  with assms(3) have "n = TNil" by (simp add: Get_def split: treapNode.splits)
  moreover have "bst (root t)" using assms(1) by (simp add: treap_wf_def)
  ultimately obtain xs ys where "nodes (root t) = xs @ ys"
    "nodes (root (Put t k (Some v))) = xs @ (k, v, Height v) # ys"
    using Put_nodes [OF _ d, of v] by (metis append_Nil)
  with assms(2) show ?thesis by (simp add: prio_ok_def ball_Un)
qed

lemma prio_ok_Delete:
  assumes "treap_wf t" and "prio_ok t"
  shows "prio_ok (Delete t k)"
proof -
  have "bst (root t)" using assms(1) by (simp add: treap_wf_def)
  then obtain xs zs ys where "nodes (root t) = xs @ zs @ ys" "nodes (root (Delete t k)) = xs @ ys"
    using Delete_nodes [of t k] by metis
  with assms(2) show ?thesis by (simp add: prio_ok_def ball_Un)
qed

lemma New_wf: "treap_wf NewImmutable" "prio_ok NewImmutable"
  by (simp_all add: treap_wf_def prio_ok_def NewImmutable_def newImmutable_def entries_def bst_def)

interpretation tt: ticket_map NewImmutable Get Has Put Delete ImLen entries ticket_wf
proof unfold_locales
  show "ticket_wf NewImmutable" by (simp add: ticket_wf_def New_wf)
  show "entries NewImmutable = []" by (simp add: entries_def NewImmutable_def newImmutable_def)
next
  fix t k v assume "ticket_wf t"
  then have wf: "treap_wf t" and prio: "prio_ok t" by (simp_all add: ticket_wf_def)
  then have "sorted_wrt (<) (map fst (nodes (root t)))" by (simp add: treap_wf_def bst_def)
  then show "sorted_wrt (<) (map fst (entries t))" by (simp add: entries_def)
  show "Get t k = map_of (entries t) k" using wf by (rule Get_map_of)
  show "Has t k \<longleftrightarrow> Get t k \<noteq> None" by (rule Has_Get)
  show "ImLen t = int (length (entries t))" using wf by (simp add: ImLen_def treap_wf_def)
  show "ticket_wf (Delete t k)" using wf prio by (simp add: ticket_wf_def Delete_wf prio_ok_Delete)
  show "Get (Delete t k) = (Get t)(k := None)"
    using wf by (simp add: fun_eq_iff Get_map_of Delete_wf Delete_map_of)
  show "Get (Put t k (Some v)) = (Get t)(k \<mapsto> v)"
    using wf by (simp add: fun_eq_iff Get_map_of Put_wf Put_map_of)
  show "ticket_wf (Put t k (Some v))" if "Get t k = None"
    using wf prio that by (simp add: ticket_wf_def Put_wf prio_ok_Put)
qed

section \<open>Properties\<close>

text \<open>
  C33: \<open>Put\<close> keeps the invariant of the treap (search order, min-heap,
  subtree sizes, count and total size), a later \<open>Get\<close> of the key returns
  the new value and every other key is unaffected; a nil value is a no-op.
\<close>

theorem Put_correct:
  assumes "treap_wf t"
  shows "treap_wf (Put t k (Some v)) \<and>
     (\<forall>k'. Get (Put t k (Some v)) k' = (if k' = k then Some v else Get t k')) \<and>
     ImLen (Put t k (Some v)) = ImLen t + (if Has t k then 0 else 1) \<and>
     Put t k None = t"
proof -
  have wf: "treap_wf (Put t k (Some v))" using assms by (rule Put_wf)
  moreover have "Get (Put t k (Some v)) k' = (if k' = k then Some v else Get t k')" for k'
    using assms wf by (simp add: Get_map_of Put_map_of)
  moreover have "ImLen (Put t k (Some v)) = ImLen t + (if Has t k then 0 else 1)"
    using assms by (auto simp: treap_wf_def entries_def ImLen_def Has_def get_def Put_def newImmutable_def
        get_loop_descend [of _ _ "[]"] split: treapNode.split prod.split)
  ultimately show ?thesis by (simp add: Put_def)
qed

text \<open>The tickets of two blocks, the second one inserted above the first by rotation.\<close>

definition ex_key :: "nat \<Rightarrow> tkey" where
  "ex_key n = replicate 31 0 @ [word_of_nat n]"

definition ex_value :: "nat \<Rightarrow> tvalue" where
  "ex_value h = \<lparr>Height = word_of_nat h, Missed = False, Revoked = False, Spent = False, Expired = False\<rparr>"

definition ex_treap :: immutable where
  "ex_treap = Put (Put (Put NewImmutable (ex_key 2) (Some (ex_value 20)))
                (ex_key 1) (Some (ex_value 30))) (ex_key 3) (Some (ex_value 10))"

lemma ex_treap_wf: "treap_wf ex_treap" "ticket_wf ex_treap"
proof -
  have fresh: "Get NewImmutable (ex_key 2) = None"
    "Get (Put NewImmutable (ex_key 2) (Some (ex_value 20))) (ex_key 1) = None"
    "Get (Put (Put NewImmutable (ex_key 2) (Some (ex_value 20))) (ex_key 1) (Some (ex_value 30))) (ex_key 3) = None"
    by code_simp+
  then show "ticket_wf ex_treap" unfolding ex_treap_def by (intro tt.put_inv tt.inv_empty)
  then show "treap_wf ex_treap" by (simp add: ticket_wf_def)
qed

lemma ex_treap_entries:
  "entries ex_treap = [(ex_key 1, ex_value 30), (ex_key 2, ex_value 20), (ex_key 3, ex_value 10)]"
  by code_simp

theorem Put_correct_witness:
  "Get (Put ex_treap (ex_key 2) (Some (ex_value 25))) (ex_key 2) = Some (ex_value 25) \<and>
   ImLen (Put ex_treap (ex_key 2) (Some (ex_value 25))) = ImLen ex_treap + (if Has ex_treap (ex_key 2) then 0 else 1)"
  using Put_correct [OF ex_treap_wf(1), of "ex_key 2" "ex_value 25"] by simp

text \<open>
  C34: \<open>Delete\<close> keeps the invariant, removes exactly the key, and returns
  the treap unchanged when the key is absent.
\<close>

theorem Delete_correct:
  assumes "treap_wf t"
  shows "treap_wf (Delete t k) \<and>
     (\<forall>k'. Get (Delete t k) k' = (if k' = k then None else Get t k')) \<and>
     ImLen (Delete t k) = ImLen t - (if Has t k then 1 else 0) \<and>
     (\<not> Has t k \<longrightarrow> Delete t k = t)"
proof -
  have wf: "treap_wf (Delete t k)" using assms by (rule Delete_wf)
  moreover have "Get (Delete t k) k' = (if k' = k then None else Get t k')" for k'
    using assms wf by (simp add: Get_map_of Delete_map_of)
  moreover have "\<not> Has t k \<longrightarrow> Delete t k = t"
    by (auto simp: Has_def get_def Delete_def get_loop_descend [of _ _ "[]"]
        split: treapNode.split prod.split)
  moreover have "ImLen (Delete t k) = ImLen t - (if Has t k then 1 else 0)"
  proof -
    obtain fs n where d: "descend k (root t) [] = (fs, n)" by fastforce
    have "length (nodes (root t)) = length (nodes (plug fs n))" using plug_descend [OF d] by simp
    with d assms show ?thesis
      by (cases n) (auto simp: treap_wf_def entries_def ImLen_def Has_def get_def Delete_def
          newImmutable_def get_loop_descend [of _ _ "[]"])
  qed
  ultimately show ?thesis by simp
qed

theorem Delete_correct_witness:
  "Get (Delete ex_treap (ex_key 3)) (ex_key 3) = None \<and>
   Get (Delete ex_treap (ex_key 3)) (ex_key 1) = Some (ex_value 30)"
  using Delete_correct [OF ex_treap_wf(1), of "ex_key 3"]
  by (simp add: Get_map_of [OF ex_treap_wf(1)] ex_treap_entries ex_key_def)

text \<open>
  C35: \<open>GetByIndex\<close> returns the entry at the index in key order for every
  index in range, and panics for every other one.
\<close>

theorem GetByIndex_correct:
  assumes "treap_wf t" and "length (entries t) < 2 ^ 32"
  shows "if 0 \<le> idx \<and> idx < ImLen t then GetByIndex t idx = Inr (entries t ! nat idx)
         else \<exists>e. GetByIndex t idx = Inl e"
proof (cases "0 \<le> idx \<and> idx < ImLen t")
  case True
  with getByIndex_in_range [OF assms] show ?thesis by simp
next
  case out: False
  have sz: "sized (root t)" and lt: "length (nodes (root t)) < 2 ^ 32"
    and cnt: "ImLen t = int (length (nodes (root t)))"
    using assms by (simp_all add: treap_wf_def entries_def ImLen_def)
  then have s: "uint (childSize (root t)) = ImLen t" by (simp add: uint_childSize)
  have "\<exists>e. GetByIndex t idx = Inl e"
  proof (cases "idx = ImLen t")
    case True
    with getByIndex_loop_end [OF sz lt] cnt s show ?thesis
      by (cases "root t") (simp_all add: GetByIndex_def)
  next
    case False
    with out s cnt show ?thesis by (cases "root t") (auto simp: GetByIndex_def)
  qed
  with out show ?thesis by auto
qed

theorem GetByIndex_correct_witness:
  "0 \<le> (2::int) \<and> 2 < ImLen ex_treap \<and> GetByIndex ex_treap 2 = Inr (ex_key 3, ex_value 10)"
proof -
  have "length (entries ex_treap) < 2 ^ 32" by (simp add: ex_treap_entries)
  from GetByIndex_correct [OF ex_treap_wf(1) this, of 2] show ?thesis
    using ex_treap_wf(2) by (simp add: ex_treap_entries tt.len_elems)
qed

text \<open>
  \<open>ForEach\<close> visits all entries in ascending key order, and
  \<open>ForEachByHeight\<close> visits, in the same order, exactly the tickets below
  the height, although it cuts off every subtree whose root is not below it.
\<close>

theorem ForEachByHeight_correct:
  assumes "ticket_wf t"
  shows "ForEach t fn st = fold_while fn (entries t) st \<and>
     ForEachByHeight t h fn st = fold_while fn (filter (\<lambda>(k, v). Height v < h) (entries t)) st \<and>
     sorted_wrt (<) (map fst (entries t))"
  using tt.elems_sorted [OF assms] by (simp add: ForEach_fold ForEachByHeight_fold [OF assms])

theorem ForEachByHeight_correct_witness:
  "ForEachByHeight ex_treap 25 (\<lambda>k v acc. (acc @ [k], True)) [] = [ex_key 2, ex_key 3]"
  using ForEachByHeight_correct [OF ex_treap_wf(2), of "\<lambda>k v acc. (acc @ [k], True)" "[]" 25]
  by (simp add: ex_treap_entries ex_value_def)

end
