(* ===== verification/Lottery.thy ===== *)
theory Lottery
  imports TicketTreap
begin

text \<open>
  The ticket lottery of \<open>blockchain/stake/lottery.go\<close>: the hash-based
  pseudorandom generator, the draw without modulo bias, the selection of
  distinct ticket indexes and of the winning tickets.

  The hash function \<open>chainhash.HashH\<close> (vendored BLAKE-256) is the
  parameter \<open>H\<close>.  The two drawing loops have no bound in the code, so they
  are partial functions: \<open>None\<close> is a loop that never ends, and the
  theorems say under which condition on the outputs of the generator they
  return.
\<close>

unbundle bit_operations_syntax

section \<open>The generator\<close>

record Hash256PRNG =
  seed :: hash
  hashIdx :: nat
  idx :: uint64
  lastHash :: hash

definition seedConst :: "byte list" where
  "seedConst = [0x24, 0x3F, 0x6A, 0x88, 0x85, 0xA3, 0x08, 0xD3]"

definition CalcHash256PRNGIV :: "(byte list \<Rightarrow> hash) \<Rightarrow> byte list \<Rightarrow> hash" where
  "CalcHash256PRNGIV H sd = H (sd @ seedConst)"

definition NewHash256PRNGFromIV :: "hash \<Rightarrow> Hash256PRNG" where
  "NewHash256PRNGFromIV iv = \<lparr>seed = iv, hashIdx = 0, idx = 0, lastHash = iv\<rparr>"

definition NewHash256PRNG :: "(byte list \<Rightarrow> hash) \<Rightarrow> byte list \<Rightarrow> Hash256PRNG" where
  "NewHash256PRNG H sd = NewHash256PRNGFromIV (CalcHash256PRNGIV H sd)"

definition StateHash :: "(byte list \<Rightarrow> hash) \<Rightarrow> Hash256PRNG \<Rightarrow> hash" where
  "StateHash H hp =
     H (lastHash hp @ be_bytes 4 (unat (ucast (idx hp) :: uint32)) @ [word_of_nat (hashIdx hp)])"

text \<open>
  One output: the four bytes at the current position, then the two roll-overs.
  The slice is in range because \<open>hashIdx\<close> stays below 8 (\<open>prng_ok\<close>).
\<close>

definition Hash256Rand :: "(byte list \<Rightarrow> hash) \<Rightarrow> Hash256PRNG \<Rightarrow> uint32 \<times> Hash256PRNG" where
  "Hash256Rand H hp =
     (let r = word_of_nat (of_be_bytes (take 4 (drop (hashIdx hp * 4) (lastHash hp))));
          hp1 = hp\<lparr>hashIdx := hashIdx hp + 1\<rparr>;
          hp2 = (if hashIdx hp1 > 7
                 then hp1\<lparr>lastHash := H (seed hp1 @ be_bytes 4 (unat (ucast (idx hp1) :: uint32))),
                          idx := idx hp1 + 1, hashIdx := 0\<rparr>
                 else hp1);
          hp3 = (if idx hp2 > 0xFFFFFFFF
                 then hp2\<lparr>seed := H (seed hp2), lastHash := H (seed hp2), idx := 0\<rparr>
                 else hp2)
      in (r, hp3))"

section \<open>Draws\<close>

definition uniform_min :: "uint32 \<Rightarrow> uint32" where
  "uniform_min upperBound =
     (if upperBound > 0x80000000 then 1 + NOT upperBound
      else ((0xFFFFFFFF - (upperBound * 2)) + 1) mod upperBound)"

partial_function (option) rand_loop ::
  "(byte list \<Rightarrow> hash) \<Rightarrow> uint32 \<Rightarrow> Hash256PRNG \<Rightarrow> (uint32 \<times> Hash256PRNG) option" where
  "rand_loop H m hp =
     (if fst (Hash256Rand H hp) \<ge> m then Some (Hash256Rand H hp)
      else rand_loop H m (snd (Hash256Rand H hp)))"

definition uniformRandom ::
  "(byte list \<Rightarrow> hash) \<Rightarrow> uint32 \<Rightarrow> Hash256PRNG \<Rightarrow> (uint32 \<times> Hash256PRNG) option" where
  "uniformRandom H upperBound hp =
     (if upperBound < 2 then Some (0, hp)
      else map_option (\<lambda>(r, hp'). (r mod upperBound, hp')) (rand_loop H (uniform_min upperBound) hp))"

section \<open>Winners\<close>

datatype lottery_error =
  ListTooSmall | ListTooBig | EmptyIdxs | EmptyTreap | IdxOutOfBounds | LotteryPanic treap_panic

definition intInSlice :: "int \<Rightarrow> int list \<Rightarrow> bool" where
  "intInSlice i sl = list_ex (\<lambda>e. i = e) sl"

partial_function (option) idxs_loop ::
  "(byte list \<Rightarrow> hash) \<Rightarrow> uint32 \<Rightarrow> uint16 \<Rightarrow> int list \<Rightarrow> uint16 \<Rightarrow> Hash256PRNG \<Rightarrow>
     (int list \<times> Hash256PRNG) option" where
  "idxs_loop H sz n lst listLen hp =
     (if listLen < n then
        (case uniformRandom H sz hp of
           None \<Rightarrow> None
         | Some (r, hp') \<Rightarrow>
             (if \<not> intInSlice (uint r) lst
              then idxs_loop H sz n (lst @ [uint r]) (listLen + 1) hp'
              else idxs_loop H sz n lst listLen hp'))
      else Some (lst, hp))"

text \<open>
  \<open>findTicketIdxs\<close> mutates the generator, which its callers read afterwards,
  so the result carries it.  A slice that was never appended to is nil.
\<close>

definition slice_of :: "'a list \<Rightarrow> 'a list option" where
  "slice_of xs = (if xs = [] then None else Some xs)"

definition findTicketIdxs ::
  "(byte list \<Rightarrow> hash) \<Rightarrow> int \<Rightarrow> uint16 \<Rightarrow> Hash256PRNG \<Rightarrow>
     (lottery_error + int list option \<times> Hash256PRNG) option" where
  "findTicketIdxs H listSize n prng =
     (if listSize < uint n then Some (Inl ListTooSmall)
      else if listSize > 0xFFFFFFFF then Some (Inl ListTooBig)
      else map_option (\<lambda>(lst, hp). Inr (slice_of lst, hp))
             (idxs_loop H (word_of_int listSize) n [] 0 prng))"

fun winners_loop :: "int list \<Rightarrow> immutable \<Rightarrow> lottery_error + tkey list" where
  "winners_loop [] t = Inr []"
| "winners_loop (i # is) t =
     (if i < 0 \<or> i \<ge> ImLen t then Inl IdxOutOfBounds
      else case GetByIndex t i of
        Inl e \<Rightarrow> Inl (LotteryPanic e)
      | Inr (k, _) \<Rightarrow> bindE (winners_loop is t) (\<lambda>ks. Inr (k # ks)))"

definition fetchWinners :: "int list option \<Rightarrow> immutable \<Rightarrow> lottery_error + tkey list" where
  "fetchWinners idxs t =
     (case idxs of
        None \<Rightarrow> Inl EmptyIdxs
      | Some is \<Rightarrow> if ImLen t = 0 then Inl EmptyTreap else winners_loop is t)"

section \<open>The generator keeps its position in range\<close>

definition prng_ok :: "Hash256PRNG \<Rightarrow> bool" where
  "prng_ok hp \<longleftrightarrow> hashIdx hp < 8 \<and> idx hp \<le> 0xFFFFFFFF \<and> is_hash (seed hp) \<and> is_hash (lastHash hp)"

definition hash_len :: "(byte list \<Rightarrow> hash) \<Rightarrow> bool" where
  "hash_len H \<longleftrightarrow> (\<forall>bs. is_hash (H bs))"

lemma Hash256Rand_ok: "hash_len H \<Longrightarrow> prng_ok hp \<Longrightarrow> prng_ok (snd (Hash256Rand H hp))"
  by (auto simp: prng_ok_def hash_len_def Hash256Rand_def Let_def)

text \<open>The states and the outputs of the generator, and the first output that is accepted.\<close>

fun prng_state :: "(byte list \<Rightarrow> hash) \<Rightarrow> Hash256PRNG \<Rightarrow> nat \<Rightarrow> Hash256PRNG" where
  "prng_state H hp 0 = hp"
| "prng_state H hp (Suc k) = prng_state H (snd (Hash256Rand H hp)) k"

definition prng_out :: "(byte list \<Rightarrow> hash) \<Rightarrow> Hash256PRNG \<Rightarrow> nat \<Rightarrow> uint32" where
  "prng_out H hp k = fst (Hash256Rand H (prng_state H hp k))"

lemma prng_state_add: "prng_state H hp (j + k) = prng_state H (prng_state H hp j) k"
  by (induction j arbitrary: hp) auto

lemma prng_out_0 [simp]: "prng_out H hp 0 = fst (Hash256Rand H hp)"
  by (simp add: prng_out_def)

lemma prng_out_Suc [simp]: "prng_out H hp (Suc k) = prng_out H (snd (Hash256Rand H hp)) k"
  by (simp add: prng_out_def)

lemma prng_out_state: "prng_out H (prng_state H hp j) k = prng_out H hp (j + k)"
  by (simp add: prng_out_def prng_state_add)

section \<open>The rejection threshold\<close>

lemma uniform_min_nat:
  assumes "2 \<le> ub"
  shows "unat (uniform_min ub) = 2 ^ 32 mod unat ub"
proof (cases "ub > 0x80000000")
  case True
  have neg: "1 + NOT ub = - ub" by (simp add: minus_eq_not_plus_1)
  have lt: "unat ub < 2 ^ 32" using unsigned_less [of ub] by simp
  have gt: "(2::nat) ^ 31 < unat ub" using True by (simp add: word_less_nat_alt)
  have "unat (- ub) = 2 ^ 32 - unat ub"
    using assms unat_uminus [of ub] by (cases "ub = 0") auto
  moreover have "(2::nat) ^ 32 mod unat ub = 2 ^ 32 - unat ub"
    using gt lt by (simp add: mod_if [of "2 ^ 32" "unat ub"] le_mod_geq)
  ultimately show ?thesis using True neg by (simp add: uniform_min_def)
next
  case False
  then have le: "unat ub \<le> 2 ^ 31" by (simp add: word_less_nat_alt)
  have neg: "(0xFFFFFFFF - (ub * 2)) + 1 = - (ub * 2)"
  proof -
    have "(0xFFFFFFFF :: uint32) = - 1" by simp
    then show ?thesis by (simp only:) simp
  qed
  have "unat (- (ub * 2)) mod unat ub = 2 ^ 32 mod unat ub"
  proof (cases "unat ub = 2 ^ 31")
    case True
    then have "unat (ub * 2) = 0" by (simp add: unat_word_ariths)
    then have "ub * 2 = 0" by (simp add: unsigned_eq_0_iff)
    with True show ?thesis by simp
  next
    case False
    with le have "unat (ub * 2) = 2 * unat ub" by (simp add: unat_word_ariths)
    moreover from this assms have "ub * 2 \<noteq> 0" by (auto simp: word_le_nat_alt)
    ultimately have "unat (- (ub * 2)) = 2 ^ 32 - 2 * unat ub"
      by (simp add: unat_uminus)
    moreover have "2 ^ 32 = (2 ^ 32 - 2 * unat ub) + 2 * unat ub" using le by simp
    ultimately show ?thesis by (metis mod_mult_self1 mult.commute)
  qed
  moreover have "uniform_min ub = - (ub * 2) mod ub"
    using False by (simp only: uniform_min_def neg if_False)
  ultimately show ?thesis by (simp only: unat_mod_distrib)
qed

lemma count_residues:
  fixes q x m j :: nat
  assumes "m < x" and "j < x"
  shows "card {n. m \<le> n \<and> n < q * x + m \<and> n mod x = j} = q"
proof -
  define d where "d = (j + (x - m)) mod x"
  have d: "d < x" using assms by (simp add: d_def)
  have md: "(m + d) mod x = j"
    using assms by (simp add: d_def mod_add_right_eq)
  let ?f = "\<lambda>i. m + d + i * x"
  have "{n. m \<le> n \<and> n < q * x + m \<and> n mod x = j} = ?f ` {..<q}"
  proof (intro set_eqI iffI)
    fix n assume "n \<in> {n. m \<le> n \<and> n < q * x + m \<and> n mod x = j}"
    then have n: "m \<le> n" "n < q * x + m" "n mod x = j" by auto
    have "(n - m) mod x = (n + (x - m)) mod x" using n(1) assms(1) by (simp flip: mod_add_self2 [of "n - m" x])
    then have "(n - m) mod x = d" using n(3) by (simp add: d_def mod_add_left_eq flip: n(3))
    then have "n - m = d + (n - m) div x * x" by (metis add.commute div_mult_mod_eq)
    moreover have "(n - m) div x < q" using n assms by (simp add: div_less_iff_less_mult)
    ultimately show "n \<in> ?f ` {..<q}" using n(1) by (auto intro!: image_eqI [of _ _ "(n - m) div x"])
  next
    fix n assume "n \<in> ?f ` {..<q}"
    then obtain i where i: "i < q" "n = ?f i" by auto
    have "Suc i * x \<le> q * x" using i(1) by (intro mult_le_mono1) simp
    then have "n < q * x + m" using d i(2) by simp
    with i md show "n \<in> {n. m \<le> n \<and> n < q * x + m \<and> n mod x = j}" by simp
  qed
  moreover have "inj_on ?f {..<q}" using assms by (auto simp: inj_on_def)
  ultimately show ?thesis by (simp add: card_image)
qed

lemma unat_image_range: "unat ` {r :: uint32. P (unat r)} = {n. n < 2 ^ 32 \<and> P n}"
proof (intro set_eqI iffI)
  fix n assume "n \<in> {n. n < 2 ^ 32 \<and> P n}"
  then show "n \<in> unat ` {r :: uint32. P (unat r)}"
    by (intro image_eqI [of _ _ "word_of_nat n"]) (auto simp: unat_of_nat)
next
  fix n assume "n \<in> unat ` {r :: uint32. P (unat r)}"
  then show "n \<in> {n. n < 2 ^ 32 \<and> P n}" using unsigned_less [where ?'b = 32 and ?'a = nat] by auto
qed

lemma uniform_count:
  assumes "2 \<le> ub" and "j < ub"
  shows "card {r. uniform_min ub \<le> r \<and> r mod ub = j} = 2 ^ 32 div unat ub"
proof -
  let ?x = "unat ub" and ?j = "unat j"
  have x: "0 < ?x" "?j < ?x" using assms by (auto simp: word_le_nat_alt word_less_nat_alt)
  have "{r. uniform_min ub \<le> r \<and> r mod ub = j} =
      {r. 2 ^ 32 mod ?x \<le> unat r \<and> unat r mod ?x = ?j}"
    by (simp add: word_le_nat_alt uniform_min_nat [OF assms(1)] word_unat_eq_iff unat_mod_distrib)
  then have "card {r. uniform_min ub \<le> r \<and> r mod ub = j} =
      card (unat ` {r :: uint32. 2 ^ 32 mod ?x \<le> unat r \<and> unat r mod ?x = ?j})"
    by (simp only:) (rule card_image [symmetric], simp add: inj_on_def word_unat_eq_iff)
  also have "\<dots> = card {n. 2 ^ 32 mod ?x \<le> n \<and> n < 2 ^ 32 div ?x * ?x + 2 ^ 32 mod ?x \<and> n mod ?x = ?j}"
    unfolding unat_image_range [of "\<lambda>n. 2 ^ 32 mod ?x \<le> n \<and> n mod ?x = ?j"]
    by (simp only: div_mult_mod_eq conj_ac)
  also have "\<dots> = 2 ^ 32 div ?x" using x by (intro count_residues) simp_all
  finally show ?thesis .
qed

section \<open>The loops return\<close>

lemma rand_loop_first:
  "m \<le> prng_out H hp k \<Longrightarrow>
     \<exists>j \<le> k. rand_loop H m hp = Some (prng_out H hp j, prng_state H hp (Suc j)) \<and> m \<le> prng_out H hp j"
proof (induction k arbitrary: hp)
  case 0
  then show ?case by (auto simp: rand_loop.simps [of H m hp])
next
  case (Suc k)
  show ?case
  proof (cases "m \<le> fst (Hash256Rand H hp)")
    case True
    then show ?thesis by (intro exI [of _ 0]) (auto simp: rand_loop.simps [of H m hp])
  next
    case False
    let ?hp = "snd (Hash256Rand H hp)"
    from Suc.prems have "m \<le> prng_out H ?hp k" by simp
    then obtain j where "j \<le> k" "rand_loop H m ?hp = Some (prng_out H ?hp j, prng_state H ?hp (Suc j))"
        "m \<le> prng_out H ?hp j"
      using Suc.IH by blast
    with False show ?thesis
      by (intro exI [of _ "Suc j"]) (auto simp: rand_loop.simps [of H m hp])
  qed
qed

lemma rand_loop_returned:
  assumes "rand_loop H m hp = Some out"
  shows "\<exists>j. out = (prng_out H hp j, prng_state H hp (Suc j)) \<and> m \<le> prng_out H hp j"
proof (rule rand_loop.raw_induct [where P = "\<lambda>H m hp out.
    \<exists>j. out = (prng_out H hp j, prng_state H hp (Suc j)) \<and> m \<le> prng_out H hp j", OF _ assms])
  fix f :: "(byte list \<Rightarrow> hash) \<Rightarrow> uint32 \<Rightarrow> Hash256PRNG \<Rightarrow> (uint32 \<times> Hash256PRNG) option" and H m hp out
  assume IH: "\<And>H m hp out. f H m hp = Some out \<Longrightarrow>
      \<exists>j. out = (prng_out H hp j, prng_state H hp (Suc j)) \<and> m \<le> prng_out H hp j"
    and eq: "(if m \<le> fst (Hash256Rand H hp) then Some (Hash256Rand H hp)
      else f H m (snd (Hash256Rand H hp))) = Some out"
  show "\<exists>j. out = (prng_out H hp j, prng_state H hp (Suc j)) \<and> m \<le> prng_out H hp j"
  proof (cases "m \<le> fst (Hash256Rand H hp)")
    case True
    with eq show ?thesis by (intro exI [of _ 0]) auto
  next
    case False
    with eq have "f H m (snd (Hash256Rand H hp)) = Some out" by simp
    from IH [OF this] obtain j where "out = (prng_out H (snd (Hash256Rand H hp)) j,
        prng_state H (snd (Hash256Rand H hp)) (Suc j))" "m \<le> prng_out H (snd (Hash256Rand H hp)) j"
      by blast
    then show ?thesis by (intro exI [of _ "Suc j"]) simp
  qed
qed

lemma uniformRandom_range:
  assumes "uniformRandom H ub hp = Some (r, hp')" and "0 < ub"
  shows "r < ub"
proof (cases "ub < 2")
  case True
  with assms show ?thesis by (simp add: uniformRandom_def)
next
  case False
  with assms show ?thesis by (auto simp: uniformRandom_def word_mod_less_divisor)
qed

text \<open>
  \<open>draws_all H hp ub\<close>: every value below the bound is drawn again and again.
  It is what a generator that is not stuck provides, and what the selection
  loop needs to end.
\<close>

definition draws_all :: "(byte list \<Rightarrow> hash) \<Rightarrow> Hash256PRNG \<Rightarrow> uint32 \<Rightarrow> bool" where
  "draws_all H hp ub \<longleftrightarrow>
     (\<forall>j < ub. \<forall>k. \<exists>k' \<ge> k. uniform_min ub \<le> prng_out H hp k' \<and> prng_out H hp k' mod ub = j)"

lemma draws_all_state: "draws_all H hp ub \<Longrightarrow> draws_all H (prng_state H hp i) ub"
  unfolding draws_all_def prng_out_state
proof (intro allI impI)
  fix j k assume all: "\<forall>j < ub. \<forall>k. \<exists>k' \<ge> k. uniform_min ub \<le> prng_out H hp k' \<and> prng_out H hp k' mod ub = j"
    and "j < ub"
  then obtain k' where "i + k \<le> k'" "uniform_min ub \<le> prng_out H hp k'" "prng_out H hp k' mod ub = j"
    by blast
  then show "\<exists>k' \<ge> k. uniform_min ub \<le> prng_out H hp (i + k') \<and> prng_out H hp (i + k') mod ub = j"
    by (intro exI [of _ "k' - i"]) auto
qed

text \<open>The loop state that every iteration keeps.\<close>

definition idxs_inv :: "uint32 \<Rightarrow> uint16 \<Rightarrow> int list \<Rightarrow> uint16 \<Rightarrow> bool" where
  "idxs_inv sz n lst listLen \<longleftrightarrow>
     distinct lst \<and> (\<forall>i \<in> set lst. 0 \<le> i \<and> i < uint sz) \<and>
     uint listLen = int (length lst) \<and> listLen \<le> n \<and> uint n \<le> uint sz"

lemma intInSlice_set [simp]: "intInSlice i sl \<longleftrightarrow> i \<in> set sl"
  by (auto simp: intInSlice_def list_ex_iff)

lemma uint_succ16:
  assumes "(a :: uint16) < b"
  shows "uint (a + 1) = uint a + 1" and "a + 1 \<le> b" and "unat (a + 1) = unat a + 1"
proof -
  have "unat a < unat b" "unat b < 2 ^ 16" using assms unsigned_less [of b] by (simp_all add: word_less_nat_alt)
  then show "unat (a + 1) = unat a + 1" by (simp add: unat_word_ariths)
  then have "int (unat (a + 1)) = int (unat a) + 1" and "unat (a + 1) \<le> unat b"
    using \<open>unat a < unat b\<close> by simp_all
  then show "uint (a + 1) = uint a + 1" "a + 1 \<le> b"
    by (simp_all only: word_le_nat_alt of_nat_unat)
qed

lemma idxs_inv_add:
  assumes "idxs_inv sz n lst listLen" and "listLen < n" and "r < sz" and "uint r \<notin> set lst"
  shows "idxs_inv sz n (lst @ [uint r]) (listLen + 1)"
  using assms uint_succ16 [OF assms(2)] by (auto simp: idxs_inv_def word_less_def)

lemma idxs_inv_pos: "idxs_inv sz n lst listLen \<Longrightarrow> listLen < n \<Longrightarrow> 0 < sz"
  using uint_ge_0 [of listLen] by (auto simp: idxs_inv_def word_less_def)

lemma idxs_loop_returned:
  assumes "idxs_loop H sz n lst listLen hp = Some (out, hp')" and "idxs_inv sz n lst listLen"
  shows "idxs_inv sz n out n"
proof -
  have "\<forall>out hp'. res = (out, hp') \<longrightarrow> idxs_inv sz n lst listLen \<longrightarrow> idxs_inv sz n out n"
    if "idxs_loop H sz n lst listLen hp = Some res" for res
  proof (rule idxs_loop.raw_induct [where P = "\<lambda>H sz n lst listLen hp res. \<forall>out hp'. res = (out, hp') \<longrightarrow>
      idxs_inv sz n lst listLen \<longrightarrow> idxs_inv sz n out n", OF _ that])
    fix f :: "(byte list \<Rightarrow> hash) \<Rightarrow> uint32 \<Rightarrow> uint16 \<Rightarrow> int list \<Rightarrow> uint16 \<Rightarrow> Hash256PRNG \<Rightarrow>
        (int list \<times> Hash256PRNG) option" and H sz n lst listLen hp res
    assume IH: "\<And>H sz n lst listLen hp res. f H sz n lst listLen hp = Some res \<Longrightarrow>
        \<forall>out hp'. res = (out, hp') \<longrightarrow> idxs_inv sz n lst listLen \<longrightarrow> idxs_inv sz n out n"
      and eq: "(if listLen < n then (case uniformRandom H sz hp of None \<Rightarrow> None
         | Some (r, hp') \<Rightarrow> (if \<not> intInSlice (uint r) lst
              then f H sz n (lst @ [uint r]) (listLen + 1) hp' else f H sz n lst listLen hp'))
         else Some (lst, hp)) = Some res"
    show "\<forall>out hp'. res = (out, hp') \<longrightarrow> idxs_inv sz n lst listLen \<longrightarrow> idxs_inv sz n out n"
    proof (intro allI impI)
      fix out hp' assume res: "res = (out, hp')" and inv: "idxs_inv sz n lst listLen"
      show "idxs_inv sz n out n"
      proof (cases "listLen < n")
        case True
        with eq obtain r hp1 where u: "uniformRandom H sz hp = Some (r, hp1)"
          by (auto split: option.splits)
        have "r < sz" using uniformRandom_range [OF u] idxs_inv_pos [OF inv True] .
        show ?thesis
        proof (cases "uint r \<in> set lst")
          case old: True
          with eq True u have "f H sz n lst listLen hp1 = Some res" by simp
          from IH [OF this] res inv show ?thesis by blast
        next
          case new: False
          with eq True u have "f H sz n (lst @ [uint r]) (listLen + 1) hp1 = Some res" by simp
          from IH [OF this] res idxs_inv_add [OF inv True \<open>r < sz\<close> new] show ?thesis by blast
        qed
      next
        case False
        with inv have "listLen = n" by (simp add: idxs_inv_def)
        with False eq res inv show ?thesis by simp
      qed
    qed
  qed
  with assms show ?thesis by blast
qed

lemma missing_index:
  assumes "idxs_inv sz n lst listLen" and "listLen < n"
  shows "\<exists>j < sz. uint j \<notin> set lst"
proof (rule ccontr)
  assume "\<not> (\<exists>j < sz. uint j \<notin> set lst)"
  then have all: "uint j \<in> set lst" if "j < sz" for j using that by blast
  have "{0..<uint sz} \<subseteq> set lst"
  proof
    fix i assume i: "i \<in> {0..<uint sz}"
    then have "uint (word_of_int i :: uint32) = i"
      using unsigned_less [of sz, where ?'a = int] by (simp add: take_bit_int_eq_self unsigned_of_int)
    with all [of "word_of_int i"] i show "i \<in> set lst" by (simp add: word_less_def)
  qed
  then have "card {0..<uint sz} \<le> card (set lst)" by (intro card_mono) auto
  then have "unat sz \<le> length lst" using card_length [of lst] by simp
  then have "int (unat sz) \<le> int (length lst)" by (rule zle_int [THEN iffD2])
  with assms show False by (auto simp: idxs_inv_def word_less_def)
qed

lemma idxs_loop_step:
  assumes "listLen < n" and "uniformRandom H sz hp = Some (r, hp')"
  shows "idxs_loop H sz n lst listLen hp =
     (if uint r \<in> set lst then idxs_loop H sz n lst listLen hp'
      else idxs_loop H sz n (lst @ [uint r]) (listLen + 1) hp')"
  using assms by (simp add: idxs_loop.simps [of H sz n lst listLen hp])

lemma idxs_loop_total:
  assumes "idxs_inv sz n lst listLen" and "draws_all H hp sz"
  shows "\<exists>res. idxs_loop H sz n lst listLen hp = Some res"
  using assms
proof (induction "unat n - unat listLen" arbitrary: lst listLen hp rule: less_induct)
  case outer: less
  note inv = outer.prems(1)
  show ?case
  proof (cases "listLen < n")
    case False
    then show ?thesis by (simp add: idxs_loop.simps [of H sz n lst listLen hp])
  next
    case lt: True
    have smaller: "unat n - unat (listLen + 1) < unat n - unat listLen"
      using lt by (simp add: uint_succ16(3) [OF lt] word_less_nat_alt)
    have more: "\<exists>res. idxs_loop H sz n (lst @ [uint r]) (listLen + 1) hp' = Some res"
      if "r < sz" "uint r \<notin> set lst" "draws_all H hp' sz" for r hp'
      using outer.hyps [OF smaller idxs_inv_add [OF inv lt that(1,2)] that(3)] .
    obtain j where j: "j < sz" "uint j \<notin> set lst" using missing_index [OF inv lt] by blast
    show ?thesis
    proof (cases "sz < 2")
      case True
      with j(1) have "sz = 1" "j = 0" by (auto simp: word_less_nat_alt word_unat_eq_iff)
      then have u: "uniformRandom H sz hp = Some (0, hp)" by (simp add: uniformRandom_def)
      have "\<exists>res. idxs_loop H sz n (lst @ [uint j]) (listLen + 1) hp = Some res"
        using j outer.prems(2) by (rule more)
      with j \<open>j = 0\<close> show ?thesis by (simp add: idxs_loop_step [OF lt u])
    next
      case ge: False
      have "\<exists>res. idxs_loop H sz n lst listLen hp = Some res"
        if "draws_all H hp sz" "uniform_min sz \<le> prng_out H hp k" "prng_out H hp k mod sz = j" for k hp
        using that
      proof (induction k arbitrary: hp rule: less_induct)
        case (less k)
        obtain i where i: "i \<le> k"
            "rand_loop H (uniform_min sz) hp = Some (prng_out H hp i, prng_state H hp (Suc i))"
          using rand_loop_first [OF less.prems(2)] by blast
        let ?r = "prng_out H hp i mod sz" and ?hp = "prng_state H hp (Suc i)"
        have u: "uniformRandom H sz hp = Some (?r, ?hp)"
          using ge i(2) by (simp add: uniformRandom_def)
        have r: "?r < sz" using j(1) by (intro word_mod_less_divisor) (auto intro: le_less_trans)
        have d: "draws_all H ?hp sz" using less.prems(1) by (rule draws_all_state)
        show ?case
        proof (cases "uint ?r \<in> set lst")
          case True
          with j(2) less.prems(3) i(1) have "i < k" by (cases "i = k") auto
          then have k: "k - Suc i < k" "Suc i + (k - Suc i) = k" by auto
          have "prng_out H ?hp (k - Suc i) = prng_out H hp k"
            using prng_out_state [of H hp "Suc i" "k - Suc i"] k(2) by simp
          with less.IH [OF k(1) d] less.prems(2,3) True show ?thesis
            by (simp add: idxs_loop_step [OF lt u])
        next
          case False
          with more [OF r False d] show ?thesis by (simp add: idxs_loop_step [OF lt u])
        qed
      qed
      moreover obtain k where "uniform_min sz \<le> prng_out H hp k" "prng_out H hp k mod sz = j"
        using outer.prems(2) j(1) unfolding draws_all_def by blast
      ultimately show ?thesis using outer.prems(2) by blast
    qed
  qed
qed

lemma winners_loop_nth:
  assumes "treap_wf t" and "length (entries t) < 2 ^ 32"
    and "\<forall>i \<in> set is. 0 \<le> i \<and> i < ImLen t"
  shows "winners_loop is t = Inr (map (\<lambda>i. fst (entries t ! nat i)) is)"
  using assms(3)
proof (induction "is")
  case (Cons i "is")
  have "GetByIndex t i = Inr (entries t ! nat i)"
    using getByIndex_in_range [OF assms(1,2)] Cons.prems by simp
  with Cons show ?case by (auto simp: prod.case_eq_if)
qed simp

section \<open>Properties\<close>

text \<open>
  C36: the draw has no modulo bias: for a bound of at least 2, each value below
  the bound is the residue of exactly \<open>2 ^ 32 div upperBound\<close> of the
  accepted outputs, and the threshold is below the bound.
\<close>

theorem uniform_unbiased:
  assumes "2 \<le> upperBound" and "j < upperBound"
  shows "card {r. uniform_min upperBound \<le> r \<and> r mod upperBound = j} = 2 ^ 32 div unat upperBound \<and>
     unat (uniform_min upperBound) = 2 ^ 32 mod unat upperBound \<and> uniform_min upperBound < upperBound"
proof -
  have "unat (uniform_min upperBound) < unat upperBound"
    using assms(1) by (simp add: uniform_min_nat word_le_nat_alt)
  then show ?thesis
    using uniform_count [OF assms] uniform_min_nat [OF assms(1)] by (simp add: word_less_nat_alt)
qed

theorem uniform_unbiased_witness:
  "card {r. uniform_min 3 \<le> r \<and> r mod 3 = 1} = 2 ^ 32 div unat (3 :: uint32) \<and>
   unat (uniform_min 3) = 2 ^ 32 mod unat (3 :: uint32) \<and> uniform_min 3 < 3"
  by (rule uniform_unbiased) simp_all

text \<open>
  A concrete generator: the hash is constant, and its eight words are 0 to 7,
  so the outputs run through them in a cycle.
\<close>

definition ex_hash :: hash where
  "ex_hash = concat (map (be_bytes 4) [0, 1, 2, 3, 4, 5, 6, 7])"

definition ex_H :: "byte list \<Rightarrow> hash" where
  "ex_H bs = ex_hash"

lemma ex_hash_word: "k < 8 \<Longrightarrow> word_of_nat (of_be_bytes (take 4 (drop (k * 4) ex_hash))) = (word_of_nat k :: uint32)"
proof -
  have "\<forall>k \<in> {..<8}. word_of_nat (of_be_bytes (take 4 (drop (k * 4) ex_hash))) = (word_of_nat k :: uint32)"
    by code_simp
  then show "k < 8 \<Longrightarrow> ?thesis" by simp
qed

lemma ex_H_rand:
  assumes "lastHash hp = ex_hash" and "seed hp = ex_hash" and "hashIdx hp < 8"
  shows "fst (Hash256Rand ex_H hp) = word_of_nat (hashIdx hp)"
    and "lastHash (snd (Hash256Rand ex_H hp)) = ex_hash" and "seed (snd (Hash256Rand ex_H hp)) = ex_hash"
    and "hashIdx (snd (Hash256Rand ex_H hp)) = Suc (hashIdx hp) mod 8"
  using assms ex_hash_word [OF assms(3)] by (auto simp: Hash256Rand_def Let_def ex_H_def mod_Suc)

lemma ex_H_out:
  "lastHash hp = ex_hash \<Longrightarrow> seed hp = ex_hash \<Longrightarrow> hashIdx hp < 8 \<Longrightarrow>
     prng_out ex_H hp k = word_of_nat ((hashIdx hp + k) mod 8)"
proof (induction k arbitrary: hp)
  case (Suc k)
  with ex_H_rand [OF Suc.prems] Suc.IH [of "snd (Hash256Rand ex_H hp)"] show ?case
    by (simp add: mod_add_left_eq)
qed (simp add: ex_H_rand)

definition ex_prng :: Hash256PRNG where
  "ex_prng = NewHash256PRNGFromIV ex_hash"

lemma ex_prng_out: "prng_out ex_H ex_prng k = word_of_nat (k mod 8)"
  using ex_H_out [of ex_prng k] by (simp add: ex_prng_def NewHash256PRNGFromIV_def)

lemma ex_draws_all: "draws_all ex_H ex_prng 2"
  unfolding draws_all_def
proof (intro allI impI)
  fix j :: uint32 and k assume "j < 2"
  then have j: "unat j < 2" by (simp add: word_less_nat_alt)
  then have out: "prng_out ex_H ex_prng (8 * k + unat j) = j" by (simp add: ex_prng_out)
  have min: "uniform_min 2 = 0" by (simp add: uniform_min_def)
  have "unat (j mod 2) = unat j" using j by (simp add: unat_mod_distrib)
  then have md: "j mod 2 = j" by (simp only: word_unat_eq_iff)
  show "\<exists>k' \<ge> k. uniform_min 2 \<le> prng_out ex_H ex_prng k' \<and> prng_out ex_H ex_prng k' mod 2 = j"
    by (rule exI [of _ "8 * k + unat j"]) (simp only: out min md, simp)
qed

text \<open>
  C37: \<open>uniformRandom\<close> returns exactly when the generator produces an accepted
  output, and then the result is below the bound and is the residue of such an
  output.
\<close>

theorem uniformRandom_returns:
  assumes "2 \<le> upperBound"
  shows "((\<exists>res. uniformRandom H upperBound hp = Some res) \<longleftrightarrow>
       (\<exists>k. uniform_min upperBound \<le> prng_out H hp k)) \<and>
     (\<forall>r hp'. uniformRandom H upperBound hp = Some (r, hp') \<longrightarrow>
       r < upperBound \<and> (\<exists>k. uniform_min upperBound \<le> prng_out H hp k \<and>
         r = prng_out H hp k mod upperBound \<and> hp' = prng_state H hp (Suc k)))"
proof (intro conjI iffI allI impI)
  have ge: "\<not> upperBound < 2" using assms by simp
  have unfold: "uniformRandom H upperBound hp =
      map_option (\<lambda>(r, hp'). (r mod upperBound, hp')) (rand_loop H (uniform_min upperBound) hp)"
    using ge by (simp add: uniformRandom_def)
  show "\<exists>k. uniform_min upperBound \<le> prng_out H hp k"
    if "\<exists>res. uniformRandom H upperBound hp = Some res"
  proof -
    from that obtain out where "rand_loop H (uniform_min upperBound) hp = Some out"
      unfolding unfold by blast
    from rand_loop_returned [OF this] show ?thesis by blast
  qed
  show "\<exists>res. uniformRandom H upperBound hp = Some res"
    if "\<exists>k. uniform_min upperBound \<le> prng_out H hp k"
  proof -
    from that obtain k where "uniform_min upperBound \<le> prng_out H hp k" by blast
    from rand_loop_first [OF this] obtain out where "rand_loop H (uniform_min upperBound) hp = Some out"
      by blast
    then show ?thesis by (simp add: unfold)
  qed
  fix r hp' assume u: "uniformRandom H upperBound hp = Some (r, hp')"
  have "0 < upperBound" using assms less_le_trans [of 0 2 upperBound] by simp
  with u show "r < upperBound" by (rule uniformRandom_range)
  from u obtain out where out: "rand_loop H (uniform_min upperBound) hp = Some out"
      "r = fst out mod upperBound" "hp' = snd out"
    unfolding unfold by (auto simp: prod.case_eq_if)
  from rand_loop_returned [OF out(1)] obtain k where
    "out = (prng_out H hp k, prng_state H hp (Suc k))" "uniform_min upperBound \<le> prng_out H hp k" by blast
  with out(2,3) show "\<exists>k. uniform_min upperBound \<le> prng_out H hp k \<and>
      r = prng_out H hp k mod upperBound \<and> hp' = prng_state H hp (Suc k)"
    by (intro exI [of _ k]) simp
qed

theorem uniformRandom_returns_witness:
  "\<exists>res. uniformRandom ex_H 5 ex_prng = Some res"
proof -
  have two: "(2 :: uint32) \<le> 5" by simp
  have "uniform_min 5 \<le> prng_out ex_H ex_prng 1" unfolding ex_prng_out by (simp add: uniform_min_def)
  then have "\<exists>k. uniform_min 5 \<le> prng_out ex_H ex_prng k" by (rule exI)
  then show ?thesis by (rule uniformRandom_returns [OF two, THEN conjunct1, THEN iffD2])
qed

lemma idxs_inv_start:
  assumes "listSize \<le> 0xFFFFFFFF" and "uint n \<le> listSize"
  shows "idxs_inv (word_of_int listSize) n [] 0" and "uint (word_of_int listSize :: uint32) = listSize"
proof -
  have "0 \<le> listSize" using assms(2) uint_ge_0 [of n] by linarith
  then show sz: "uint (word_of_int listSize :: uint32) = listSize"
    using assms(1) by (simp add: unsigned_of_int take_bit_int_eq_self)
  with assms(2) show "idxs_inv (word_of_int listSize) n [] 0" by (simp add: idxs_inv_def)
qed

lemma findTicketIdxs_list:
  assumes "listSize \<le> 0xFFFFFFFF" and "uint n \<le> listSize"
    and "findTicketIdxs H listSize n hp = Some (Inr (slice_of lst, hp'))"
  shows "distinct lst \<and> length lst = unat n \<and> (\<forall>i \<in> set lst. 0 \<le> i \<and> i < listSize)"
proof -
  from assms obtain out where out: "idxs_loop H (word_of_int listSize) n [] 0 hp = Some (out, hp')"
      "slice_of out = slice_of lst"
    by (auto simp: findTicketIdxs_def)
  from out(2) have "out = lst" by (auto simp: slice_of_def split: if_splits)
  with out(1) have "idxs_inv (word_of_int listSize) n lst n"
    using idxs_loop_returned idxs_inv_start(1) [OF assms(1,2)] by blast
  then have lst: "distinct lst" "uint n = int (length lst)" "\<forall>i \<in> set lst. 0 \<le> i \<and> i < listSize"
    using idxs_inv_start(2) [OF assms(1,2)] by (auto simp: idxs_inv_def)
  from lst(2) have "unat n = length lst" by (metis nat_int nat_uint_eq)
  with lst show ?thesis by simp
qed

lemma findTicketIdxs_total:
  assumes "listSize \<le> 0xFFFFFFFF" and "uint n \<le> listSize" and "draws_all H hp (word_of_int listSize)"
  shows "\<exists>lst hp'. findTicketIdxs H listSize n hp = Some (Inr (slice_of lst, hp'))"
  using idxs_loop_total [OF idxs_inv_start(1) [OF assms(1,2)] assms(3)] assms
  by (auto simp: findTicketIdxs_def)

text \<open>
  C38: \<open>findTicketIdxs\<close> fails on a pool that is smaller than the number of
  winners; on any other pool of at most \<open>2 ^ 32 - 1\<close> tickets it returns, if
  the generator draws every index again and again, and what it returns are
  \<open>n\<close> distinct indexes of the pool.
\<close>

theorem findTicketIdxs_correct:
  assumes "listSize \<le> 0xFFFFFFFF"
  shows "(listSize < uint n \<longrightarrow> findTicketIdxs H listSize n hp = Some (Inl ListTooSmall)) \<and>
     (uint n \<le> listSize \<and> draws_all H hp (word_of_int listSize) \<longrightarrow>
        (\<exists>lst hp'. findTicketIdxs H listSize n hp = Some (Inr (slice_of lst, hp')))) \<and>
     (\<forall>lst hp'. uint n \<le> listSize \<and> findTicketIdxs H listSize n hp = Some (Inr (slice_of lst, hp')) \<longrightarrow>
        distinct lst \<and> length lst = unat n \<and> (\<forall>i \<in> set lst. 0 \<le> i \<and> i < listSize))"
proof (intro conjI impI allI)
  show "findTicketIdxs H listSize n hp = Some (Inl ListTooSmall)" if "listSize < uint n"
    using that by (simp add: findTicketIdxs_def)
  show "\<exists>lst hp'. findTicketIdxs H listSize n hp = Some (Inr (slice_of lst, hp'))"
    if "uint n \<le> listSize \<and> draws_all H hp (word_of_int listSize)"
    using findTicketIdxs_total [OF assms] that by blast
qed (use findTicketIdxs_list [OF assms] in blast)+

theorem findTicketIdxs_correct_witness:
  "\<exists>lst hp'. findTicketIdxs ex_H 2 2 ex_prng = Some (Inr (slice_of lst, hp')) \<and> distinct lst \<and> length lst = 2"
proof -
  note fti = findTicketIdxs_correct [of 2 2 ex_H ex_prng]
  obtain lst hp' where "findTicketIdxs ex_H 2 2 ex_prng = Some (Inr (slice_of lst, hp'))"
    using fti ex_draws_all by auto
  with fti show ?thesis by auto
qed

lemma fetchWinners_selects:
  assumes "ticket_wf t" and "length (entries t) < 2 ^ 32" and "0 < n"
    and "findTicketIdxs H (ImLen t) n hp = Some (Inr (idxs, hp'))"
  shows "\<exists>lst winners. idxs = Some lst \<and> fetchWinners idxs t = Inr winners \<and>
     winners = map (\<lambda>i. fst (entries t ! nat i)) lst \<and>
     length winners = unat n \<and> distinct winners \<and> (\<forall>k \<in> set winners. Has t k)"
proof -
  have wf: "treap_wf t" using assms(1) by (simp add: ticket_wf_def)
  have len: "ImLen t = int (length (entries t))" using assms(1) by (rule tt.len_elems)
  from len assms(2) have bound: "ImLen t \<le> 0xFFFFFFFF" by simp
  have ge: "uint n \<le> ImLen t" using assms(4) by (auto simp: findTicketIdxs_def split: if_splits)
  from assms(4) obtain lst where "idxs = slice_of lst" by (auto simp: findTicketIdxs_def split: if_splits)
  with assms(4) have "findTicketIdxs H (ImLen t) n hp = Some (Inr (slice_of lst, hp'))" by simp
  with findTicketIdxs_list [OF bound ge] have lst: "distinct lst" "length lst = unat n"
      "\<forall>i \<in> set lst. 0 \<le> i \<and> i < ImLen t" by blast+
  have "lst \<noteq> []" using lst(2) assms(3) by (auto simp: word_less_nat_alt)
  then have idxs: "idxs = Some lst" using \<open>idxs = slice_of lst\<close> by (simp add: slice_of_def)
  let ?w = "map (\<lambda>i. fst (entries t ! nat i)) lst"
  from \<open>lst \<noteq> []\<close> lst(3) have "ImLen t \<noteq> 0" by (cases lst) auto
  then have w: "fetchWinners idxs t = Inr ?w"
    using winners_loop_nth [OF wf assms(2) lst(3)] by (simp add: idxs fetchWinners_def)
  have keys: "distinct (map fst (entries t))" using assms(1) by (rule tt.elems_distinct)
  have "inj_on (\<lambda>i. fst (entries t ! nat i)) (set lst)"
  proof (rule inj_onI)
    fix i j assume ij: "i \<in> set lst" "j \<in> set lst" and eq: "fst (entries t ! nat i) = fst (entries t ! nat j)"
    with lst(3) len have b: "nat i < length (entries t)" "nat j < length (entries t)" "0 \<le> i" "0 \<le> j" by auto
    then have "nat i = nat j" using nth_eq_iff_index_eq [OF keys, of "nat i" "nat j"] eq by simp
    with b show "i = j" by simp
  qed
  with lst(1) have "distinct ?w" by (simp add: distinct_map)
  moreover have "Has t k" if "k \<in> set ?w" for k
  proof -
    from that lst(3) len obtain i where "k = fst (entries t ! i)" "i < length (entries t)" by force
    then have "(k, snd (entries t ! i)) \<in> set (entries t)" by simp
    then have "Get t k = Some (snd (entries t ! i))" using tt.lookup_mem [OF assms(1)] by blast
    then show ?thesis by (simp add: Has_Get)
  qed
  ultimately show ?thesis using idxs w lst(2) by auto
qed

text \<open>
  C39: the indexes that \<open>findTicketIdxs\<close> selects in a pool are turned by
  \<open>fetchWinners\<close> into as many distinct tickets of the pool, in the order of
  the indexes, without an error.
\<close>

theorem fetchWinners_correct:
  assumes "ticket_wf t" and "length (entries t) < 2 ^ 32" and "0 < n"
    and "findTicketIdxs H (ImLen t) n hp = Some (Inr (idxs, hp'))"
  shows "\<exists>lst winners. idxs = Some lst \<and> fetchWinners idxs t = Inr winners \<and>
     winners = map (\<lambda>i. fst (entries t ! nat i)) lst \<and>
     length winners = unat n \<and> distinct winners \<and> (\<forall>k \<in> set winners. Has t k)"
  using assms by (rule fetchWinners_selects)

definition ex_pool :: immutable where
  "ex_pool = Put (Put NewImmutable (ex_key 1) (Some (ex_value 5))) (ex_key 2) (Some (ex_value 6))"

lemma ex_pool_wf: "ticket_wf ex_pool"
proof -
  have "Get NewImmutable (ex_key 1) = None"
    "Get (Put NewImmutable (ex_key 1) (Some (ex_value 5))) (ex_key 2) = None"
    by code_simp+
  then show ?thesis unfolding ex_pool_def by (intro tt.put_inv tt.inv_empty)
qed

lemma ex_pool_entries: "entries ex_pool = [(ex_key 1, ex_value 5), (ex_key 2, ex_value 6)]"
  by code_simp

theorem fetchWinners_correct_witness:
  "\<exists>idxs hp' winners. findTicketIdxs ex_H (ImLen ex_pool) 2 ex_prng = Some (Inr (idxs, hp')) \<and>
     fetchWinners idxs ex_pool = Inr winners \<and> length winners = 2 \<and> distinct winners"
proof -
  have len: "ImLen ex_pool = 2" using tt.len_elems [OF ex_pool_wf] by (simp add: ex_pool_entries)
  obtain lst hp' where f: "findTicketIdxs ex_H (ImLen ex_pool) 2 ex_prng = Some (Inr (slice_of lst, hp'))"
    using findTicketIdxs_total [of 2 2 ex_H ex_prng] ex_draws_all by (auto simp: len)
  have "length (entries ex_pool) < 2 ^ 32" and "0 < (2 :: uint16)" by (simp_all add: ex_pool_entries)
  from fetchWinners_correct [OF ex_pool_wf this f] f show ?thesis by auto
qed

end
