(* ===== verification/ChainParams.thy ===== *)
theory ChainParams
  imports Prelude
begin

text \<open>
  The fields of \<open>chaincfg.Params\<close> (\<open>chaincfg/params.go\<close>) that the modelled
  code reads.  Heights and intervals of type \<open>int64\<close> are integers;
  \<open>uint32\<close> and \<open>uint16\<close> fields keep their width.
\<close>

record Params =
  GenesisHash :: hash
  TicketsPerBlock :: uint16
  TicketExpiry :: uint32
  StakeEnabledHeight :: int
  StakeValidationHeight :: int

text \<open>
  What every network of the code base satisfies: tickets expire after at least
  one block, voting starts after tickets can exist, and both heights fit into
  the 32 bits they are converted to.
\<close>

definition params_ok :: "Params \<Rightarrow> bool" where
  "params_ok p \<longleftrightarrow> 0 < TicketExpiry p \<and> 1 < StakeEnabledHeight p \<and>
     StakeEnabledHeight p \<le> StakeValidationHeight p \<and> StakeValidationHeight p < 2 ^ 32"

end
