(* ===== verification/TicketDB.thy ===== *)
theory TicketDB
  imports TicketTreap "HOL-Library.AList"
begin

text \<open>
  The ticket database of \<open>blockchain/stake/internal/ticketdb/chainio.go\<close>: the
  serialised forms of the database information, the best chain state, the undo
  data and the ticket lists, and the functions that store and fetch them.

  The \<open>database.Tx\<close> the code is given is modelled by its documented
  behaviour (\<open>database/interface.go\<close>): the metadata holds buckets that map
  keys to values, \<open>Get\<close> of a missing key returns nil, \<open>Delete\<close> of one is
  not an error, a bucket that does not exist is nil and using it panics, and
  \<open>ForEach\<close> visits every pair.  The order of the visits is that of the
  association list; no result below depends on it.
\<close>

unbundle bit_operations_syntax

section \<open>Errors and data\<close>

datatype db_error =
    ErrUndoDataShortRead
  | ErrUndoDataCorrupt
  | ErrTicketHashesShortRead
  | ErrTicketHashesCorrupt
  | ErrMissingKey
  | ErrChainStateShortRead
  | ErrDatabaseInfoShortRead
  | ErrLoadAllTickets
  | ErrBucketExists
  | ErrBucketNotFound
  | NilBucket
  | SlicePanic

record DatabaseInfo =
  di_Date :: int
  di_Version :: uint32
  di_UpgradeStarted :: bool

record BestChainState =
  bs_Hash :: hash
  bs_Height :: uint32
  bs_Live :: uint32
  bs_Missed :: uint64
  bs_Revoked :: uint64
  bs_PerBlock :: uint16
  bs_NextWinners :: "hash list"

record UndoTicketData =
  TicketHash :: hash
  TicketHeight :: uint32
  u_Missed :: bool
  u_Revoked :: bool
  u_Spent :: bool
  u_Expired :: bool

section \<open>Database information\<close>

definition upgradeStartedBit :: uint32 where
  "upgradeStartedBit = 0x80000000"

definition currentDatabaseVersion :: uint32 where
  "currentDatabaseVersion = 1"

definition databaseInfoSize :: nat where
  "databaseInfoSize = 8"

text \<open>\<open>di_Date\<close> is the Unix time, which is truncated to 32 bits.\<close>

definition serializeDatabaseInfo :: "DatabaseInfo \<Rightarrow> byte list" where
  "serializeDatabaseInfo dbi =
     (let version = (if di_UpgradeStarted dbi then di_Version dbi OR upgradeStartedBit else di_Version dbi) in
      le_bytes 4 (unat version) @ le_bytes 4 (unat (word_of_int (di_Date dbi) :: uint32)))"

definition deserializeDatabaseInfo :: "byte list \<Rightarrow> db_error + DatabaseInfo" where
  "deserializeDatabaseInfo bs =
     (if length bs < databaseInfoSize then Inl ErrDatabaseInfoShortRead
      else
        let rawVersion = word_of_nat (of_le_bytes (take 4 bs)) :: uint32;
            ts = word_of_nat (of_le_bytes (take 4 (drop 4 bs))) :: uint32
        in Inr \<lparr>di_Date = uint ts, di_Version = rawVersion AND NOT upgradeStartedBit,
                di_UpgradeStarted = (0 < upgradeStartedBit AND rawVersion)\<rparr>)"

section \<open>Best chain state\<close>

definition minimumBestChainStateSize :: nat where
  "minimumBestChainStateSize = HashSize + 4 + 4 + 8 + 8 + 2"

text \<open>
  The buffer has room for \<open>PerBlock\<close> winners; a longer list writes beyond
  its end and panics, a shorter one leaves zero bytes.
\<close>

definition serializeBestChainState :: "BestChainState \<Rightarrow> db_error + byte list" where
  "serializeBestChainState state =
     (if unat (bs_PerBlock state) < length (bs_NextWinners state) then Inl SlicePanic
      else Inr (bs_Hash state @ le_bytes 4 (unat (bs_Height state)) @ le_bytes 4 (unat (bs_Live state)) @
        le_bytes 8 (unat (bs_Missed state)) @ le_bytes 8 (unat (bs_Revoked state)) @
        le_bytes 2 (unat (bs_PerBlock state)) @ concat (bs_NextWinners state) @
        replicate (HashSize * (unat (bs_PerBlock state) - length (bs_NextWinners state))) 0))"

text \<open>The loop over the winners: slicing beyond the end of the data panics.\<close>

fun read_hashes :: "nat \<Rightarrow> byte list \<Rightarrow> db_error + hash list" where
  "read_hashes 0 bs = Inr []"
| "read_hashes (Suc n) bs =
     (if length bs < HashSize then Inl SlicePanic
      else bindE (read_hashes n (drop HashSize bs)) (\<lambda>hs. Inr (take HashSize bs # hs)))"

definition deserializeBestChainState :: "byte list \<Rightarrow> db_error + BestChainState" where
  "deserializeBestChainState bs =
     (if length bs < minimumBestChainStateSize then Inl ErrChainStateShortRead
      else
        let perBlock = word_of_nat (of_le_bytes (take 2 (drop (HashSize + 24) bs))) :: uint16
        in bindE (read_hashes (unat perBlock) (drop minimumBestChainStateSize bs)) (\<lambda>winners.
           Inr \<lparr>bs_Hash = take HashSize bs,
                bs_Height = word_of_nat (of_le_bytes (take 4 (drop HashSize bs))),
                bs_Live = word_of_nat (of_le_bytes (take 4 (drop (HashSize + 4) bs))),
                bs_Missed = word_of_nat (of_le_bytes (take 8 (drop (HashSize + 8) bs))),
                bs_Revoked = word_of_nat (of_le_bytes (take 8 (drop (HashSize + 16) bs))),
                bs_PerBlock = perBlock, bs_NextWinners = winners\<rparr>))"

section \<open>Undo data\<close>

definition undoTicketDataSize :: nat where
  "undoTicketDataSize = 37"

definition undoBitFlagsToByte :: "bool \<Rightarrow> bool \<Rightarrow> bool \<Rightarrow> bool \<Rightarrow> byte" where
  "undoBitFlagsToByte missed revoked spent expired =
     (let b = (0 :: byte);
          b = (if missed then b OR push_bit 0 1 else b);
          b = (if revoked then b OR push_bit 1 1 else b);
          b = (if spent then b OR push_bit 2 1 else b)
      in if expired then b OR push_bit 3 1 else b)"

definition undoBitFlagsFromByte :: "byte \<Rightarrow> bool \<times> bool \<times> bool \<times> bool" where
  "undoBitFlagsFromByte b =
     (0 < b AND push_bit 0 1, 0 < b AND push_bit 1 1, 0 < b AND push_bit 2 1, 0 < b AND push_bit 3 1)"

definition serialize_undo :: "UndoTicketData \<Rightarrow> byte list" where
  "serialize_undo utd = TicketHash utd @ le_bytes 4 (unat (TicketHeight utd)) @
     [undoBitFlagsToByte (u_Missed utd) (u_Revoked utd) (u_Spent utd) (u_Expired utd)]"

definition serializeBlockUndoData :: "UndoTicketData list \<Rightarrow> byte list" where
  "serializeBlockUndoData utds = concat (map serialize_undo utds)"

text \<open>One turn of the loop, on the bytes from \<open>offset\<close> on.\<close>

definition deserialize_undo :: "byte list \<Rightarrow> UndoTicketData" where
  "deserialize_undo bs =
     (let (missed, revoked, spent, expired) = undoBitFlagsFromByte (bs ! (HashSize + 4)) in
      \<lparr>TicketHash = take HashSize bs, TicketHeight = word_of_nat (of_le_bytes (take 4 (drop HashSize bs))),
       u_Missed = missed, u_Revoked = revoked, u_Spent = spent, u_Expired = expired\<rparr>)"

fun deserialize_undos :: "nat \<Rightarrow> byte list \<Rightarrow> UndoTicketData list" where
  "deserialize_undos 0 bs = []"
| "deserialize_undos (Suc n) bs = deserialize_undo bs # deserialize_undos n (drop undoTicketDataSize bs)"

text \<open>\<open>None\<close> is a nil slice.\<close>

definition deserializeBlockUndoData :: "byte list option \<Rightarrow> db_error + UndoTicketData list" where
  "deserializeBlockUndoData b =
     (if b = Some [] then Inr []
      else
        let bs = (case b of None \<Rightarrow> [] | Some bs \<Rightarrow> bs) in
        if length bs < undoTicketDataSize then Inl ErrUndoDataShortRead
        else if length bs mod undoTicketDataSize \<noteq> 0 then Inl ErrUndoDataCorrupt
        else Inr (deserialize_undos (length bs div undoTicketDataSize) bs))"

section \<open>Ticket hashes\<close>

definition serializeTicketHashes :: "hash list \<Rightarrow> byte list" where
  "serializeTicketHashes ths = concat ths"

fun deserialize_hashes :: "nat \<Rightarrow> byte list \<Rightarrow> hash list" where
  "deserialize_hashes 0 bs = []"
| "deserialize_hashes (Suc n) bs = take HashSize bs # deserialize_hashes n (drop HashSize bs)"

definition deserializeTicketHashes :: "byte list option \<Rightarrow> db_error + hash list" where
  "deserializeTicketHashes b =
     (if b = Some [] then Inr []
      else
        let bs = (case b of None \<Rightarrow> [] | Some bs \<Rightarrow> bs) in
        if length bs < HashSize then Inl ErrTicketHashesShortRead
        else if length bs mod HashSize \<noteq> 0 then Inl ErrTicketHashesCorrupt
        else Inr (deserialize_hashes (length bs div HashSize) bs))"

section \<open>Buckets\<close>

type_synonym bucket = "(byte list \<times> byte list) list"

datatype bucket_name =
    StakeDbInfoBucket
  | LiveTicketsBucket
  | MissedTicketsBucket
  | RevokedTicketsBucket
  | StakeBlockUndoDataBucket
  | TicketsInBlockBucket

text \<open>The metadata: its buckets, and the value under \<open>StakeChainStateKeyName\<close>.\<close>

record stakeDB =
  buckets :: "bucket_name \<Rightarrow> bucket option"
  chainState :: "byte list option"

definition with_bucket :: "stakeDB \<Rightarrow> bucket_name \<Rightarrow> db_error + bucket" where
  "with_bucket db name = (case buckets db name of None \<Rightarrow> Inl NilBucket | Some b \<Rightarrow> Inr b)"

definition set_bucket :: "stakeDB \<Rightarrow> bucket_name \<Rightarrow> bucket \<Rightarrow> stakeDB" where
  "set_bucket db name b = db\<lparr>buckets := (buckets db)(name \<mapsto> b)\<rparr>"

definition bucket_put :: "stakeDB \<Rightarrow> bucket_name \<Rightarrow> byte list \<Rightarrow> byte list \<Rightarrow> db_error + stakeDB" where
  "bucket_put db name k v = bindE (with_bucket db name) (\<lambda>b. Inr (set_bucket db name (AList.update k v b)))"

definition bucket_delete :: "stakeDB \<Rightarrow> bucket_name \<Rightarrow> byte list \<Rightarrow> db_error + stakeDB" where
  "bucket_delete db name k = bindE (with_bucket db name) (\<lambda>b. Inr (set_bucket db name (AList.delete k b)))"

definition bucket_get :: "stakeDB \<Rightarrow> bucket_name \<Rightarrow> byte list \<Rightarrow> db_error + byte list option" where
  "bucket_get db name k = bindE (with_bucket db name) (\<lambda>b. Inr (map_of b k))"

definition CreateBucket :: "stakeDB \<Rightarrow> bucket_name \<Rightarrow> db_error + stakeDB" where
  "CreateBucket db name =
     (case buckets db name of None \<Rightarrow> Inr (set_bucket db name []) | Some _ \<Rightarrow> Inl ErrBucketExists)"

definition DeleteBucket :: "stakeDB \<Rightarrow> bucket_name \<Rightarrow> db_error + stakeDB" where
  "DeleteBucket db name =
     (case buckets db name of None \<Rightarrow> Inl ErrBucketNotFound
      | Some _ \<Rightarrow> Inr (db\<lparr>buckets := (buckets db)(name := None)\<rparr>))"

section \<open>Storing and fetching\<close>

text \<open>The bytes of \<open>"stakedbinfo"\<close>, the key of the only entry of that bucket.\<close>

definition StakeDbInfoKey :: "byte list" where
  "StakeDbInfoKey = map (\<lambda>c. word_of_nat (of_char c)) ''stakedbinfo''"

definition DbPutDatabaseInfo :: "stakeDB \<Rightarrow> DatabaseInfo \<Rightarrow> db_error + stakeDB" where
  "DbPutDatabaseInfo db dbi = bucket_put db StakeDbInfoBucket StakeDbInfoKey (serializeDatabaseInfo dbi)"

text \<open>A missing bucket is the uninitialised state, a nil result without an error.\<close>

definition DbFetchDatabaseInfo :: "stakeDB \<Rightarrow> db_error + DatabaseInfo option" where
  "DbFetchDatabaseInfo db =
     (case buckets db StakeDbInfoBucket of
        None \<Rightarrow> Inr None
      | Some b \<Rightarrow> (case map_of b StakeDbInfoKey of
                    None \<Rightarrow> Inl ErrMissingKey
                  | Some v \<Rightarrow> bindE (deserializeDatabaseInfo v) (\<lambda>i. Inr (Some i))))"

definition DbFetchBestState :: "stakeDB \<Rightarrow> db_error + BestChainState" where
  "DbFetchBestState db =
     (case chainState db of None \<Rightarrow> Inl ErrMissingKey | Some v \<Rightarrow> deserializeBestChainState v)"

definition DbPutBestState :: "stakeDB \<Rightarrow> BestChainState \<Rightarrow> db_error + stakeDB" where
  "DbPutBestState db bcs =
     bindE (serializeBestChainState bcs) (\<lambda>v. Inr (db\<lparr>chainState := Some v\<rparr>))"

definition height_key :: "uint32 \<Rightarrow> byte list" where
  "height_key height = le_bytes 4 (unat height)"

definition DbFetchBlockUndoData :: "stakeDB \<Rightarrow> uint32 \<Rightarrow> db_error + UndoTicketData list" where
  "DbFetchBlockUndoData db height =
     bindE (bucket_get db StakeBlockUndoDataBucket (height_key height)) (\<lambda>v.
       if v = None then Inl ErrMissingKey else deserializeBlockUndoData v)"

definition DbPutBlockUndoData :: "stakeDB \<Rightarrow> uint32 \<Rightarrow> UndoTicketData list \<Rightarrow> db_error + stakeDB" where
  "DbPutBlockUndoData db height utds =
     bucket_put db StakeBlockUndoDataBucket (height_key height) (serializeBlockUndoData utds)"

definition DbDropBlockUndoData :: "stakeDB \<Rightarrow> uint32 \<Rightarrow> db_error + stakeDB" where
  "DbDropBlockUndoData db height = bucket_delete db StakeBlockUndoDataBucket (height_key height)"

definition DbFetchNewTickets :: "stakeDB \<Rightarrow> uint32 \<Rightarrow> db_error + hash list" where
  "DbFetchNewTickets db height =
     bindE (bucket_get db TicketsInBlockBucket (height_key height)) (\<lambda>v.
       if v = None then Inl ErrMissingKey else deserializeTicketHashes v)"

definition DbPutNewTickets :: "stakeDB \<Rightarrow> uint32 \<Rightarrow> hash list \<Rightarrow> db_error + stakeDB" where
  "DbPutNewTickets db height ths =
     bucket_put db TicketsInBlockBucket (height_key height) (serializeTicketHashes ths)"

definition DbDropNewTickets :: "stakeDB \<Rightarrow> uint32 \<Rightarrow> db_error + stakeDB" where
  "DbDropNewTickets db height = bucket_delete db TicketsInBlockBucket (height_key height)"

definition DbDeleteTicket :: "stakeDB \<Rightarrow> bucket_name \<Rightarrow> hash \<Rightarrow> db_error + stakeDB" where
  "DbDeleteTicket db name h =
     bindE (bucket_get db name h) (\<lambda>v.
       if v = None then Inl ErrMissingKey else bucket_delete db name h)"

definition ticket_bytes :: "uint32 \<Rightarrow> bool \<Rightarrow> bool \<Rightarrow> bool \<Rightarrow> bool \<Rightarrow> byte list" where
  "ticket_bytes height missed revoked spent expired =
     le_bytes 4 (unat height) @ [undoBitFlagsToByte missed revoked spent expired]"

definition DbPutTicket ::
  "stakeDB \<Rightarrow> bucket_name \<Rightarrow> hash \<Rightarrow> uint32 \<Rightarrow> bool \<Rightarrow> bool \<Rightarrow> bool \<Rightarrow> bool \<Rightarrow> db_error + stakeDB" where
  "DbPutTicket db name h height missed revoked spent expired =
     bucket_put db name h (ticket_bytes height missed revoked spent expired)"

text \<open>The callback of \<open>DbLoadAllTickets\<close>; \<open>NewHash\<close> wants exactly 32 bytes.\<close>

definition ticket_of_bytes :: "byte list \<Rightarrow> tvalue" where
  "ticket_of_bytes v =
     (let (missed, revoked, spent, expired) = undoBitFlagsFromByte (v ! 4) in
      \<lparr>Height = word_of_nat (of_le_bytes (take 4 v)), Missed = missed, Revoked = revoked,
       Spent = spent, Expired = expired\<rparr>)"

definition load_ticket :: "byte list \<times> byte list \<Rightarrow> immutable \<Rightarrow> db_error + immutable" where
  "load_ticket kv treap =
     (if length (snd kv) < 5 then Inl ErrLoadAllTickets
      else if length (fst kv) \<noteq> HashSize then Inl ErrLoadAllTickets
      else Inr (Put treap (fst kv) (Some (ticket_of_bytes (snd kv)))))"

definition DbLoadAllTickets :: "stakeDB \<Rightarrow> bucket_name \<Rightarrow> db_error + immutable" where
  "DbLoadAllTickets db name =
     bindE (with_bucket db name) (\<lambda>b. foldE load_ticket b NewImmutable)"

definition DbRemoveAllBuckets :: "stakeDB \<Rightarrow> db_error + stakeDB" where
  "DbRemoveAllBuckets db =
     foldE (\<lambda>name db. DeleteBucket db name)
       [StakeDbInfoBucket, LiveTicketsBucket, MissedTicketsBucket, RevokedTicketsBucket,
        StakeBlockUndoDataBucket, TicketsInBlockBucket] db"

text \<open>\<open>now\<close> is the result of \<open>time.Now()\<close>.\<close>

definition DbCreate :: "int \<Rightarrow> stakeDB \<Rightarrow> db_error + stakeDB" where
  "DbCreate now db =
     bindE (CreateBucket db StakeDbInfoBucket) (\<lambda>db.
     bindE (DbPutDatabaseInfo db \<lparr>di_Date = now, di_Version = currentDatabaseVersion, di_UpgradeStarted = False\<rparr>) (\<lambda>db.
     foldE (\<lambda>name db. CreateBucket db name)
       [LiveTicketsBucket, MissedTicketsBucket, RevokedTicketsBucket, StakeBlockUndoDataBucket,
        TicketsInBlockBucket] db))"

section \<open>Lists of entries of a fixed width\<close>

text \<open>
  The interface of the loops that read entry after entry: an encoding of
  constant width, a decoder that looks at the beginning of its input only, and
  the loop that applies it.
\<close>

locale fixed_codec =
  fixes width :: nat
    and enc :: "'a \<Rightarrow> byte list"
    and dec :: "byte list \<Rightarrow> 'a"
    and decs :: "nat \<Rightarrow> byte list \<Rightarrow> 'a list"
    and ok :: "'a \<Rightarrow> bool"
  assumes width_pos: "0 < width"
    and enc_width: "ok a \<Longrightarrow> length (enc a) = width"
    and dec_enc: "ok a \<Longrightarrow> dec (enc a @ rest) = a"
    and decs_0: "decs 0 bs = []"
    and decs_Suc: "decs (Suc n) bs = dec bs # decs n (drop width bs)"
begin

lemma encs_width: "list_all ok xs \<Longrightarrow> length (concat (map enc xs)) = width * length xs"
  by (induction xs) (simp_all add: enc_width)

lemma decs_encs: "list_all ok xs \<Longrightarrow> decs (length xs) (concat (map enc xs) @ rest) = xs"
  by (induction xs) (simp_all add: decs_0 decs_Suc dec_enc enc_width)

lemma decs_length: "length (decs n bs) = n"
  by (induction n arbitrary: bs) (simp_all add: decs_0 decs_Suc)

text \<open>The checks that guard the loop let an encoding through.\<close>

lemma encs_checks:
  assumes "list_all ok xs" and "xs \<noteq> []"
  shows "\<not> length (concat (map enc xs)) < width" and "length (concat (map enc xs)) mod width = 0"
    and "length (concat (map enc xs)) div width = length xs" and "concat (map enc xs) \<noteq> []"
proof -
  note len = encs_width [OF assms(1)]
  have "0 < length xs" using assms(2) by simp
  then show "\<not> length (concat (map enc xs)) < width" unfolding len by simp
  show "length (concat (map enc xs)) mod width = 0" "length (concat (map enc xs)) div width = length xs"
    unfolding len using width_pos by simp_all
  have "0 < length (concat (map enc xs))" unfolding len using \<open>0 < length xs\<close> width_pos by simp
  then show "concat (map enc xs) \<noteq> []" by auto
qed

end

lemma flags_roundtrip [simp]:
  "undoBitFlagsFromByte (undoBitFlagsToByte missed revoked spent expired) = (missed, revoked, spent, expired)"
  by (cases missed; cases revoked; cases spent; cases expired)
    (simp_all add: undoBitFlagsToByte_def undoBitFlagsFromByte_def)

definition undo_wf :: "UndoTicketData \<Rightarrow> bool" where
  "undo_wf u \<longleftrightarrow> is_hash (TicketHash u)"

interpretation undo: fixed_codec undoTicketDataSize serialize_undo deserialize_undo deserialize_undos undo_wf
proof unfold_locales
  show "0 < undoTicketDataSize" by (simp add: undoTicketDataSize_def)
next
  fix a rest assume "undo_wf a"
  then have len: "length (TicketHash a) = 32" by (simp add: undo_wf_def is_hash_def HashSize_def)
  then show "length (serialize_undo a) = undoTicketDataSize"
    by (simp add: serialize_undo_def undoTicketDataSize_def)
  show "deserialize_undo (serialize_undo a @ rest) = a"
    using len by (simp add: serialize_undo_def deserialize_undo_def HashSize_def word_codec nth_append)
qed simp_all

interpretation hashes: fixed_codec HashSize "\<lambda>h. h" "take HashSize" deserialize_hashes is_hash
  by unfold_locales (simp_all add: is_hash_def HashSize_def)

lemma read_hashes_concat:
  "list_all is_hash hs \<Longrightarrow> read_hashes (length hs) (concat hs @ rest) = Inr hs"
  by (induction hs) (simp_all add: is_hash_def)

section \<open>Properties of the serialised forms\<close>

lemma undo_data_back:
  assumes "list_all undo_wf utds"
  shows "deserializeBlockUndoData (Some (serializeBlockUndoData utds)) = Inr utds \<and>
    length (serializeBlockUndoData utds) = undoTicketDataSize * length utds"
proof (cases "utds = []")
  case True
  then show ?thesis by (simp add: serializeBlockUndoData_def deserializeBlockUndoData_def)
next
  case False
  note c = undo.encs_checks [OF assms False, folded serializeBlockUndoData_def]
  have "deserialize_undos (length utds) (serializeBlockUndoData utds) = utds"
    using undo.decs_encs [OF assms, of "[]"] by (simp add: serializeBlockUndoData_def)
  with c undo.encs_width [OF assms, folded serializeBlockUndoData_def] show ?thesis
    by (simp add: deserializeBlockUndoData_def Let_def)
qed

text \<open>
  undo data survives its serialisation, which takes 37 bytes per ticket.
\<close>

theorem undo_data_roundtrip:
  assumes "list_all undo_wf utds"
  shows "deserializeBlockUndoData (Some (serializeBlockUndoData utds)) = Inr utds \<and>
    length (serializeBlockUndoData utds) = undoTicketDataSize * length utds"
  using assms by (rule undo_data_back)

definition ex_undo :: UndoTicketData where
  "ex_undo = \<lparr>TicketHash = replicate 32 7, TicketHeight = 0x01020304, u_Missed = True, u_Revoked = False,
     u_Spent = False, u_Expired = True\<rparr>"

theorem undo_data_roundtrip_witness:
  "deserializeBlockUndoData (Some (serializeBlockUndoData [ex_undo, ex_undo\<lparr>u_Revoked := True\<rparr>])) =
     Inr [ex_undo, ex_undo\<lparr>u_Revoked := True\<rparr>]"
proof -
  have "list_all undo_wf [ex_undo, ex_undo\<lparr>u_Revoked := True\<rparr>]" by code_simp
  from undo_data_roundtrip [OF this] show ?thesis by blast
qed

text \<open>
  \<open>deserializeBlockUndoData\<close> accepts exactly the non-nil slices whose
  length is a multiple of 37, returns one entry per 37 bytes, and tells a slice
  that is too short from one that is cut off in the middle of an entry.
\<close>

theorem undo_data_errors:
  "deserializeBlockUndoData b =
    (case b of
       None \<Rightarrow> Inl ErrUndoDataShortRead
     | Some bs \<Rightarrow>
         if bs \<noteq> [] \<and> length bs < 37 then Inl ErrUndoDataShortRead
         else if length bs mod 37 \<noteq> 0 then Inl ErrUndoDataCorrupt
         else Inr (deserialize_undos (length bs div 37) bs)) \<and>
   length (deserialize_undos n bs) = n"
  by (auto simp: deserializeBlockUndoData_def undoTicketDataSize_def undo.decs_length split: option.split)

lemma best_state_back:
  assumes "is_hash (bs_Hash state)" and "list_all is_hash (bs_NextWinners state)"
    and n: "length (bs_NextWinners state) = unat (bs_PerBlock state)"
  shows "\<exists>v. DbPutBestState db state = Inr (db\<lparr>chainState := Some v\<rparr>) \<and> deserializeBestChainState v = Inr state"
proof -
  have len: "length (bs_Hash state) = 32" using assms(1) by (simp add: is_hash_def HashSize_def)
  have "read_hashes (unat (bs_PerBlock state)) (concat (bs_NextWinners state)) = Inr (bs_NextWinners state)"
    using read_hashes_concat [OF assms(2), of "[]"] by (simp add: n)
  note rd = this
  obtain v where v: "serializeBestChainState state = Inr v" using n by (simp add: serializeBestChainState_def)
  then have "deserializeBestChainState v = Inr state"
    using n len rd by (auto simp: serializeBestChainState_def deserializeBestChainState_def
        minimumBestChainStateSize_def HashSize_def word_codec Let_def)
  with v show ?thesis by (intro exI [of _ v]) (simp add: DbPutBestState_def)
qed

text \<open>
  the best chain state survives being stored and fetched if it has a
  winner for every vote; storing more winners panics.
\<close>

theorem best_state_roundtrip:
  assumes "is_hash (bs_Hash state)" and "list_all is_hash (bs_NextWinners state)"
  shows "(length (bs_NextWinners state) = unat (bs_PerBlock state) \<longrightarrow>
      bindE (DbPutBestState db state) DbFetchBestState = Inr state) \<and>
    (unat (bs_PerBlock state) < length (bs_NextWinners state) \<longrightarrow> DbPutBestState db state = Inl SlicePanic)"
  using best_state_back [OF assms, of db]
  by (auto simp: DbFetchBestState_def) (simp add: DbPutBestState_def serializeBestChainState_def)

theorem best_state_roundtrip_witness:
  "let state = \<lparr>bs_Hash = replicate 32 1, bs_Height = 5, bs_Live = 3, bs_Missed = 2, bs_Revoked = 1,
      bs_PerBlock = 2, bs_NextWinners = [replicate 32 8, replicate 32 9]\<rparr>;
    db = \<lparr>buckets = (\<lambda>_. None), chainState = None\<rparr>
   in bindE (DbPutBestState db state) DbFetchBestState = Inr state"
proof -
  let ?state = "\<lparr>bs_Hash = replicate 32 1, bs_Height = 5, bs_Live = 3, bs_Missed = 2, bs_Revoked = 1,
      bs_PerBlock = 2, bs_NextWinners = [replicate 32 8, replicate 32 9]\<rparr>"
  have "is_hash (bs_Hash ?state)" "list_all is_hash (bs_NextWinners ?state)"
    "length (bs_NextWinners ?state) = unat (bs_PerBlock ?state)"
    by (simp_all add: is_hash_def HashSize_def)
  with best_state_roundtrip [of ?state] show ?thesis unfolding Let_def by blast
qed

lemma height_key_inj [simp]: "height_key h = height_key h' \<longleftrightarrow> h = h'"
  unfolding height_key_def by (metis word_of_le_bytes_width(2))

lemma ticket_hashes_back:
  assumes "list_all is_hash ths"
  shows "deserializeTicketHashes (Some (serializeTicketHashes ths)) = Inr ths"
proof (cases "ths = []")
  case False
  have "deserialize_hashes (length ths) (concat ths) = ths" using hashes.decs_encs [OF assms, of "[]"] by simp
  with hashes.encs_checks [OF assms False] show ?thesis
    by (simp add: deserializeTicketHashes_def serializeTicketHashes_def del: concat_eq_Nil_conv)
qed (simp add: deserializeTicketHashes_def serializeTicketHashes_def)

text \<open>
  the list of new tickets of a block survives being stored under the
  height of the block, whatever else is stored, as long as the bucket exists;
  without the bucket the call panics, and a height without an entry is an error.
\<close>

theorem new_tickets_roundtrip:
  assumes "list_all is_hash ths"
  shows "(case DbPutNewTickets db height ths of
      Inl e \<Rightarrow> e = NilBucket \<and> buckets db TicketsInBlockBucket = None
    | Inr db' \<Rightarrow> DbFetchNewTickets db' height = Inr ths \<and>
        (\<forall>h'. h' \<noteq> height \<longrightarrow> DbFetchNewTickets db' h' = DbFetchNewTickets db h') \<and>
        bindE (DbDropNewTickets db' height) (\<lambda>db. DbFetchNewTickets db height) = Inl ErrMissingKey)"
proof (cases "buckets db TicketsInBlockBucket")
  case None
  then show ?thesis by (simp add: DbPutNewTickets_def bucket_put_def with_bucket_def)
next
  case (Some b)
  note ticket_hashes_back [OF assms]
  with Some show ?thesis
    by (simp add: DbPutNewTickets_def DbFetchNewTickets_def DbDropNewTickets_def bucket_put_def bucket_get_def
        bucket_delete_def with_bucket_def set_bucket_def update_conv' AList.delete_conv')
qed

theorem new_tickets_roundtrip_witness:
  "case DbPutNewTickets \<lparr>buckets = (\<lambda>_. Some []), chainState = None\<rparr> 7 [replicate 32 1] of
     Inl e \<Rightarrow> False | Inr db' \<Rightarrow> DbFetchNewTickets db' 7 = Inr [replicate 32 1]"
proof -
  have "list_all is_hash [replicate 32 1]" by (simp add: is_hash_def HashSize_def)
  from new_tickets_roundtrip [OF this, of "\<lparr>buckets = (\<lambda>_. Some []), chainState = None\<rparr>" 7]
  show ?thesis by (simp split: sum.splits)
qed

text \<open>
  the database information survives its serialisation for every Unix
  time of 32 bits and every version without the upgrade bit, which is how the
  flag of an upgrade in progress is stored.
\<close>

theorem database_info_roundtrip:
  assumes "0 \<le> di_Date dbi" and "di_Date dbi < 2 ^ 32" and "di_Version dbi < upgradeStartedBit"
  shows "deserializeDatabaseInfo (serializeDatabaseInfo dbi) = Inr dbi"
proof -
  let ?v = "di_Version dbi"
  have hi: "\<not> bit ?v 31"
  proof
    assume "bit ?v 31"
    then have "bit (unat ?v) 31" by (simp add: bit_unsigned_iff)
    then have "odd (unat ?v div 2 ^ 31)" by (simp add: bit_iff_odd)
    moreover have "unat ?v < 2 ^ 31" using assms(3) by (simp add: upgradeStartedBit_def word_less_nat_alt)
    ultimately show False by simp
  qed
  have up: "bit upgradeStartedBit n \<longleftrightarrow> n = 31" for n
  proof -
    have "upgradeStartedBit = 2 ^ 31" by (simp add: upgradeStartedBit_def)
    then have "bit upgradeStartedBit n \<longleftrightarrow> bit (2 ^ 31 :: uint32) n" by (simp only:)
    also have "\<dots> \<longleftrightarrow> n = 31" unfolding bit_exp_iff by auto
    finally show ?thesis .
  qed
  have clear: "?v AND NOT upgradeStartedBit = ?v" "(?v OR upgradeStartedBit) AND NOT upgradeStartedBit = ?v"
    using hi by (auto intro!: bit_eqI simp: bit_simps up)
  have none: "upgradeStartedBit AND ?v = 0" using hi by (auto intro!: bit_eqI simp: bit_simps up)
  have some: "upgradeStartedBit AND (?v OR upgradeStartedBit) = upgradeStartedBit"
    by (auto intro!: bit_eqI simp: bit_simps up)
  have "uint (word_of_int (di_Date dbi) :: uint32) = di_Date dbi"
    using assms(1,2) by (simp add: unsigned_of_int take_bit_int_eq_self)
  moreover have "0 < upgradeStartedBit" by (simp add: upgradeStartedBit_def)
  ultimately show ?thesis
    by (simp add: serializeDatabaseInfo_def deserializeDatabaseInfo_def databaseInfoSize_def word_codec Let_def
        clear none some)
qed

theorem database_info_roundtrip_witness:
  "deserializeDatabaseInfo (serializeDatabaseInfo \<lparr>di_Date = 1500000000, di_Version = 1, di_UpgradeStarted = True\<rparr>) =
     Inr \<lparr>di_Date = 1500000000, di_Version = 1, di_UpgradeStarted = True\<rparr>"
  by (rule database_info_roundtrip) (simp_all add: upgradeStartedBit_def)

end
