(* ===== verification/StakeNode.thy ===== *)
theory StakeNode
  imports Lottery ChainParams TicketDB
begin

text \<open>
  The stake node of \<open>blockchain/stake/tickets.go\<close>: the three ticket pools of
  a block as immutable treaps, how the node of a child block is computed
  (\<open>connectNode\<close>) and how it is taken back (\<open>disconnectNode\<close>) with the
  undo data of the block.

  The two functions call the lottery, whose loops may not end, so their results
  are optional: \<open>None\<close> is a call that does not return.
\<close>

section \<open>Data\<close>

record Node =
  n_height :: uint32
  liveTickets :: immutable
  missedTickets :: immutable
  revokedTickets :: immutable
  databaseUndoUpdate :: "UndoTicketData list"
  databaseBlockTickets :: "hash list"
  nextWinners :: "hash list"
  finalState :: "byte list"
  n_params :: Params

datatype stake_error =
    ErrMissingTicket
  | ErrDuplicateTicket
  | ErrUnknownTicketSpent
  | ErrMissingDatabaseTx
  | ErrMemoryCorruption
  | ErrDatabaseCorrupt
  | MissingStakeNode
  | LotteryError lottery_error
  | DBError db_error
  | IndexPanic
  | NilPanic

definition SpentByBlock :: "Node \<Rightarrow> hash list" where
  "SpentByBlock sn = map TicketHash (filter u_Spent (databaseUndoUpdate sn))"

definition MissedByBlock :: "Node \<Rightarrow> hash list" where
  "MissedByBlock sn = map TicketHash (filter u_Missed (databaseUndoUpdate sn))"

definition ExpiredByBlock :: "Node \<Rightarrow> hash list" where
  "ExpiredByBlock sn =
     map TicketHash (filter (\<lambda>undo. u_Expired undo \<and> \<not> u_Revoked undo) (databaseUndoUpdate sn))"

definition ExistsLiveTicket :: "Node \<Rightarrow> hash \<Rightarrow> bool" where
  "ExistsLiveTicket sn ticket = Has (liveTickets sn) ticket"

definition ExistsMissedTicket :: "Node \<Rightarrow> hash \<Rightarrow> bool" where
  "ExistsMissedTicket sn ticket = Has (missedTickets sn) ticket"

definition ExistsRevokedTicket :: "Node \<Rightarrow> hash \<Rightarrow> bool" where
  "ExistsRevokedTicket sn ticket = Has (revokedTickets sn) ticket"

definition ExistsExpiredTicket :: "Node \<Rightarrow> hash \<Rightarrow> bool" where
  "ExistsExpiredTicket sn ticket =
     ((case Get (missedTickets sn) ticket of None \<Rightarrow> False | Some v \<Rightarrow> Expired v) \<or>
      (case Get (revokedTickets sn) ticket of None \<Rightarrow> False | Some v \<Rightarrow> Expired v))"

text \<open>\<open>LiveTickets\<close>, \<open>MissedTickets\<close> and \<open>RevokedTickets\<close> collect the keys with \<open>ForEach\<close>.\<close>

definition pool_keys :: "immutable \<Rightarrow> hash list" where
  "pool_keys t = ForEach t (\<lambda>k v acc. (acc @ [k], True)) []"

definition LiveTickets :: "Node \<Rightarrow> hash list" where
  "LiveTickets sn = pool_keys (liveTickets sn)"

definition MissedTickets :: "Node \<Rightarrow> hash list" where
  "MissedTickets sn = pool_keys (missedTickets sn)"

definition RevokedTickets :: "Node \<Rightarrow> hash list" where
  "RevokedTickets sn = pool_keys (revokedTickets sn)"

definition PoolSize :: "Node \<Rightarrow> int" where
  "PoolSize sn = ImLen (liveTickets sn)"

definition genesisNode :: "Params \<Rightarrow> Node" where
  "genesisNode params =
     \<lparr>n_height = 0, liveTickets = NewImmutable, missedTickets = NewImmutable,
      revokedTickets = NewImmutable, databaseUndoUpdate = [], databaseBlockTickets = [],
      nextWinners = [], finalState = replicate 6 0, n_params = params\<rparr>"

section \<open>Checked access to the pools\<close>

definition hashInSlice :: "hash \<Rightarrow> hash list \<Rightarrow> bool" where
  "hashInSlice h lst = list_ex (\<lambda>x. h = x) lst"

definition safeGet :: "immutable \<Rightarrow> tkey \<Rightarrow> stake_error + tvalue" where
  "safeGet t k = (case Get t k of None \<Rightarrow> Inl ErrMissingTicket | Some v \<Rightarrow> Inr v)"

definition safePut :: "immutable \<Rightarrow> tkey \<Rightarrow> tvalue \<Rightarrow> stake_error + immutable" where
  "safePut t k v = (if Has t k then Inl ErrDuplicateTicket else Inr (Put t k (Some v)))"

definition safeDelete :: "immutable \<Rightarrow> tkey \<Rightarrow> stake_error + immutable" where
  "safeDelete t k = (if \<not> Has t k then Inl ErrMissingTicket else Inr (Delete t k))"

section \<open>Connecting a block\<close>

definition undo_of :: "hash \<Rightarrow> tvalue \<Rightarrow> UndoTicketData" where
  "undo_of h v = \<lparr>TicketHash = h, TicketHeight = Height v, u_Missed = Missed v,
     u_Revoked = Revoked v, u_Spent = Spent v, u_Expired = Expired v\<rparr>"

definition record_undo :: "hash \<Rightarrow> tvalue \<Rightarrow> Node \<Rightarrow> Node" where
  "record_undo h v n = n\<lparr>databaseUndoUpdate := databaseUndoUpdate n @ [undo_of h v]\<rparr>"

text \<open>The body of the loop over the winners of the parent.\<close>

definition connect_winner :: "hash list \<Rightarrow> hash \<Rightarrow> Node \<Rightarrow> stake_error + Node" where
  "connect_winner ticketsVoted ticket n =
     bindE (safeGet (liveTickets n) ticket) (\<lambda>v.
       if hashInSlice ticket ticketsVoted then
         (let v' = v\<lparr>Spent := True, Missed := False\<rparr> in
          bindE (safeDelete (liveTickets n) ticket) (\<lambda>live.
          Inr (record_undo ticket v' (n\<lparr>liveTickets := live\<rparr>))))
       else
         (let v' = v\<lparr>Spent := False, Missed := True\<rparr> in
          bindE (safeDelete (liveTickets n) ticket) (\<lambda>live.
          bindE (safePut (missedTickets n) ticket v') (\<lambda>missed.
          Inr (record_undo ticket v' (n\<lparr>liveTickets := live, missedTickets := missed\<rparr>))))))"

text \<open>The callback that drops the expiring tickets; an error stops the iteration.\<close>

definition expire_ticket :: "hash \<Rightarrow> tvalue \<Rightarrow> Node \<Rightarrow> stake_error + Node" where
  "expire_ticket k v n =
     (let v' = v\<lparr>Missed := True, Expired := True\<rparr> in
      bindE (safeDelete (liveTickets n) k) (\<lambda>live.
      bindE (safePut (missedTickets n) k v') (\<lambda>missed.
      Inr (record_undo k v' (n\<lparr>liveTickets := live, missedTickets := missed\<rparr>)))))"

definition expire_callback ::
  "tkey \<Rightarrow> tvalue \<Rightarrow> stake_error + Node \<Rightarrow> (stake_error + Node) \<times> bool" where
  "expire_callback k v st =
     (case bindE st (expire_ticket k v) of Inl e \<Rightarrow> (Inl e, False) | Inr n \<Rightarrow> (Inr n, True))"

definition toExpireHeight :: "Node \<Rightarrow> uint32" where
  "toExpireHeight n =
     (if n_height n > TicketExpiry (n_params n) then n_height n - TicketExpiry (n_params n) else 0)"

definition connect_expired :: "Node \<Rightarrow> stake_error + Node" where
  "connect_expired n =
     ForEachByHeight (liveTickets n) (toExpireHeight n + 1) expire_callback (Inr n)"

definition connect_revoked :: "hash \<Rightarrow> Node \<Rightarrow> stake_error + Node" where
  "connect_revoked revokedTicket n =
     bindE (safeGet (missedTickets n) revokedTicket) (\<lambda>v.
     let v' = v\<lparr>Revoked := True\<rparr> in
     bindE (safeDelete (missedTickets n) revokedTicket) (\<lambda>missed.
     bindE (safePut (revokedTickets n) revokedTicket v') (\<lambda>revoked.
     Inr (record_undo revokedTicket v' (n\<lparr>missedTickets := missed, revokedTickets := revoked\<rparr>)))))"

definition connect_new :: "hash \<Rightarrow> Node \<Rightarrow> stake_error + Node" where
  "connect_new newTicket n =
     (let v = \<lparr>Height = n_height n, Missed = False, Revoked = False, Spent = False, Expired = False\<rparr> in
      bindE (safePut (liveTickets n) newTicket v) (\<lambda>live.
      Inr (record_undo newTicket v (n\<lparr>liveTickets := live\<rparr>))))"

text \<open>The pools of the child: everything up to the selection of the next winners.\<close>

definition childNode :: "Node \<Rightarrow> hash list \<Rightarrow> Node" where
  "childNode node newTickets =
     \<lparr>n_height = n_height node + 1, liveTickets = liveTickets node,
      missedTickets = missedTickets node, revokedTickets = revokedTickets node,
      databaseUndoUpdate = [], databaseBlockTickets = newTickets, nextWinners = [],
      finalState = replicate 6 0, n_params = n_params node\<rparr>"

definition connect_pools :: "Node \<Rightarrow> hash list \<Rightarrow> hash list \<Rightarrow> hash list \<Rightarrow> stake_error + Node" where
  "connect_pools node ticketsVoted revoked newTickets =
     (let c = childNode node newTickets
      in bindE
           (if n_height c \<ge> word_of_int (StakeEnabledHeight (n_params c)) then
              (if \<not> list_all (\<lambda>t. hashInSlice t (nextWinners node)) ticketsVoted
               then Inl ErrUnknownTicketSpent
               else bindE (foldE (connect_winner ticketsVoted) (nextWinners node) c) (\<lambda>c1.
                    bindE (connect_expired c1) (\<lambda>c2.
                    foldE connect_revoked revoked c2)))
            else Inr c)
           (foldE connect_new newTickets))"

definition lottery_checksum ::
  "(byte list \<Rightarrow> hash) \<Rightarrow> hash list \<Rightarrow> Hash256PRNG \<Rightarrow> byte list" where
  "lottery_checksum H winners prng = take 6 (H (concat winners @ StateHash H prng))"

text \<open>The selection of the next winners and the checksum of the lottery.\<close>

definition connect_lottery ::
  "(byte list \<Rightarrow> hash) \<Rightarrow> hash \<Rightarrow> Node \<Rightarrow> (stake_error + Node) option" where
  "connect_lottery H lotteryIV c =
     (if n_height c \<ge> word_of_int (StakeValidationHeight (n_params c) - 1) then
        (case findTicketIdxs H (ImLen (liveTickets c)) (TicketsPerBlock (n_params c))
                (NewHash256PRNGFromIV lotteryIV) of
           None \<Rightarrow> None
         | Some (Inl e) \<Rightarrow> Some (Inl (LotteryError e))
         | Some (Inr (idxs, prng)) \<Rightarrow>
             (case fetchWinners idxs (liveTickets c) of
                Inl e \<Rightarrow> Some (Inl (LotteryError e))
              | Inr winners \<Rightarrow>
                  Some (Inr (c\<lparr>nextWinners := winners,
                               finalState := lottery_checksum H winners prng\<rparr>))))
      else Some (Inr c))"

definition connectNode ::
  "(byte list \<Rightarrow> hash) \<Rightarrow> Node option \<Rightarrow> hash \<Rightarrow> hash list \<Rightarrow> hash list \<Rightarrow> hash list \<Rightarrow>
     (stake_error + Node) option" where
  "connectNode H nodep lotteryIV ticketsVoted revoked newTickets =
     (case nodep of
        None \<Rightarrow> Some (Inl MissingStakeNode)
      | Some node \<Rightarrow>
          (case connect_pools node ticketsVoted revoked newTickets of
             Inl e \<Rightarrow> Some (Inl e)
           | Inr c \<Rightarrow> connect_lottery H lotteryIV c))"

section \<open>Disconnecting a block\<close>

definition value_of_undo :: "UndoTicketData \<Rightarrow> tvalue" where
  "value_of_undo u = \<lparr>Height = TicketHeight u, Missed = u_Missed u, Revoked = u_Revoked u,
     Spent = u_Spent u, Expired = u_Expired u\<rparr>"

text \<open>
  One entry of the undo data, in the order of the cases of the switch.
  Winners are restored to the list of next winners, which is also what goes
  into the buffer of the lottery checksum.
\<close>

definition disconnect_undo :: "UndoTicketData \<Rightarrow> Node \<Rightarrow> stake_error + Node" where
  "disconnect_undo u n =
     (let k = TicketHash u; v = value_of_undo u in
      if \<not> u_Missed u \<and> \<not> u_Revoked u \<and> \<not> u_Spent u then
        bindE (safeDelete (liveTickets n) k) (\<lambda>live. Inr (n\<lparr>liveTickets := live\<rparr>))
      else if u_Missed u \<and> u_Revoked u then
        bindE (safeDelete (revokedTickets n) k) (\<lambda>revoked.
        bindE (safePut (missedTickets n) k (v\<lparr>Revoked := False\<rparr>)) (\<lambda>missed.
        Inr (n\<lparr>revokedTickets := revoked, missedTickets := missed\<rparr>)))
      else if u_Missed u \<and> \<not> u_Revoked u then
        (let n' = (if \<not> u_Expired u then n\<lparr>nextWinners := nextWinners n @ [k]\<rparr> else n);
             v' = (if \<not> u_Expired u then v else v\<lparr>Expired := False\<rparr>)\<lparr>Missed := False\<rparr>
         in bindE (safeDelete (missedTickets n') k) (\<lambda>missed.
            bindE (safePut (liveTickets n') k v') (\<lambda>live.
            Inr (n'\<lparr>missedTickets := missed, liveTickets := live\<rparr>))))
      else if u_Spent u then
        (let n' = n\<lparr>nextWinners := nextWinners n @ [k]\<rparr> in
         bindE (safePut (liveTickets n') k (v\<lparr>Spent := False\<rparr>)) (\<lambda>live.
         Inr (n'\<lparr>liveTickets := live\<rparr>)))
      else Inl ErrMemoryCorruption)"

definition restoredNode :: "Node \<Rightarrow> UndoTicketData list \<Rightarrow> hash list \<Rightarrow> Node" where
  "restoredNode node utds tickets =
     \<lparr>n_height = n_height node - 1, liveTickets = liveTickets node,
      missedTickets = missedTickets node, revokedTickets = revokedTickets node,
      databaseUndoUpdate = utds, databaseBlockTickets = tickets, nextWinners = [],
      finalState = replicate 6 0, n_params = n_params node\<rparr>"

text \<open>
  The undo data and the new tickets of the parent, from the arguments or, if
  one of them is nil, from the database.  A nil \<open>node\<close> would panic at the
  first field access, before the check for it is reached, so the node is an
  argument that is there.
\<close>

definition liftDB :: "db_error + 'a \<Rightarrow> stake_error + 'a" where
  "liftDB r = (case r of Inl e \<Rightarrow> Inl (DBError e) | Inr a \<Rightarrow> Inr a)"

definition parent_data ::
  "UndoTicketData list option \<Rightarrow> hash list option \<Rightarrow> stakeDB option \<Rightarrow> uint32 \<Rightarrow>
     stake_error + UndoTicketData list \<times> hash list" where
  "parent_data parentUtds parentTickets dbTx height =
     (case (parentUtds, parentTickets) of
        (Some utds, Some tickets) \<Rightarrow> Inr (utds, tickets)
      | _ \<Rightarrow> (case dbTx of
                None \<Rightarrow> Inl ErrMissingDatabaseTx
              | Some db \<Rightarrow>
                  bindE (liftDB (DbFetchBlockUndoData db height)) (\<lambda>utds.
                  bindE (liftDB (DbFetchNewTickets db height)) (\<lambda>tickets. Inr (utds, tickets)))))"

definition disconnectNode ::
  "(byte list \<Rightarrow> hash) \<Rightarrow> Node \<Rightarrow> hash \<Rightarrow> UndoTicketData list option \<Rightarrow> hash list option \<Rightarrow>
     stakeDB option \<Rightarrow> (stake_error + Node) option" where
  "disconnectNode H node parentLotteryIV parentUtds parentTickets dbTx =
     (if n_height node = 1 then Some (Inr (genesisNode (n_params node)))
      else
        case parent_data parentUtds parentTickets dbTx (n_height node - 1) of
          Inl e \<Rightarrow> Some (Inl e)
        | Inr (utds, tickets) \<Rightarrow>
            (case foldE disconnect_undo (databaseUndoUpdate node)
                    (restoredNode node utds tickets) of
               Inl e \<Rightarrow> Some (Inl e)
             | Inr r \<Rightarrow>
                 (if n_height node \<ge> word_of_int (StakeValidationHeight (n_params node)) then
                    (case findTicketIdxs H (ImLen (liveTickets r)) (TicketsPerBlock (n_params node))
                            (NewHash256PRNGFromIV parentLotteryIV) of
                       None \<Rightarrow> None
                     | Some (Inl e) \<Rightarrow> Some (Inl (LotteryError e))
                     | Some (Inr (_, prng)) \<Rightarrow>
                         Some (Inr (r\<lparr>finalState := lottery_checksum H (nextWinners r) prng\<rparr>)))
                  else Some (Inr r))))"

section \<open>The effect of a block on the pools\<close>

datatype pool = LivePool | MissedPool | RevokedPool

fun pool_of :: "Node \<Rightarrow> pool \<Rightarrow> immutable" where
  "pool_of n LivePool = liveTickets n"
| "pool_of n MissedPool = missedTickets n"
| "pool_of n RevokedPool = revokedTickets n"

definition cell :: "Node \<Rightarrow> pool \<Rightarrow> hash \<Rightarrow> tvalue option" where
  "cell n p = Get (pool_of n p)"

text \<open>The flags a ticket has in each pool.\<close>

fun flags_ok :: "pool \<Rightarrow> tvalue \<Rightarrow> bool" where
  "flags_ok LivePool v \<longleftrightarrow> \<not> Missed v \<and> \<not> Revoked v \<and> \<not> Spent v \<and> \<not> Expired v"
| "flags_ok MissedPool v \<longleftrightarrow> Missed v \<and> \<not> Revoked v \<and> \<not> Spent v"
| "flags_ok RevokedPool v \<longleftrightarrow> Missed v \<and> Revoked v \<and> \<not> Spent v"

definition pools_ok :: "Node \<Rightarrow> bool" where
  "pools_ok n \<longleftrightarrow> (\<forall>p. ticket_wf (pool_of n p) \<and> (\<forall>k v. cell n p k = Some v \<longrightarrow> flags_ok p v))"

text \<open>
  An entry of the undo data tells which pools of its ticket changed, and what
  they held for it before and after the block.
\<close>

definition undo_ok :: "UndoTicketData \<Rightarrow> bool" where
  "undo_ok u \<longleftrightarrow> (u_Revoked u \<longrightarrow> u_Missed u) \<and> (u_Missed u \<longrightarrow> \<not> u_Spent u) \<and> (u_Expired u \<longrightarrow> u_Missed u)"

fun touches :: "UndoTicketData \<Rightarrow> pool \<Rightarrow> bool" where
  "touches u LivePool \<longleftrightarrow> \<not> u_Revoked u"
| "touches u MissedPool \<longleftrightarrow> u_Missed u"
| "touches u RevokedPool \<longleftrightarrow> u_Revoked u"

fun old_cell :: "UndoTicketData \<Rightarrow> pool \<Rightarrow> tvalue option" where
  "old_cell u LivePool =
     (if u_Missed u then Some ((value_of_undo u)\<lparr>Missed := False, Expired := False\<rparr>)
      else if u_Spent u then Some ((value_of_undo u)\<lparr>Spent := False\<rparr>) else None)"
| "old_cell u MissedPool = (if u_Revoked u then Some ((value_of_undo u)\<lparr>Revoked := False\<rparr>) else None)"
| "old_cell u RevokedPool = None"

fun new_cell :: "UndoTicketData \<Rightarrow> pool \<Rightarrow> tvalue option" where
  "new_cell u LivePool = (if u_Missed u \<or> u_Spent u then None else Some (value_of_undo u))"
| "new_cell u MissedPool = (if u_Revoked u then None else Some (value_of_undo u))"
| "new_cell u RevokedPool = Some (value_of_undo u)"

text \<open>The fields that the steps of \<open>connectNode\<close> on the pools leave alone.\<close>

definition node_frame :: "Node \<Rightarrow> uint32 \<times> hash list \<times> hash list \<times> byte list \<times> Params" where
  "node_frame n = (n_height n, databaseBlockTickets n, nextWinners n, finalState n, n_params n)"

text \<open>\<open>applies u m n\<close>: one step from \<open>m\<close> to \<open>n\<close> with the undo entry \<open>u\<close>.\<close>

definition applies :: "UndoTicketData \<Rightarrow> Node \<Rightarrow> Node \<Rightarrow> bool" where
  "applies u m n \<longleftrightarrow> undo_ok u \<and> pools_ok n \<and>
     (\<forall>p. cell n p = (if touches u p then (cell m p)(TicketHash u := new_cell u p) else cell m p)) \<and>
     (\<forall>p. touches u p \<longrightarrow> cell m p (TicketHash u) = old_cell u p) \<and>
     node_frame n = node_frame m \<and> databaseUndoUpdate n = databaseUndoUpdate m @ [u]"

lemma all_pool: "(\<forall>p. P p) \<longleftrightarrow> P LivePool \<and> P MissedPool \<and> P RevokedPool"
  by (metis pool.exhaust)

lemma safePut_Inr: "safePut t k v = Inr t' \<longleftrightarrow> Get t k = None \<and> t' = Put t k (Some v)"
  by (auto simp: safePut_def Has_Get)

lemma safeDelete_Inr: "safeDelete t k = Inr t' \<longleftrightarrow> Get t k \<noteq> None \<and> t' = Delete t k"
  by (auto simp: safeDelete_def Has_Get)

lemma safeGet_Inr: "safeGet t k = Inr v \<longleftrightarrow> Get t k = Some v"
  by (simp add: safeGet_def split: option.split)

lemma hashInSlice_set [simp]: "hashInSlice h lst \<longleftrightarrow> h \<in> set lst"
  by (auto simp: hashInSlice_def list_ex_iff)

lemma value_of_undo_of [simp]: "value_of_undo (undo_of h v) = v"
  by (simp add: value_of_undo_def undo_of_def)

lemma undo_of_fields [simp]:
  "TicketHash (undo_of h v) = h" "TicketHeight (undo_of h v) = Height v" "u_Missed (undo_of h v) = Missed v"
  "u_Revoked (undo_of h v) = Revoked v" "u_Spent (undo_of h v) = Spent v" "u_Expired (undo_of h v) = Expired v"
  by (simp_all add: undo_of_def)

lemmas safe_simps = safePut_Inr safeDelete_Inr safeGet_Inr bindE_eq_Inr_iff

lemmas pool_simps = all_pool cell_def tt.put_inv tt.put_lookup tt.delete_inv tt.delete_lookup

lemma pools_okD:
  "pools_ok n \<Longrightarrow> ticket_wf (liveTickets n)" "pools_ok n \<Longrightarrow> ticket_wf (missedTickets n)"
  "pools_ok n \<Longrightarrow> ticket_wf (revokedTickets n)"
  "pools_ok n \<Longrightarrow> Get (liveTickets n) k = Some v \<Longrightarrow> flags_ok LivePool v"
  "pools_ok n \<Longrightarrow> Get (missedTickets n) k = Some v \<Longrightarrow> flags_ok MissedPool v"
  "pools_ok n \<Longrightarrow> Get (revokedTickets n) k = Some v \<Longrightarrow> flags_ok RevokedPool v"
  by (auto simp: pools_ok_def all_pool cell_def)

lemma pools_okI:
  "ticket_wf (liveTickets n) \<Longrightarrow> ticket_wf (missedTickets n) \<Longrightarrow> ticket_wf (revokedTickets n) \<Longrightarrow>
   (\<And>k v. Get (liveTickets n) k = Some v \<Longrightarrow> flags_ok LivePool v) \<Longrightarrow>
   (\<And>k v. Get (missedTickets n) k = Some v \<Longrightarrow> flags_ok MissedPool v) \<Longrightarrow>
   (\<And>k v. Get (revokedTickets n) k = Some v \<Longrightarrow> flags_ok RevokedPool v) \<Longrightarrow> pools_ok n"
  by (simp add: pools_ok_def all_pool cell_def)

lemma spent_applies:
  assumes "pools_ok m" and "Get (liveTickets m) k = Some v"
  shows "applies (undo_of k (v\<lparr>Spent := True, Missed := False\<rparr>)) m
     (record_undo k (v\<lparr>Spent := True, Missed := False\<rparr>) (m\<lparr>liveTickets := Delete (liveTickets m) k\<rparr>))"
proof -
  note wf = pools_okD(1-3) [OF assms(1)] and fl = pools_okD(4-6) [OF assms(1)]
  show ?thesis using wf fl(1) [OF assms(2)] assms(2)
    by (auto simp: applies_def undo_ok_def record_undo_def node_frame_def pool_simps intro!: pools_okI split: if_splits dest: fl [simplified])
qed

lemma missed_applies:
  assumes "pools_ok m" and "Get (liveTickets m) k = Some v" and "Get (missedTickets m) k = None"
    and "v' = v\<lparr>Missed := True, Expired := e\<rparr>"
  shows "applies (undo_of k v') m
     (record_undo k v' (m\<lparr>liveTickets := Delete (liveTickets m) k, missedTickets := Put (missedTickets m) k (Some v')\<rparr>))"
proof -
  note wf = pools_okD(1-3) [OF assms(1)] and fl = pools_okD(4-6) [OF assms(1)]
  show ?thesis using wf fl(1) [OF assms(2)] assms(2-4)
    by (auto simp: applies_def undo_ok_def record_undo_def node_frame_def pool_simps intro!: pools_okI split: if_splits dest: fl [simplified])
qed

lemma connect_winner_applies:
  assumes "pools_ok m" and "connect_winner voted k m = Inr n"
  shows "\<exists>u. applies u m n \<and> TicketHash u = k \<and> \<not> u_Revoked u \<and> \<not> u_Expired u \<and>
     (u_Spent u \<longleftrightarrow> k \<in> set voted) \<and> (u_Missed u \<longleftrightarrow> k \<notin> set voted)"
proof -
  from assms(2) obtain v where v: "Get (liveTickets m) k = Some v"
    by (auto simp: connect_winner_def safe_simps)
  with assms(1) have fl: "flags_ok LivePool v" by (rule pools_okD(4))
  show ?thesis
  proof (cases "k \<in> set voted")
    case True
    with assms(2) v have "n = record_undo k (v\<lparr>Spent := True, Missed := False\<rparr>) (m\<lparr>liveTickets := Delete (liveTickets m) k\<rparr>)"
      by (simp add: connect_winner_def safe_simps Let_def)
    with spent_applies [OF assms(1) v] fl True show ?thesis
      by (intro exI [of _ "undo_of k (v\<lparr>Spent := True, Missed := False\<rparr>)"]) simp
  next
    case False
    from fl have eq: "v\<lparr>Spent := False, Missed := True\<rparr> = v\<lparr>Missed := True, Expired := False\<rparr>"
      by (cases v) simp
    from False assms(2) v have none: "Get (missedTickets m) k = None"
      and n: "n = record_undo k (v\<lparr>Missed := True, Expired := False\<rparr>) (m\<lparr>liveTickets := Delete (liveTickets m) k,
        missedTickets := Put (missedTickets m) k (Some (v\<lparr>Missed := True, Expired := False\<rparr>))\<rparr>)"
      by (auto simp: connect_winner_def safe_simps Let_def eq)
    from missed_applies [OF assms(1) v none refl] n fl False show ?thesis
      by (intro exI [of _ "undo_of k (v\<lparr>Missed := True, Expired := False\<rparr>)"]) simp
  qed
qed

lemma expire_ticket_applies:
  assumes "pools_ok m" and "expire_ticket k v m = Inr n" and "Get (liveTickets m) k = Some v"
  shows "\<exists>u. applies u m n \<and> TicketHash u = k \<and> u_Missed u \<and> \<not> u_Revoked u \<and> u_Expired u \<and>
     TicketHeight u = Height v"
proof -
  from assms(2,3) have none: "Get (missedTickets m) k = None"
    and n: "n = record_undo k (v\<lparr>Missed := True, Expired := True\<rparr>) (m\<lparr>liveTickets := Delete (liveTickets m) k,
      missedTickets := Put (missedTickets m) k (Some (v\<lparr>Missed := True, Expired := True\<rparr>))\<rparr>)"
    by (auto simp: expire_ticket_def safe_simps Let_def)
  from assms(1,3) have "flags_ok LivePool v" by (rule pools_okD(4))
  with missed_applies [OF assms(1,3) none refl] n show ?thesis
    by (intro exI [of _ "undo_of k (v\<lparr>Missed := True, Expired := True\<rparr>)"]) simp
qed

lemma connect_revoked_applies:
  assumes "pools_ok m" and "connect_revoked k m = Inr n"
  shows "\<exists>u. applies u m n \<and> TicketHash u = k \<and> u_Missed u \<and> u_Revoked u"
proof -
  note wf = pools_okD(1-3) [OF assms(1)] and fl = pools_okD(4-6) [OF assms(1)]
  from assms(2) obtain v where v: "Get (missedTickets m) k = Some v" "Get (revokedTickets m) k = None"
    and n: "n = record_undo k (v\<lparr>Revoked := True\<rparr>) (m\<lparr>missedTickets := Delete (missedTickets m) k,
      revokedTickets := Put (revokedTickets m) k (Some (v\<lparr>Revoked := True\<rparr>))\<rparr>)"
    by (auto simp: connect_revoked_def safe_simps Let_def)
  have "applies (undo_of k (v\<lparr>Revoked := True\<rparr>)) m n" using wf fl(2) [OF v(1)] v
    by (auto simp: n applies_def undo_ok_def record_undo_def node_frame_def pool_simps intro!: pools_okI split: if_splits dest: fl [simplified])
  with fl(2) [OF v(1)] show ?thesis by (intro exI [of _ "undo_of k (v\<lparr>Revoked := True\<rparr>)"]) simp
qed

lemma connect_new_applies:
  assumes "pools_ok m" and "connect_new k m = Inr n"
  shows "\<exists>u. applies u m n \<and> TicketHash u = k \<and> TicketHeight u = n_height m \<and>
     \<not> u_Missed u \<and> \<not> u_Revoked u \<and> \<not> u_Spent u"
proof -
  let ?v = "\<lparr>Height = n_height m, Missed = False, Revoked = False, Spent = False, Expired = False\<rparr>"
  note wf = pools_okD(1-3) [OF assms(1)] and fl = pools_okD(4-6) [OF assms(1)]
  from assms(2) have v: "Get (liveTickets m) k = None"
    and n: "n = record_undo k ?v (m\<lparr>liveTickets := Put (liveTickets m) k (Some ?v)\<rparr>)"
    by (auto simp: connect_new_def safe_simps Let_def)
  have "applies (undo_of k ?v) m n" using wf v
    by (auto simp: n applies_def undo_ok_def record_undo_def node_frame_def pool_simps intro!: pools_okI split: if_splits dest: fl [simplified])
  then show ?thesis by (intro exI [of _ "undo_of k ?v"]) simp
qed

text \<open>
  The effect of a block: the entries of its undo data are about distinct
  tickets of each pool, tell the old and the new state of what they touch, and
  what none of them touches is unchanged.
\<close>

definition apart :: "UndoTicketData \<Rightarrow> UndoTicketData \<Rightarrow> bool" where
  "apart u u' \<longleftrightarrow> (TicketHash u = TicketHash u' \<longrightarrow> (\<forall>p. \<not> (touches u p \<and> touches u' p)))"

definition block_effect :: "Node \<Rightarrow> Node \<Rightarrow> bool" where
  "block_effect c m \<longleftrightarrow> pools_ok m \<and> sorted_wrt apart (databaseUndoUpdate m) \<and>
     (\<forall>u \<in> set (databaseUndoUpdate m). undo_ok u \<and> (\<forall>p. touches u p \<longrightarrow>
        cell c p (TicketHash u) = old_cell u p \<and> cell m p (TicketHash u) = new_cell u p)) \<and>
     (\<forall>p k. (\<forall>u \<in> set (databaseUndoUpdate m). touches u p \<longrightarrow> TicketHash u \<noteq> k) \<longrightarrow> cell m p k = cell c p k) \<and>
     node_frame m = node_frame c"

lemma block_effect_refl: "pools_ok c \<Longrightarrow> databaseUndoUpdate c = [] \<Longrightarrow> block_effect c c"
  by (simp add: block_effect_def)

lemma applies_frame:
  assumes "applies u m n"
  shows "databaseUndoUpdate n = databaseUndoUpdate m @ [u]" "n_height n = n_height m" "n_params n = n_params m"
  using assms by (simp_all add: applies_def node_frame_def)

lemma block_effect_step:
  assumes eff: "block_effect c m" and app: "applies u m n"
    and fresh: "\<And>u' p. u' \<in> set (databaseUndoUpdate m) \<Longrightarrow> TicketHash u' = TicketHash u \<Longrightarrow>
      touches u' p \<Longrightarrow> touches u p \<Longrightarrow> old_cell u' p = cell c p (TicketHash u) \<Longrightarrow>
      new_cell u' p = old_cell u p \<Longrightarrow> undo_ok u' \<Longrightarrow> False"
  shows "block_effect c n"
proof -
  let ?us = "databaseUndoUpdate m"
  note dn = applies_frame(1) [OF app]
  from eff have ef: "\<And>u'. u' \<in> set ?us \<Longrightarrow> undo_ok u'"
      "\<And>u' p. u' \<in> set ?us \<Longrightarrow> touches u' p \<Longrightarrow> cell c p (TicketHash u') = old_cell u' p"
      "\<And>u' p. u' \<in> set ?us \<Longrightarrow> touches u' p \<Longrightarrow> cell m p (TicketHash u') = new_cell u' p"
      "\<And>p k. (\<forall>u' \<in> set ?us. touches u' p \<longrightarrow> TicketHash u' \<noteq> k) \<Longrightarrow> cell m p k = cell c p k"
      "sorted_wrt apart ?us"
    by (simp_all add: block_effect_def)
  from app have ap: "undo_ok u" "pools_ok n"
      "\<And>p. cell n p = (if touches u p then (cell m p)(TicketHash u := new_cell u p) else cell m p)"
      "\<And>p. touches u p \<Longrightarrow> cell m p (TicketHash u) = old_cell u p"
    by (simp_all add: applies_def)
  have un: "TicketHash u' \<noteq> TicketHash u" if "u' \<in> set ?us" "touches u' p" "touches u p" for u' p
  proof
    assume eq: "TicketHash u' = TicketHash u"
    show False
      by (rule fresh [OF that(1) eq that(2,3)])
        (use ef(1-3) [OF that(1)] that(2) ap(4) [OF that(3)] eq in simp_all)
  qed
  have "sorted_wrt apart (databaseUndoUpdate n)"
    using ef(5) un by (auto simp: dn sorted_wrt_append apart_def)
  moreover have "undo_ok u' \<and> (\<forall>p. touches u' p \<longrightarrow>
        cell c p (TicketHash u') = old_cell u' p \<and> cell n p (TicketHash u') = new_cell u' p)"
    if "u' \<in> set (databaseUndoUpdate n)" for u'
  proof (cases "u' \<in> set ?us")
    case True
    with ef un ap(3) show ?thesis by auto
  next
    case False
    with that have [simp]: "u' = u" by (simp add: dn)
    have "cell c p (TicketHash u) = old_cell u p" if "touches u p" for p
      using ef(4) [of p "TicketHash u"] un that ap(4) by auto
    with ap show ?thesis by simp
  qed
  moreover have "cell n p k = cell c p k"
    if "\<forall>u \<in> set (databaseUndoUpdate n). touches u p \<longrightarrow> TicketHash u \<noteq> k" for p k
    using that ef(4) [of p k] ap(3) [of p] by (auto simp: dn)
  moreover have "node_frame n = node_frame c" using app eff by (simp add: applies_def block_effect_def)
  ultimately show ?thesis using ap(2) by (simp add: block_effect_def)
qed

text \<open>A loop whose body is such a step.\<close>

lemma foldE_steps:
  assumes "foldE f xs m = Inr n" and "I m"
    and "\<And>x m n. x \<in> set xs \<Longrightarrow> I m \<Longrightarrow> f x m = Inr n \<Longrightarrow>
      I n \<and> (\<exists>u. databaseUndoUpdate n = databaseUndoUpdate m @ [u] \<and> Q x u)"
  shows "I n \<and> (\<exists>us. databaseUndoUpdate n = databaseUndoUpdate m @ us \<and> list_all2 Q xs us)"
  using assms
proof (induction xs arbitrary: m)
  case (Cons x xs)
  from Cons.prems(1) obtain m' where m': "f x m = Inr m'" "foldE f xs m' = Inr n"
    by (auto simp: bindE_eq_Inr_iff)
  from Cons.prems(3) [OF _ Cons.prems(2) m'(1)] obtain u where
    u: "I m'" "databaseUndoUpdate m' = databaseUndoUpdate m @ [u]" "Q x u" by auto
  from Cons.IH [OF m'(2) u(1)] Cons.prems(3) obtain us where
    "I n" "databaseUndoUpdate n = databaseUndoUpdate m' @ us" "list_all2 Q xs us" by auto
  with u(2,3) show ?case by (intro conjI exI [of _ "u # us"]) simp_all
qed simp

definition leaves :: "UndoTicketData \<Rightarrow> bool" where
  "leaves u \<longleftrightarrow> \<not> u_Revoked u \<and> (u_Missed u \<or> u_Spent u)"

lemma leaves_fresh:
  assumes "leaves u" "undo_ok u" "leaves u'" "undo_ok u'" "touches u p" "touches u' p"
    "new_cell u' p = old_cell u p"
  shows False
  using assms by (cases p) (auto simp: leaves_def split: if_splits)

definition leaving :: "Node \<Rightarrow> Node \<Rightarrow> bool" where
  "leaving c m \<longleftrightarrow> block_effect c m \<and> (\<forall>u \<in> set (databaseUndoUpdate m). leaves u)"

lemma leaving_step:
  assumes "leaving c m" and "applies u m n" and "leaves u"
  shows "leaving c n"
proof -
  have "block_effect c n"
    by (rule block_effect_step [of c m u])
      (use assms leaves_fresh [of u] in \<open>auto simp: leaving_def applies_def\<close>)
  with assms applies_frame(1) [OF assms(2)] show ?thesis by (simp add: leaving_def)
qed

lemma leaving_pools: "leaving c m \<Longrightarrow> pools_ok m"
  by (simp add: leaving_def block_effect_def)

lemma connect_winners:
  assumes "foldE (connect_winner voted) ws c = Inr m" and "leaving c c" and "databaseUndoUpdate c = []"
  shows "leaving c m" and "list_all2 (\<lambda>k u. TicketHash u = k \<and> leaves u \<and> \<not> u_Expired u \<and>
     (u_Spent u \<longleftrightarrow> k \<in> set voted)) ws (databaseUndoUpdate m)"
proof -
  let ?Q = "\<lambda>k u. TicketHash u = k \<and> leaves u \<and> \<not> u_Expired u \<and> (u_Spent u \<longleftrightarrow> k \<in> set voted)"
  have "leaving c m \<and> (\<exists>us. databaseUndoUpdate m = databaseUndoUpdate c @ us \<and> list_all2 ?Q ws us)"
  proof (rule foldE_steps [where I = "leaving c", OF assms(1,2)])
    fix k m n assume l: "leaving c m" and w: "connect_winner voted k m = Inr n"
    from connect_winner_applies [OF leaving_pools [OF l] w] obtain u where
      u: "applies u m n" "TicketHash u = k" "\<not> u_Revoked u" "\<not> u_Expired u"
        "u_Spent u \<longleftrightarrow> k \<in> set voted" "u_Missed u \<longleftrightarrow> k \<notin> set voted" by blast
    then have lv: "leaves u" by (auto simp: leaves_def)
    with l u(1) have "leaving c n" by (rule leaving_step)
    with u lv applies_frame(1) [OF u(1)]
    show "leaving c n \<and> (\<exists>u. databaseUndoUpdate n = databaseUndoUpdate m @ [u] \<and> ?Q k u)" by blast
  qed
  with assms(3) show "leaving c m" "list_all2 ?Q ws (databaseUndoUpdate m)" by auto
qed

lemma fold_expire: "fold_while expire_callback xs (Inr n) = foldE (\<lambda>(k, v). expire_ticket k v) xs n"
proof (induction xs arbitrary: n)
  case (Cons x xs)
  then show ?case
    by (cases x; cases "expire_ticket (fst x) (snd x) n") (auto simp: expire_callback_def)
qed simp

definition expiring :: "Node \<Rightarrow> (tkey \<times> tvalue) list" where
  "expiring n = filter (\<lambda>(k, v). Height v < toExpireHeight n + 1) (entries (liveTickets n))"

lemma connect_expired_fold:
  "ticket_wf (liveTickets n) \<Longrightarrow> connect_expired n = foldE (\<lambda>(k, v). expire_ticket k v) (expiring n) n"
  by (simp add: connect_expired_def ForEachByHeight_fold fold_expire expiring_def)

text \<open>A step that takes a ticket out of the live pool leaves a smaller live pool.\<close>

lemma leaves_live: "applies u m n \<Longrightarrow> leaves u \<Longrightarrow> cell n LivePool \<subseteq>\<^sub>m cell m LivePool"
  by (auto simp: applies_def leaves_def map_le_def)

lemma connect_expiring:
  assumes ex: "connect_expired m = Inr n" and lv: "leaving c m"
  shows "leaving c n" and "\<exists>us. databaseUndoUpdate n = databaseUndoUpdate m @ us \<and>
     list_all2 (\<lambda>(k, v) u. TicketHash u = k \<and> u_Missed u \<and> leaves u \<and> u_Expired u) (expiring m) us"
proof -
  let ?Q = "\<lambda>(k, v) u. TicketHash u = k \<and> u_Missed u \<and> leaves u \<and> u_Expired u"
  let ?I = "\<lambda>n. leaving c n \<and> cell n LivePool \<subseteq>\<^sub>m cell m LivePool"
  note wf = pools_okD(1) [OF leaving_pools [OF lv]]
  have "?I n \<and> (\<exists>us. databaseUndoUpdate n = databaseUndoUpdate m @ us \<and> list_all2 ?Q (expiring m) us)"
  proof (rule foldE_steps [where I = ?I, OF ex [unfolded connect_expired_fold [OF wf]]])
    fix x m' n' assume x: "x \<in> set (expiring m)" and I: "?I m'"
      and st: "(\<lambda>(k, v). expire_ticket k v) x m' = Inr n'"
    obtain k v where kv: "x = (k, v)" by fastforce
    with x have "(k, v) \<in> set (entries (liveTickets m))" by (simp add: expiring_def)
    with tt.lookup_mem [OF wf] have m: "cell m LivePool k = Some v" by (simp add: cell_def)
    from st kv have e: "expire_ticket k v m' = Inr n'" by simp
    then have "k \<in> dom (cell m' LivePool)" by (auto simp: expire_ticket_def safe_simps Let_def cell_def)
    with I m have "cell m' LivePool k = Some v" by (auto simp: map_le_def dom_def)
    then have "Get (liveTickets m') k = Some v" by (simp add: cell_def)
    from expire_ticket_applies [OF leaving_pools [of c] e this] I obtain u where
      u: "applies u m' n'" "TicketHash u = k" "u_Missed u" "\<not> u_Revoked u" "u_Expired u" by blast
    then have l: "leaves u" by (simp add: leaves_def)
    have "leaving c n'" using I u(1) l by (blast intro: leaving_step)
    moreover have "cell n' LivePool \<subseteq>\<^sub>m cell m LivePool"
      using leaves_live [OF u(1) l] I by (blast intro: map_le_trans)
    ultimately show "?I n' \<and> (\<exists>u. databaseUndoUpdate n' = databaseUndoUpdate m' @ [u] \<and> ?Q x u)"
      using u l kv applies_frame(1) [OF u(1)] by auto
  qed (use lv in simp)
  then show "leaving c n" "\<exists>us. databaseUndoUpdate n = databaseUndoUpdate m @ us \<and>
     list_all2 ?Q (expiring m) us" by blast+
qed

lemma connect_revocations:
  assumes rv: "foldE connect_revoked ks m = Inr n" and eff: "block_effect c m"
    and missed: "set ks \<subseteq> dom (cell c MissedPool)"
  shows "block_effect c n" and "\<exists>us. databaseUndoUpdate n = databaseUndoUpdate m @ us \<and>
     list_all2 (\<lambda>k u. TicketHash u = k \<and> u_Missed u \<and> u_Revoked u) ks us"
proof -
  let ?Q = "\<lambda>k u. TicketHash u = k \<and> u_Missed u \<and> u_Revoked u"
  have "block_effect c n \<and> (\<exists>us. databaseUndoUpdate n = databaseUndoUpdate m @ us \<and> list_all2 ?Q ks us)"
  proof (rule foldE_steps [where I = "block_effect c", OF rv eff])
    fix k m n assume k: "k \<in> set ks" and e: "block_effect c m" and st: "connect_revoked k m = Inr n"
    from e have "pools_ok m" by (simp add: block_effect_def)
    from connect_revoked_applies [OF this st] obtain u where
      u: "applies u m n" "TicketHash u = k" "u_Missed u" "u_Revoked u" by blast
    have "block_effect c n"
    proof (rule block_effect_step [OF e u(1)])
      fix u' p assume "touches u p" "old_cell u' p = cell c p (TicketHash u)" "new_cell u' p = old_cell u p"
      with u(2-4) k missed show False by (cases p) (auto split: if_splits)
    qed
    with u applies_frame(1) [OF u(1)]
    show "block_effect c n \<and> (\<exists>u. databaseUndoUpdate n = databaseUndoUpdate m @ [u] \<and> ?Q k u)" by blast
  qed
  then show "block_effect c n" "\<exists>us. databaseUndoUpdate n = databaseUndoUpdate m @ us \<and> list_all2 ?Q ks us"
    by blast+
qed

lemma connect_additions:
  assumes nw: "foldE connect_new ks m = Inr n" and eff: "block_effect c m"
    and new: "set ks \<inter> dom (cell c LivePool) = {}"
  shows "block_effect c n" and "\<exists>us. databaseUndoUpdate n = databaseUndoUpdate m @ us \<and>
     list_all2 (\<lambda>k u. TicketHash u = k \<and> TicketHeight u = n_height c \<and>
       \<not> u_Missed u \<and> \<not> u_Revoked u \<and> \<not> u_Spent u) ks us"
proof -
  let ?Q = "\<lambda>k u. TicketHash u = k \<and> TicketHeight u = n_height c \<and> \<not> u_Missed u \<and> \<not> u_Revoked u \<and> \<not> u_Spent u"
  have "block_effect c n \<and> (\<exists>us. databaseUndoUpdate n = databaseUndoUpdate m @ us \<and> list_all2 ?Q ks us)"
  proof (rule foldE_steps [where I = "block_effect c", OF nw eff])
    fix k m n assume k: "k \<in> set ks" and e: "block_effect c m" and st: "connect_new k m = Inr n"
    from e have "pools_ok m" and h: "n_height m = n_height c" by (auto simp: block_effect_def node_frame_def)
    from connect_new_applies [OF this(1) st] obtain u where
      u: "applies u m n" "TicketHash u = k" "TicketHeight u = n_height m" "\<not> u_Missed u" "\<not> u_Revoked u" "\<not> u_Spent u"
      by blast
    from k new have "cell c LivePool k = None" by auto
    have "block_effect c n"
    proof (rule block_effect_step [OF e u(1)])
      fix u' p assume "touches u p" "old_cell u' p = cell c p (TicketHash u)" "new_cell u' p = old_cell u p"
      with u(2-) \<open>cell c LivePool k = None\<close> show False by (cases p) (auto split: if_splits)
    qed
    with u h applies_frame(1) [OF u(1)]
    show "block_effect c n \<and> (\<exists>u. databaseUndoUpdate n = databaseUndoUpdate m @ [u] \<and> ?Q k u)" by metis
  qed
  then show "block_effect c n" "\<exists>us. databaseUndoUpdate n = databaseUndoUpdate m @ us \<and> list_all2 ?Q ks us"
    by blast+
qed

lemma block_effectD:
  assumes "block_effect c m"
  shows "pools_ok m" "node_frame m = node_frame c"
    and "u \<in> set (databaseUndoUpdate m) \<Longrightarrow> undo_ok u"
    and "u \<in> set (databaseUndoUpdate m) \<Longrightarrow> touches u p \<Longrightarrow> cell c p (TicketHash u) = old_cell u p"
    and "u \<in> set (databaseUndoUpdate m) \<Longrightarrow> touches u p \<Longrightarrow> cell m p (TicketHash u) = new_cell u p"
    and "(\<And>u. u \<in> set (databaseUndoUpdate m) \<Longrightarrow> touches u p \<Longrightarrow> TicketHash u \<noteq> k) \<Longrightarrow> cell m p k = cell c p k"
  using assms by (auto simp: block_effect_def)

section \<open>The undo data of a block\<close>

definition enabled :: "Node \<Rightarrow> bool" where
  "enabled node \<longleftrightarrow> word_of_int (StakeEnabledHeight (n_params node)) \<le> n_height node + 1"

text \<open>The tickets that expire with the child of a node: not younger than the limit.\<close>

definition expires :: "Node \<Rightarrow> hash \<Rightarrow> bool" where
  "expires node k \<longleftrightarrow> k \<notin> set (nextWinners node) \<and> (case Get (liveTickets node) k of None \<Rightarrow> False
     | Some v \<Rightarrow> unat (Height v) \<le> unat (n_height node + 1) - unat (TicketExpiry (n_params node)))"

definition is_winner :: "UndoTicketData \<Rightarrow> bool" where
  "is_winner u \<longleftrightarrow> leaves u \<and> \<not> u_Expired u"

definition block_undo :: "Node \<Rightarrow> hash list \<Rightarrow> hash list \<Rightarrow> hash list \<Rightarrow> UndoTicketData list \<Rightarrow> bool" where
  "block_undo node voted revoked new us \<longleftrightarrow> (\<exists>ws es rs ns. us = ws @ es @ rs @ ns \<and>
     list_all2 (\<lambda>k u. TicketHash u = k \<and> TicketHeight u = n_height node + 1 \<and>
       \<not> u_Missed u \<and> \<not> u_Revoked u \<and> \<not> u_Spent u) new ns \<and>
     (if enabled node then
        set voted \<subseteq> set (nextWinners node) \<and>
        list_all2 (\<lambda>k u. TicketHash u = k \<and> is_winner u \<and> (u_Spent u \<longleftrightarrow> k \<in> set voted)) (nextWinners node) ws \<and>
        (\<forall>k. k \<in> TicketHash ` set es \<longleftrightarrow> expires node k) \<and>
        (\<forall>u \<in> set es. u_Missed u \<and> leaves u \<and> u_Expired u) \<and>
        list_all2 (\<lambda>k u. TicketHash u = k \<and> u_Missed u \<and> u_Revoked u) revoked rs
      else ws = [] \<and> es = [] \<and> rs = []))"

lemma list_all2_image:
  "list_all2 (\<lambda>k u. f u = k \<and> Q k u) ks us \<Longrightarrow> set ks = f ` set us \<and> (\<forall>u \<in> set us. Q (f u) u)"
  by (induction rule: list_all2_induct) auto

lemma unat_lt32: "unat (w :: uint32) < 4294967296"
  using unsigned_less [of w] by simp

lemma toExpire_nat:
  assumes "0 < TicketExpiry (n_params n)"
  shows "h < toExpireHeight n + 1 \<longleftrightarrow> unat h \<le> unat (n_height n) - unat (TicketExpiry (n_params n))"
proof -
  have eq: "unat (toExpireHeight n) = unat (n_height n) - unat (TicketExpiry (n_params n))"
    by (auto simp: toExpireHeight_def unat_sub word_less_nat_alt word_le_nat_alt)
  have "0 < unat (TicketExpiry (n_params n))" using assms by (simp add: word_less_nat_alt)
  then have "unat (toExpireHeight n) < 4294967295"
    using unat_lt32 [of "n_height n"] unfolding eq by arith
  then have "unat (toExpireHeight n + 1) = unat (toExpireHeight n) + 1"
    by (simp add: unat_word_ariths)
  then show ?thesis by (simp add: word_less_nat_alt eq less_Suc_eq_le)
qed

lemma expiring_iff:
  assumes "leaving c m" and "list_all2 (\<lambda>k u. TicketHash u = k \<and> leaves u \<and> \<not> u_Expired u \<and> Q k u)
      (nextWinners node) (databaseUndoUpdate m)"
    and "c = childNode node new" and "0 < TicketExpiry (n_params node)"
  shows "k \<in> fst ` set (expiring m) \<longleftrightarrow> expires node k"
proof -
  note D = block_effectD [OF conjunct1 [OF assms(1) [unfolded leaving_def]]]
  from D(2) assms(3) have fr: "n_height m = n_height node + 1" "n_params m = n_params node"
    by (auto simp: node_frame_def childNode_def)
  from list_all2_image [OF assms(2)] have w: "set (nextWinners node) = TicketHash ` set (databaseUndoUpdate m)"
    and l: "\<And>u. u \<in> set (databaseUndoUpdate m) \<Longrightarrow> leaves u" by auto
  have none: "Get (liveTickets m) k = None" if "k \<in> set (nextWinners node)"
    using that l D(5) [where p = LivePool] by (force simp: w leaves_def cell_def)
  have same: "Get (liveTickets m) k = Get (liveTickets node) k" if "k \<notin> set (nextWinners node)"
    using that D(6) [where p = LivePool and k = k] by (auto simp: w assms(3) cell_def childNode_def)
  have "k \<in> fst ` set (expiring m) \<longleftrightarrow> (\<exists>v. (k, v) \<in> set (expiring m))" by force
  also have "\<dots> \<longleftrightarrow> (\<exists>v. Get (liveTickets m) k = Some v \<and> Height v < toExpireHeight m + 1)"
    using tt.lookup_mem [OF pools_okD(1) [OF D(1)], of k] by (auto simp: expiring_def)
  also have "\<dots> \<longleftrightarrow> expires node k"
    by (cases "k \<in> set (nextWinners node)")
      (auto simp: none same expires_def toExpire_nat fr assms(4) split: option.split)
  finally show ?thesis .
qed

lemma childNode_fields [simp]:
  "n_height (childNode node new) = n_height node + 1" "n_params (childNode node new) = n_params node"
  "pool_of (childNode node new) = pool_of node" "cell (childNode node new) = cell node"
  "databaseUndoUpdate (childNode node new) = []"
proof -
  show pool: "pool_of (childNode node new) = pool_of node"
  proof
    fix p show "pool_of (childNode node new) p = pool_of node p" by (cases p) (simp_all add: childNode_def)
  qed
  then show "cell (childNode node new) = cell node" by (simp add: cell_def fun_eq_iff)
qed (simp_all add: childNode_def)

lemma connect_pools_effect:
  assumes con: "connect_pools node voted revoked new = Inr m" and ok: "pools_ok node"
    and fresh: "set new \<inter> dom (cell node LivePool) = {}" and rev: "set revoked \<subseteq> dom (cell node MissedPool)"
    and exp: "0 < TicketExpiry (n_params node)"
  shows "block_effect (childNode node new) m \<and> block_undo node voted revoked new (databaseUndoUpdate m)"
proof -
  let ?c = "childNode node new"
  have c: "pools_ok ?c" using ok by (simp add: pools_ok_def)
  then have eff: "block_effect ?c ?c" "leaving ?c ?c" by (simp_all add: block_effect_refl leaving_def)
  have new: "set new \<inter> dom (cell ?c LivePool) = {}" and mis: "set revoked \<subseteq> dom (cell ?c MissedPool)"
    using fresh rev by simp_all
  show ?thesis
  proof (cases "enabled node")
    case False
    with con have "foldE connect_new new ?c = Inr m" by (simp add: connect_pools_def enabled_def)
    from connect_additions [OF this eff(1) new] False show ?thesis
      by (auto simp: block_undo_def)
  next
    case True
    with con obtain c1 c2 c3 where steps: "foldE (connect_winner voted) (nextWinners node) ?c = Inr c1"
        "connect_expired c1 = Inr c2" "foldE connect_revoked revoked c2 = Inr c3" "foldE connect_new new c3 = Inr m"
      and voted: "set voted \<subseteq> set (nextWinners node)"
      by (auto simp: connect_pools_def enabled_def bindE_eq_Inr_iff list_all_iff split: if_splits)
    note w = connect_winners [OF steps(1) eff(2) childNode_fields(5)]
    note iff = expiring_iff [OF w refl exp]
    from connect_expiring [OF steps(2) w(1)] obtain es where e: "leaving ?c c2"
      "databaseUndoUpdate c2 = databaseUndoUpdate c1 @ es"
      "list_all2 (\<lambda>(k, v) u. TicketHash u = k \<and> u_Missed u \<and> leaves u \<and> u_Expired u) (expiring c1) es" by blast
    from e(3) have es: "fst ` set (expiring c1) = TicketHash ` set es"
      "\<forall>u \<in> set es. u_Missed u \<and> leaves u \<and> u_Expired u"
      by (induction rule: list_all2_induct) auto
    from e(1) have "block_effect ?c c2" by (simp add: leaving_def)
    from connect_revocations [OF steps(3) this mis] obtain rs where r: "block_effect ?c c3"
      "databaseUndoUpdate c3 = databaseUndoUpdate c2 @ rs"
      "list_all2 (\<lambda>k u. TicketHash u = k \<and> u_Missed u \<and> u_Revoked u) revoked rs" by blast
    from connect_additions [OF steps(4) r(1) new] obtain ns where n: "block_effect ?c m"
      "databaseUndoUpdate m = databaseUndoUpdate c3 @ ns"
      "list_all2 (\<lambda>k u. TicketHash u = k \<and> TicketHeight u = n_height ?c \<and>
       \<not> u_Missed u \<and> \<not> u_Revoked u \<and> \<not> u_Spent u) new ns" by blast
    have ws: "list_all2 (\<lambda>k u. TicketHash u = k \<and> is_winner u \<and> (u_Spent u \<longleftrightarrow> k \<in> set voted)) (nextWinners node) (databaseUndoUpdate c1)"
      using w(2) by (rule list_all2_mono) (simp add: is_winner_def)
    have "databaseUndoUpdate m = databaseUndoUpdate c1 @ es @ rs @ ns" by (simp add: n r e)
    then have "block_undo node voted revoked new (databaseUndoUpdate m)"
      unfolding block_undo_def using True voted ws iff es r(3) n(3)
      by (intro exI [of _ "databaseUndoUpdate c1"] exI [of _ es] exI [of _ rs] exI [of _ ns]) simp
    with n(1) show ?thesis by blast
  qed
qed

end
