(* ===== verification/StakeUndo.thy ===== *)
theory StakeUndo
  imports StakeNode
begin

text \<open>
  The properties of the stake nodes of \<open>StakeNode\<close>: what the pools hold
  after a block is connected, the invariant of every node of a chain, with which
  outcome a block connects, that disconnecting a block restores the node of its
  parent, and which blocks cannot be disconnected.
\<close>

section \<open>The contents of the pools after a block\<close>

lemma block_undo_sets:
  assumes "block_undo node voted revoked new us" and "u \<in> set us"
  shows "TicketHash u \<in> set new \<and> TicketHeight u = n_height node + 1 \<and> \<not> u_Missed u \<and> \<not> u_Revoked u \<and> \<not> u_Spent u \<or>
    enabled node \<and> TicketHash u \<in> set (nextWinners node) \<and> is_winner u \<and> (u_Spent u \<longleftrightarrow> TicketHash u \<in> set voted) \<or>
    enabled node \<and> expires node (TicketHash u) \<and> u_Missed u \<and> leaves u \<and> u_Expired u \<or>
    enabled node \<and> TicketHash u \<in> set revoked \<and> u_Missed u \<and> u_Revoked u"
proof -
  from assms(1) obtain ws es rs ns where us: "us = ws @ es @ rs @ ns"
    and ns: "list_all2 (\<lambda>k u. TicketHash u = k \<and> TicketHeight u = n_height node + 1 \<and>
       \<not> u_Missed u \<and> \<not> u_Revoked u \<and> \<not> u_Spent u) new ns"
    and en: "if enabled node then
        set voted \<subseteq> set (nextWinners node) \<and>
        list_all2 (\<lambda>k u. TicketHash u = k \<and> is_winner u \<and> (u_Spent u \<longleftrightarrow> k \<in> set voted)) (nextWinners node) ws \<and>
        (\<forall>k. k \<in> TicketHash ` set es \<longleftrightarrow> expires node k) \<and>
        (\<forall>u \<in> set es. u_Missed u \<and> leaves u \<and> u_Expired u) \<and>
        list_all2 (\<lambda>k u. TicketHash u = k \<and> u_Missed u \<and> u_Revoked u) revoked rs
      else ws = [] \<and> es = [] \<and> rs = []"
    unfolding block_undo_def by blast
  show ?thesis
  proof (cases "enabled node")
    case True
    with en have ws: "list_all2 (\<lambda>k u. TicketHash u = k \<and> is_winner u \<and> (u_Spent u \<longleftrightarrow> k \<in> set voted)) (nextWinners node) ws"
      and es: "\<forall>k. k \<in> TicketHash ` set es \<longleftrightarrow> expires node k" "\<forall>u \<in> set es. u_Missed u \<and> leaves u \<and> u_Expired u"
      and rs: "list_all2 (\<lambda>k u. TicketHash u = k \<and> u_Missed u \<and> u_Revoked u) revoked rs" by simp_all
    from assms(2) consider "u \<in> set ws" | "u \<in> set es" | "u \<in> set rs" | "u \<in> set ns" by (auto simp: us)
    then show ?thesis
      by cases (use True es list_all2_image [OF ws] list_all2_image [OF rs] list_all2_image [OF ns] in auto)
  next
    case False
    with en us assms(2) have "u \<in> set ns" by simp
    then show ?thesis using list_all2_image [OF ns] by auto
  qed
qed

lemma block_undo_hashes:
  assumes "block_undo node voted revoked new us"
  shows "k \<in> set new \<Longrightarrow> \<exists>u \<in> set us. TicketHash u = k \<and> \<not> u_Missed u \<and> \<not> u_Revoked u \<and> \<not> u_Spent u \<and>
      TicketHeight u = n_height node + 1"
    and "enabled node \<Longrightarrow> k \<in> set (nextWinners node) \<Longrightarrow>
      \<exists>u \<in> set us. TicketHash u = k \<and> is_winner u \<and> (u_Spent u \<longleftrightarrow> k \<in> set voted)"
    and "enabled node \<Longrightarrow> expires node k \<Longrightarrow>
      \<exists>u \<in> set us. TicketHash u = k \<and> u_Missed u \<and> leaves u \<and> u_Expired u"
    and "enabled node \<Longrightarrow> k \<in> set revoked \<Longrightarrow> \<exists>u \<in> set us. TicketHash u = k \<and> u_Missed u \<and> u_Revoked u"
    and "map TicketHash (filter is_winner us) = (if enabled node then nextWinners node else [])"
proof -
  from assms obtain ws es rs ns where us: "us = ws @ es @ rs @ ns"
    and ns: "list_all2 (\<lambda>k u. TicketHash u = k \<and> TicketHeight u = n_height node + 1 \<and>
       \<not> u_Missed u \<and> \<not> u_Revoked u \<and> \<not> u_Spent u) new ns"
    and en: "if enabled node then
        set voted \<subseteq> set (nextWinners node) \<and>
        list_all2 (\<lambda>k u. TicketHash u = k \<and> is_winner u \<and> (u_Spent u \<longleftrightarrow> k \<in> set voted)) (nextWinners node) ws \<and>
        (\<forall>k. k \<in> TicketHash ` set es \<longleftrightarrow> expires node k) \<and>
        (\<forall>u \<in> set es. u_Missed u \<and> leaves u \<and> u_Expired u) \<and>
        list_all2 (\<lambda>k u. TicketHash u = k \<and> u_Missed u \<and> u_Revoked u) revoked rs
      else ws = [] \<and> es = [] \<and> rs = []"
    unfolding block_undo_def by blast
  note n = list_all2_image [OF ns]
  show "\<exists>u \<in> set us. TicketHash u = k \<and> \<not> u_Missed u \<and> \<not> u_Revoked u \<and> \<not> u_Spent u \<and>
      TicketHeight u = n_height node + 1" if "k \<in> set new"
    using that n by (auto simp: us)
  have nns: "filter is_winner ns = []" using n by (auto simp: filter_empty_conv is_winner_def leaves_def)
  show "map TicketHash (filter is_winner us) = (if enabled node then nextWinners node else [])"
  proof (cases "enabled node")
    case True
    with en have ws: "list_all2 (\<lambda>k u. TicketHash u = k \<and> is_winner u \<and> (u_Spent u \<longleftrightarrow> k \<in> set voted)) (nextWinners node) ws"
      and es: "\<forall>u \<in> set es. u_Missed u \<and> leaves u \<and> u_Expired u"
      and rs: "list_all2 (\<lambda>k u. TicketHash u = k \<and> u_Missed u \<and> u_Revoked u) revoked rs" by simp_all
    from ws have "map TicketHash (filter is_winner ws) = nextWinners node"
      by (induction rule: list_all2_induct) auto
    moreover have "filter is_winner es = []" using es by (auto simp: filter_empty_conv is_winner_def)
    moreover have "filter is_winner rs = []" using list_all2_image [OF rs]
      by (auto simp: filter_empty_conv is_winner_def leaves_def)
    ultimately show ?thesis using True nns by (simp add: us)
  qed (use en us nns in simp)
  show "\<exists>u \<in> set us. TicketHash u = k \<and> is_winner u \<and> (u_Spent u \<longleftrightarrow> k \<in> set voted)"
    if e: "enabled node" and k: "k \<in> set (nextWinners node)"
  proof -
    from en e have ws: "list_all2 (\<lambda>k u. TicketHash u = k \<and> is_winner u \<and> (u_Spent u \<longleftrightarrow> k \<in> set voted)) (nextWinners node) ws"
      by simp
    show ?thesis using list_all2_image [OF ws] k by (force simp: us)
  qed
  show "\<exists>u \<in> set us. TicketHash u = k \<and> u_Missed u \<and> leaves u \<and> u_Expired u" if "enabled node" "expires node k"
  proof -
    have "k \<in> TicketHash ` set es" using en that by simp
    with en that(1) show ?thesis by (force simp: us)
  qed
  show "\<exists>u \<in> set us. TicketHash u = k \<and> u_Missed u \<and> u_Revoked u" if e: "enabled node" and k: "k \<in> set revoked"
  proof -
    from en e have rs: "list_all2 (\<lambda>k u. TicketHash u = k \<and> u_Missed u \<and> u_Revoked u) revoked rs" by simp
    show ?thesis using list_all2_image [OF rs] k by (force simp: us)
  qed
qed

definition newValue :: "uint32 \<Rightarrow> tvalue" where
  "newValue h = \<lparr>Height = h, Missed = False, Revoked = False, Spent = False, Expired = False\<rparr>"

lemma live_after:
  assumes eff: "block_effect (childNode node new) m" and und: "block_undo node voted revoked new (databaseUndoUpdate m)"
  shows "cell m LivePool k =
    (if k \<in> set new then Some (newValue (n_height node + 1))
     else if enabled node \<and> (k \<in> set (nextWinners node) \<or> expires node k) then None
     else cell node LivePool k)"
proof -
  note D = block_effectD [OF eff] and U = block_undo_hashes(1-4) [OF und, of k]
  have new: "cell m LivePool k = Some (newValue (n_height node + 1))" if "k \<in> set new"
  proof -
    from U(1) [OF that] obtain u where u: "u \<in> set (databaseUndoUpdate m)" "TicketHash u = k" "\<not> u_Missed u"
      "\<not> u_Revoked u" "\<not> u_Spent u" "TicketHeight u = n_height node + 1" by blast
    with D(3) [OF u(1)] D(5) [OF u(1), of LivePool] show ?thesis
      by (simp add: undo_ok_def newValue_def value_of_undo_def)
  qed
  have gone: "cell m LivePool k = None" if "enabled node" "k \<in> set (nextWinners node) \<or> expires node k"
  proof -
    from U(2,3) that obtain u where u: "u \<in> set (databaseUndoUpdate m)" "TicketHash u = k" "leaves u"
      unfolding is_winner_def by blast
    with D(5) [OF u(1), of LivePool] show ?thesis by (auto simp: leaves_def)
  qed
  have same: "cell m LivePool k = cell node LivePool k"
    if "k \<notin> set new" "\<not> (enabled node \<and> (k \<in> set (nextWinners node) \<or> expires node k))"
    using D(6) [of LivePool k] block_undo_sets [OF und] that by auto
  from new gone same show ?thesis by auto
qed

lemma value_back:
  assumes "Some v = Some ((value_of_undo u)\<lparr>Missed := False, Expired := False\<rparr>)" and "undo_ok u" and "u_Missed u"
  shows "value_of_undo u = v\<lparr>Missed := True, Expired := u_Expired u\<rparr>"
  using assms by (auto simp: value_of_undo_def)

lemma missed_after:
  assumes eff: "block_effect (childNode node new) m" and und: "block_undo node voted revoked new (databaseUndoUpdate m)"
    and ok: "pools_ok node" and en: "enabled node"
  shows "cell m MissedPool k =
    (if k \<in> set revoked then None
     else if k \<in> set (nextWinners node) \<and> k \<notin> set voted then
       map_option (\<lambda>v. v\<lparr>Missed := True\<rparr>) (cell node LivePool k)
     else if expires node k then map_option (\<lambda>v. v\<lparr>Missed := True, Expired := True\<rparr>) (cell node LivePool k)
     else cell node MissedPool k)"
proof -
  note D = block_effectD [OF eff, unfolded childNode_fields] and U = block_undo_hashes(1-4) [OF und, of k]
  have rev: "cell m MissedPool k = None" if "k \<in> set revoked"
    using U(4) [OF en that] D(5) [where p = MissedPool] by auto
  have moved: "cell m MissedPool k = map_option (\<lambda>v. v\<lparr>Missed := True, Expired := u_Expired u\<rparr>) (cell node LivePool k)"
    if "u \<in> set (databaseUndoUpdate m)" "TicketHash u = k" "u_Missed u" "\<not> u_Revoked u" for u
  proof -
    from D(4) [OF that(1), of LivePool] that have "cell node LivePool k = Some ((value_of_undo u)\<lparr>Missed := False, Expired := False\<rparr>)"
      by simp
    with value_back [OF _ D(3) [OF that(1)] that(3)]
    have "map_option (\<lambda>v. v\<lparr>Missed := True, Expired := u_Expired u\<rparr>) (cell node LivePool k) = Some (value_of_undo u)" by auto
    with D(5) [OF that(1), of MissedPool] that show ?thesis by (simp del: map_option_eq_Some)
  qed
  have live: "map_option (\<lambda>v. v\<lparr>Missed := True, Expired := False\<rparr>) (cell node LivePool k) =
      map_option (\<lambda>v. v\<lparr>Missed := True\<rparr>) (cell node LivePool k)"
    using ok by (auto simp: pools_ok_def all_pool cell_def intro!: option.map_cong0)
  have win: "cell m MissedPool k = map_option (\<lambda>v. v\<lparr>Missed := True\<rparr>) (cell node LivePool k)"
    if "k \<in> set (nextWinners node)" "k \<notin> set voted"
    using U(2) [OF en that(1)] that(2) moved live by (force simp: is_winner_def leaves_def)
  have exp: "cell m MissedPool k = map_option (\<lambda>v. v\<lparr>Missed := True, Expired := True\<rparr>) (cell node LivePool k)"
    if "expires node k"
    using U(3) [OF en that] moved by (force simp: leaves_def)
  have same: "cell m MissedPool k = cell node MissedPool k"
    if "k \<notin> set revoked" "\<not> (k \<in> set (nextWinners node) \<and> k \<notin> set voted)" "\<not> expires node k"
  proof (rule D(6))
    fix u assume u: "u \<in> set (databaseUndoUpdate m)" "touches u MissedPool"
    then show "TicketHash u \<noteq> k"
      using block_undo_sets [OF und u(1)] that D(3) [OF u(1)] by (auto simp: undo_ok_def)
  qed
  from rev win exp same show ?thesis by auto
qed

lemma revoked_after:
  assumes eff: "block_effect (childNode node new) m" and und: "block_undo node voted revoked new (databaseUndoUpdate m)"
  shows "cell m RevokedPool k =
    (if enabled node \<and> k \<in> set revoked then map_option (\<lambda>v. v\<lparr>Revoked := True\<rparr>) (cell node MissedPool k)
     else cell node RevokedPool k)"
proof -
  note D = block_effectD [OF eff, unfolded childNode_fields]
  have "cell m RevokedPool k = map_option (\<lambda>v. v\<lparr>Revoked := True\<rparr>) (cell node MissedPool k)"
    if "enabled node" "k \<in> set revoked"
  proof -
    from block_undo_hashes(4) [OF und that] obtain u where
      u: "u \<in> set (databaseUndoUpdate m)" "TicketHash u = k" "u_Missed u" "u_Revoked u" by blast
    from D(4) [OF u(1), of MissedPool] D(5) [OF u(1), of RevokedPool] u show ?thesis
      by (simp add: value_of_undo_def)
  qed
  moreover have "cell m RevokedPool k = cell node RevokedPool k" if "\<not> (enabled node \<and> k \<in> set revoked)"
  proof (rule D(6))
    fix u assume u: "u \<in> set (databaseUndoUpdate m)" "touches u RevokedPool"
    then show "TicketHash u \<noteq> k"
      using block_undo_sets [OF und u(1)] that by (auto simp: is_winner_def leaves_def)
  qed
  ultimately show ?thesis by simp
qed

lemma missed_before_stake:
  assumes eff: "block_effect (childNode node new) m" and und: "block_undo node voted revoked new (databaseUndoUpdate m)"
    and "\<not> enabled node"
  shows "cell m MissedPool = cell node MissedPool"
proof
  fix k show "cell m MissedPool k = cell node MissedPool k"
    using block_effectD(6) [OF eff, of MissedPool k] block_undo_sets [OF und] assms(3) by auto
qed

section \<open>Undoing a block\<close>

text \<open>
  The interface of the functions that replay the undo data of a block, on a
  node or on the database, forwards or backwards: on a state whose cells are as
  \<open>src\<close> says for the entry, a step succeeds and sets them to \<open>dst\<close>.
\<close>

locale undo_replay =
  fixes step :: "UndoTicketData \<Rightarrow> 's \<Rightarrow> 'e + 's"
    and cells :: "'s \<Rightarrow> pool \<Rightarrow> hash \<Rightarrow> tvalue option"
    and inv :: "'s \<Rightarrow> bool"
    and rest :: "'s \<Rightarrow> 'r"
    and rest_step :: "UndoTicketData \<Rightarrow> 'r \<Rightarrow> 'r"
    and src :: "UndoTicketData \<Rightarrow> pool \<Rightarrow> tvalue option"
    and dst :: "UndoTicketData \<Rightarrow> pool \<Rightarrow> tvalue option"
    and ok :: "UndoTicketData \<Rightarrow> bool"
  assumes step_ok: "ok u \<Longrightarrow> inv s \<Longrightarrow> (\<And>p. touches u p \<Longrightarrow> cells s p (TicketHash u) = src u p) \<Longrightarrow>
    \<exists>s'. step u s = Inr s' \<and> inv s' \<and>
      (\<forall>p. cells s' p = (if touches u p then (cells s p)(TicketHash u := dst u p) else cells s p)) \<and>
      rest s' = rest_step u (rest s)"
begin

lemma replay:
  assumes "sorted_wrt apart us" and "inv s"
    and "\<And>u p. u \<in> set us \<Longrightarrow> ok u \<and> (touches u p \<longrightarrow> cells s p (TicketHash u) = src u p)"
  shows "\<exists>s'. foldE step us s = Inr s' \<and> inv s' \<and> rest s' = fold rest_step us (rest s) \<and>
     (\<forall>u \<in> set us. \<forall>p. touches u p \<longrightarrow> cells s' p (TicketHash u) = dst u p) \<and>
     (\<forall>p k. (\<forall>u \<in> set us. touches u p \<longrightarrow> TicketHash u \<noteq> k) \<longrightarrow> cells s' p k = cells s p k)"
  using assms
proof (induction us arbitrary: s)
  case (Cons u us)
  from step_ok [of u s] Cons.prems obtain m where m: "step u s = Inr m" "inv m"
      "\<And>p. cells m p = (if touches u p then (cells s p)(TicketHash u := dst u p) else cells s p)"
      "rest m = rest_step u (rest s)"
    by auto
  have ap: "TicketHash u' \<noteq> TicketHash u" if "u' \<in> set us" "touches u' p" "touches u p" for u' p
    using Cons.prems(1) that by (auto simp: apart_def)
  have pre: "ok u' \<and> (touches u' p \<longrightarrow> cells m p (TicketHash u') = src u' p)" if "u' \<in> set us" for u' p
    using Cons.prems(3) [of u' p] ap [OF that, of p] that m(3) [of p] by auto
  have "sorted_wrt apart us" using Cons.prems(1) by simp
  from Cons.IH [OF this m(2) pre] obtain n where n: "foldE step us m = Inr n" "inv n"
      "rest n = fold rest_step us (rest m)"
      "\<And>u p. u \<in> set us \<Longrightarrow> touches u p \<Longrightarrow> cells n p (TicketHash u) = dst u p"
      "\<And>p k. (\<forall>u \<in> set us. touches u p \<longrightarrow> TicketHash u \<noteq> k) \<Longrightarrow> cells n p k = cells m p k"
    by blast
  have "cells n p (TicketHash u) = dst u p" if "touches u p" for p
    using n(5) [of p "TicketHash u"] ap that m(3) [of p] by auto
  moreover have "cells n p k = cells s p k" if "\<forall>u \<in> set (u # us). touches u p \<longrightarrow> TicketHash u \<noteq> k" for p k
    using n(5) [of p k] that m(3) [of p] by auto
  moreover have "foldE step (u # us) s = Inr n" by (simp add: m(1) n(1))
  ultimately show ?case using n(2,3,4) m(4) by (intro exI [of _ n]) auto
qed simp

text \<open>The cells that result are known if those of the target are.\<close>

lemma replay_to:
  assumes "sorted_wrt apart us" and "inv s"
    and "\<And>u p. u \<in> set us \<Longrightarrow> ok u"
    and "\<And>u p. u \<in> set us \<Longrightarrow> touches u p \<Longrightarrow> cells s p (TicketHash u) = src u p"
    and "\<And>u p. u \<in> set us \<Longrightarrow> touches u p \<Longrightarrow> T p (TicketHash u) = dst u p"
    and "\<And>p k. (\<And>u. u \<in> set us \<Longrightarrow> touches u p \<Longrightarrow> TicketHash u \<noteq> k) \<Longrightarrow> T p k = cells s p k"
  shows "\<exists>s'. foldE step us s = Inr s' \<and> inv s' \<and> rest s' = fold rest_step us (rest s) \<and> cells s' = T"
proof -
  from replay [OF assms(1,2)] assms(3,4) obtain s' where s': "foldE step us s = Inr s'" "inv s'"
      "rest s' = fold rest_step us (rest s)"
      "\<And>u p. u \<in> set us \<Longrightarrow> touches u p \<Longrightarrow> cells s' p (TicketHash u) = dst u p"
      "\<And>p k. (\<forall>u \<in> set us. touches u p \<longrightarrow> TicketHash u \<noteq> k) \<Longrightarrow> cells s' p k = cells s p k"
    by blast
  have "cells s' p k = T p k" for p k
  proof (cases "\<exists>u \<in> set us. touches u p \<and> TicketHash u = k")
    case True
    then show ?thesis using s'(4) assms(5) by fastforce
  next
    case False
    then have "T p k = cells s p k" by (intro assms(6)) blast
    with False s'(5) [of p k] show ?thesis by auto
  qed
  then have "cells s' = T" by (intro ext)
  with s'(1-3) show ?thesis by blast
qed

end

lemma disconnect_undo_step:
  assumes ok: "undo_ok u" and n: "pools_ok n" and "\<And>p. touches u p \<Longrightarrow> cell n p (TicketHash u) = new_cell u p"
  shows "\<exists>n'. disconnect_undo u n = Inr n' \<and> pools_ok n' \<and>
     (\<forall>p. cell n' p = (if touches u p then (cell n p)(TicketHash u := old_cell u p) else cell n p)) \<and>
     databaseUndoUpdate n' = databaseUndoUpdate n \<and>
     node_frame n' = node_frame (n\<lparr>nextWinners := nextWinners n @ (if is_winner u then [TicketHash u] else [])\<rparr>)"
proof -
  let ?k = "TicketHash u"
  note wf = pools_okD(1-3) [OF n] and fl = pools_okD(4-6) [OF n, simplified]
  have new: "touches u LivePool \<Longrightarrow> Get (liveTickets n) ?k = new_cell u LivePool"
    "touches u MissedPool \<Longrightarrow> Get (missedTickets n) ?k = new_cell u MissedPool"
    "touches u RevokedPool \<Longrightarrow> Get (revokedTickets n) ?k = new_cell u RevokedPool"
    using assms(3) [of LivePool] assms(3) [of MissedPool] assms(3) [of RevokedPool] by (simp_all add: cell_def)
  consider "\<not> u_Missed u" "\<not> u_Revoked u" "\<not> u_Spent u" "\<not> u_Expired u" | "u_Missed u" "u_Revoked u" "\<not> u_Spent u"
    | "u_Missed u" "\<not> u_Revoked u" "\<not> u_Spent u" | "\<not> u_Missed u" "\<not> u_Revoked u" "u_Spent u" "\<not> u_Expired u"
    using ok unfolding undo_ok_def by blast
  then show ?thesis
  proof cases
    case 1
    with new(1) wf show ?thesis
      by (auto simp: disconnect_undo_def safeDelete_def Has_Get pool_simps node_frame_def is_winner_def leaves_def
        intro!: pools_okI dest: fl split: if_splits)
  next
    case 2
    with new(2,3) wf show ?thesis
      by (auto simp: disconnect_undo_def Let_def safeDelete_def safePut_def Has_Get pool_simps node_frame_def
        is_winner_def leaves_def value_of_undo_def intro!: pools_okI dest: fl split: if_splits)
  next
    case 3
    with new(1,2) wf show ?thesis
      by (auto simp: disconnect_undo_def Let_def safeDelete_def safePut_def Has_Get pool_simps node_frame_def
        is_winner_def leaves_def value_of_undo_def intro!: pools_okI dest: fl split: if_splits)
  next
    case 4
    with new(1) wf show ?thesis
      by (auto simp: disconnect_undo_def Let_def safePut_def Has_Get pool_simps node_frame_def
        is_winner_def leaves_def value_of_undo_def intro!: pools_okI dest: fl split: if_splits)
  qed
qed

text \<open>The part of a node that a step leaves alone, except for the winners it restores.\<close>

fun restore_winner ::
  "UndoTicketData \<Rightarrow> UndoTicketData list \<times> uint32 \<times> hash list \<times> hash list \<times> byte list \<times> Params \<Rightarrow>
     UndoTicketData list \<times> uint32 \<times> hash list \<times> hash list \<times> byte list \<times> Params" where
  "restore_winner u (d, h, t, w, f, p) = (d, h, t, w @ (if is_winner u then [TicketHash u] else []), f, p)"

interpretation disc: undo_replay disconnect_undo cell pools_ok "\<lambda>n. (databaseUndoUpdate n, node_frame n)"
    restore_winner new_cell old_cell undo_ok
proof unfold_locales
  fix u n assume "undo_ok u" "pools_ok n" "\<And>p. touches u p \<Longrightarrow> cell n p (TicketHash u) = new_cell u p"
  from disconnect_undo_step [OF this] show "\<exists>n'. disconnect_undo u n = Inr n' \<and> pools_ok n' \<and>
      (\<forall>p. cell n' p = (if touches u p then (cell n p)(TicketHash u := old_cell u p) else cell n p)) \<and>
      (databaseUndoUpdate n', node_frame n') = restore_winner u (databaseUndoUpdate n, node_frame n)"
    by (auto simp: node_frame_def)
qed

lemma restore_winners:
  "fold restore_winner us (d, h, t, w, f, p) = (d, h, t, w @ map TicketHash (filter is_winner us), f, p)"
  by (induction us arbitrary: w) simp_all

text \<open>Two nodes that differ at most in the shape of their treaps.\<close>

definition same_node :: "Node \<Rightarrow> Node \<Rightarrow> bool" where
  "same_node n m \<longleftrightarrow> (\<forall>p. entries (pool_of n p) = entries (pool_of m p)) \<and>
     node_frame n = node_frame m \<and> databaseUndoUpdate n = databaseUndoUpdate m"

lemma same_entries:
  assumes "pools_ok n" and "pools_ok m" and "cell n p = cell m p"
  shows "entries (pool_of n p) = entries (pool_of m p)"
    and "ImLen (pool_of n p) = ImLen (pool_of m p)"
  using assms tt.same_lookup_same_elems tt.same_lookup_same_len unfolding pools_ok_def cell_def by blast+

section \<open>The invariant of the nodes\<close>

text \<open>
  The winners and the checksum of a node are those of the lottery with the
  given initial value on its live pool, from the block before
  \<open>StakeValidationHeight\<close> on.
\<close>

definition lottery_ok :: "(byte list \<Rightarrow> hash) \<Rightarrow> hash \<Rightarrow> Node \<Rightarrow> bool" where
  "lottery_ok H iv n \<longleftrightarrow>
     (if word_of_int (StakeValidationHeight (n_params n) - 1) \<le> n_height n then
        \<exists>idxs prng. findTicketIdxs H (ImLen (liveTickets n)) (TicketsPerBlock (n_params n))
            (NewHash256PRNGFromIV iv) = Some (Inr (idxs, prng)) \<and>
          fetchWinners idxs (liveTickets n) = Inr (nextWinners n) \<and>
          finalState n = lottery_checksum H (nextWinners n) prng
      else nextWinners n = [] \<and> finalState n = replicate 6 0)"

text \<open>A ticket is in one pool at most.\<close>

definition pools_apart :: "Node \<Rightarrow> bool" where
  "pools_apart n \<longleftrightarrow> (\<forall>k p q. p \<noteq> q \<longrightarrow> cell n p k = None \<or> cell n q k = None)"

definition node_inv :: "(byte list \<Rightarrow> hash) \<Rightarrow> hash \<Rightarrow> Node \<Rightarrow> bool" where
  "node_inv H iv n \<longleftrightarrow> params_ok (n_params n) \<and> pools_ok n \<and> pools_apart n \<and> lottery_ok H iv n \<and>
     (n_height n = 0 \<longrightarrow> n = genesisNode (n_params n))"

text \<open>
  What the block validation guarantees about a block: its height is
  representable, its new tickets are in no pool yet, and the tickets it revokes
  were missed before it.
\<close>

definition block_allowed :: "Node \<Rightarrow> hash list \<Rightarrow> hash list \<Rightarrow> bool" where
  "block_allowed n revoked new \<longleftrightarrow> n_height n < 0xFFFFFFFF \<and>
     list_all (\<lambda>k. \<not> ExistsLiveTicket n k \<and> \<not> ExistsMissedTicket n k \<and> \<not> ExistsRevokedTicket n k) new \<and>
     list_all (ExistsMissedTicket n) revoked"

lemma block_allowedD:
  assumes "block_allowed n revoked new"
  shows "set new \<inter> dom (cell n LivePool) = {}" and "set revoked \<subseteq> dom (cell n MissedPool)"
    and "unat (n_height n + 1) = unat (n_height n) + 1"
    and "k \<in> set new \<Longrightarrow> cell n p k = None"
proof -
  show "cell n p k = None" if "k \<in> set new"
    using assms that by (cases p) (auto simp: block_allowed_def ExistsLiveTicket_def ExistsMissedTicket_def
      ExistsRevokedTicket_def list_all_iff Has_Get cell_def)
  show "set new \<inter> dom (cell n LivePool) = {}" "set revoked \<subseteq> dom (cell n MissedPool)"
    using assms by (auto simp: block_allowed_def ExistsLiveTicket_def ExistsMissedTicket_def list_all_iff Has_Get cell_def)
  have "unat (n_height n) < 4294967295" using assms by (simp add: block_allowed_def word_less_nat_alt)
  then show "unat (n_height n + 1) = unat (n_height n) + 1" by (simp add: unat_word_ariths)
qed

lemma unat_height: "0 \<le> h \<Longrightarrow> h < 2 ^ 32 \<Longrightarrow> unat (word_of_int h :: uint32) = nat h"
proof -
  assume "0 \<le> h" "h < 2 ^ 32"
  then have "uint (word_of_int h :: uint32) = h" by (simp add: unsigned_of_int take_bit_int_eq_self)
  then show ?thesis by (simp only: flip: nat_uint_eq)
qed

lemma pools_apart_after:
  assumes eff: "block_effect (childNode node new) m" and und: "block_undo node voted revoked new (databaseUndoUpdate m)"
    and ok: "pools_ok node" and apart: "pools_apart node" and al: "block_allowed node revoked new"
  shows "pools_apart m"
  unfolding pools_apart_def
proof (intro allI impI)
  fix k and p q :: pool assume "p \<noteq> q"
  have ap: "cell node p k = None \<or> cell node q k = None" if "p \<noteq> q" for p q
    using apart that by (simp add: pools_apart_def)
  note D = block_effectD [OF eff, unfolded childNode_fields]
  have win: "cell node LivePool k \<noteq> None" if en: "enabled node" and k: "k \<in> set (nextWinners node)"
  proof -
    from block_undo_hashes(2) [OF und en k] obtain u where
      u: "u \<in> set (databaseUndoUpdate m)" "TicketHash u = k" "is_winner u" by blast
    with D(4) [OF u(1), of LivePool] show ?thesis by (auto simp: is_winner_def leaves_def)
  qed
  have exp: "expires node k \<Longrightarrow> cell node LivePool k \<noteq> None" by (auto simp: expires_def cell_def split: option.splits)
  have rev: "k \<in> set revoked \<Longrightarrow> cell node MissedPool k \<noteq> None"
    using block_allowedD(2) [OF al] by auto
  note nw = block_allowedD(4) [OF al]
  have lm: "cell m LivePool k = None \<or> cell m MissedPool k = None"
  proof (cases "enabled node")
    case True
    then show ?thesis
      using live_after [OF eff und, of k] missed_after [OF eff und ok True, of k] ap [of LivePool MissedPool] nw win exp
      by auto
  next
    case False
    with missed_before_stake [OF eff und this] live_after [OF eff und, of k] ap [of LivePool MissedPool] nw
    show ?thesis by auto
  qed
  have lr: "cell m LivePool k = None \<or> cell m RevokedPool k = None"
    using live_after [OF eff und, of k] revoked_after [OF eff und, of k] ap [of LivePool RevokedPool]
      ap [of LivePool MissedPool] nw rev by auto
  have mr: "cell m MissedPool k = None \<or> cell m RevokedPool k = None"
  proof (cases "enabled node")
    case True
    then show ?thesis
      using revoked_after [OF eff und, of k] missed_after [OF eff und ok True, of k]
        ap [of MissedPool RevokedPool] ap [of LivePool RevokedPool] win exp by auto
  next
    case False
    with missed_before_stake [OF eff und this] revoked_after [OF eff und, of k] ap [of MissedPool RevokedPool]
    show ?thesis by simp
  qed
  from lm lr mr \<open>p \<noteq> q\<close> show "cell m p k = None \<or> cell m q k = None" by (cases p; cases q) auto
qed

lemma connectNode_parts:
  assumes con: "connectNode H (Some node) iv voted revoked new = Some (Inr m)" and ok: "pools_ok node"
    and al: "block_allowed node revoked new" and par: "params_ok (n_params node)"
  shows "block_effect (childNode node new) (m\<lparr>nextWinners := [], finalState := replicate 6 0\<rparr>)"
    and "block_undo node voted revoked new (databaseUndoUpdate m)" and "lottery_ok H iv m"
proof -
  from con obtain c where c: "connect_pools node voted revoked new = Inr c" and l: "connect_lottery H iv c = Some (Inr m)"
    by (auto simp: connectNode_def split: sum.splits)
  from par have "0 < TicketExpiry (n_params node)" by (simp add: params_ok_def)
  from connect_pools_effect [OF c ok block_allowedD(1,2) [OF al] this]
  have eff: "block_effect (childNode node new) c" and und: "block_undo node voted revoked new (databaseUndoUpdate c)"
    by blast+
  from block_effectD(2) [OF eff] have fr: "nextWinners c = []" "finalState c = replicate 6 0"
    by (auto simp: node_frame_def childNode_def)
  then have cm: "c = m\<lparr>nextWinners := [], finalState := replicate 6 0\<rparr>" and lo: "lottery_ok H iv m"
    using l by (auto simp: connect_lottery_def lottery_ok_def split: if_splits option.splits sum.splits)
  show "lottery_ok H iv m" by (rule lo)
  show "block_undo node voted revoked new (databaseUndoUpdate m)" using und by (simp add: cm)
  show "block_effect (childNode node new) (m\<lparr>nextWinners := [], finalState := replicate 6 0\<rparr>)"
    using eff by (simp add: cm)
qed

lemma cell_frame [simp]:
  "pool_of (m\<lparr>nextWinners := w, finalState := f\<rparr>) = pool_of m" "cell (m\<lparr>nextWinners := w, finalState := f\<rparr>) = cell m"
  "pools_ok (m\<lparr>nextWinners := w, finalState := f\<rparr>) = pools_ok m"
  "pools_apart (m\<lparr>nextWinners := w, finalState := f\<rparr>) = pools_apart m"
proof -
  show pool: "pool_of (m\<lparr>nextWinners := w, finalState := f\<rparr>) = pool_of m"
  proof
    fix p show "pool_of (m\<lparr>nextWinners := w, finalState := f\<rparr>) p = pool_of m p" by (cases p) simp_all
  qed
  then show c: "cell (m\<lparr>nextWinners := w, finalState := f\<rparr>) = cell m" by (simp add: cell_def fun_eq_iff)
  show "pools_ok (m\<lparr>nextWinners := w, finalState := f\<rparr>) = pools_ok m"
    "pools_apart (m\<lparr>nextWinners := w, finalState := f\<rparr>) = pools_apart m"
    by (simp_all add: pools_ok_def pools_apart_def pool c)
qed

lemma connect_frame:
  assumes "block_effect (childNode node new) (m\<lparr>nextWinners := [], finalState := replicate 6 0\<rparr>)"
  shows "n_height m = n_height node + 1" "n_params m = n_params node" "databaseBlockTickets m = new"
  using block_effectD(2) [OF assms] by (auto simp: node_frame_def childNode_def)

lemma connect_inv:
  assumes inv: "node_inv H iv node" and al: "block_allowed node revoked new"
    and con: "connectNode H (Some node) iv' voted revoked new = Some (Inr m)"
  shows "node_inv H iv' m"
proof -
  from inv have ok: "pools_ok node" "params_ok (n_params node)" "pools_apart node" by (simp_all add: node_inv_def)
  note P = connectNode_parts [OF con ok(1) al ok(2)]
  note F = connect_frame [OF P(1)]
  have "pools_ok m" using block_effectD(1) [OF P(1)] by simp
  moreover have "pools_apart m"
    using pools_apart_after [OF P(1) _ ok(1,3) al, of voted] P(2) by simp
  moreover have "n_height m \<noteq> 0" using block_allowedD(3) [OF al] by (auto simp: F)
  ultimately show ?thesis using P(3) ok(2) by (simp add: node_inv_def F)
qed

lemma genesis_inv: "params_ok p \<Longrightarrow> node_inv H iv (genesisNode p)"
proof -
  assume p: "params_ok p"
  have get: "Get NewImmutable = Map.empty" by (rule tt.lookup_empty)
  have cell: "cell (genesisNode p) q = Map.empty" for q by (cases q) (simp_all add: cell_def genesisNode_def get)
  have wf: "ticket_wf (pool_of (genesisNode p) q)" for q
    by (cases q) (simp_all add: genesisNode_def tt.inv_empty)
  have "0 \<le> StakeValidationHeight p - 1" "StakeValidationHeight p - 1 < 2 ^ 32" "0 < nat (StakeValidationHeight p - 1)"
    using p by (simp_all add: params_ok_def)
  then have "\<not> word_of_int (StakeValidationHeight p - 1) \<le> (0 :: uint32)"
    using unat_height [of "StakeValidationHeight p - 1"] by (simp add: word_le_nat_alt)
  then have "lottery_ok H iv (genesisNode p)" by (simp add: lottery_ok_def genesisNode_def)
  with p wf cell show ?thesis by (simp add: node_inv_def pools_ok_def pools_apart_def) (simp add: genesisNode_def)
qed

section \<open>Connecting succeeds\<close>

lemma foldE_progress:
  assumes "distinct (map h xs)" and "I m" and "\<forall>x \<in> set xs. R x m"
    and step: "\<And>x m. x \<in> set xs \<Longrightarrow> I m \<Longrightarrow> R x m \<Longrightarrow>
      \<exists>n. f x m = Inr n \<and> I n \<and> (\<forall>y \<in> set xs. h y \<noteq> h x \<longrightarrow> R y m \<longrightarrow> R y n)"
  shows "\<exists>n. foldE f xs m = Inr n \<and> I n"
  using assms
proof (induction xs arbitrary: m)
  case (Cons x xs)
  from Cons.prems(4) [of x m] Cons.prems(2,3) obtain m' where
    m': "f x m = Inr m'" "I m'" "\<forall>y \<in> set (x # xs). h y \<noteq> h x \<longrightarrow> R y m \<longrightarrow> R y m'" by auto
  have "distinct (map h xs)" using Cons.prems(1) by simp
  moreover have "\<forall>y \<in> set xs. R y m'"
  proof
    fix y assume y: "y \<in> set xs"
    have "h x \<notin> h ` set xs" using Cons.prems(1) by simp
    with y have "h y \<noteq> h x" by (metis imageI)
    with m'(3) Cons.prems(3) y show "R y m'" by simp
  qed
  moreover have "\<exists>n. f y m = Inr n \<and> I n \<and> (\<forall>z \<in> set xs. h z \<noteq> h y \<longrightarrow> R z m \<longrightarrow> R z n)"
    if "y \<in> set xs" "I m" "R y m" for y m
    using Cons.prems(4) [of y m] that by auto
  ultimately have "\<exists>n. foldE f xs m' = Inr n \<and> I n" using Cons.IH [of m'] m'(2) by blast
  with m'(1) show ?case by simp
qed simp

lemma applies_other: "applies u m n \<Longrightarrow> k \<noteq> TicketHash u \<Longrightarrow> cell n p k = cell m p k"
  by (simp add: applies_def)

lemma connect_winners_total:
  assumes "distinct ws" and "leaving c m"
    and "\<forall>k \<in> set ws. cell m LivePool k \<noteq> None \<and> cell m MissedPool k = None"
  shows "\<exists>n. foldE (connect_winner voted) ws m = Inr n \<and> leaving c n"
proof (rule foldE_progress [where h = "\<lambda>k. k" and R = "\<lambda>k m. cell m LivePool k \<noteq> None \<and> cell m MissedPool k = None"])
  fix k m assume m: "leaving c m" "cell m LivePool k \<noteq> None \<and> cell m MissedPool k = None"
  then obtain n where n: "connect_winner voted k m = Inr n"
    by (cases "k \<in> set voted")
      (auto simp: connect_winner_def safeGet_def safeDelete_def safePut_def Has_Get cell_def Let_def)
  from connect_winner_applies [OF leaving_pools [OF m(1)] n] obtain u where
    u: "applies u m n" "TicketHash u = k" "leaves u" by (auto simp: leaves_def)
  with leaving_step [OF m(1)] applies_other [OF u(1)] n
  show "\<exists>n. connect_winner voted k m = Inr n \<and> leaving c n \<and> (\<forall>y \<in> set ws. y \<noteq> k \<longrightarrow>
      cell m LivePool y \<noteq> None \<and> cell m MissedPool y = None \<longrightarrow> cell n LivePool y \<noteq> None \<and> cell n MissedPool y = None)"
    by auto
qed (use assms in simp_all)

lemma connect_expired_total:
  assumes "leaving c m" and "\<forall>(k, v) \<in> set (expiring m). cell m MissedPool k = None"
  shows "\<exists>n. connect_expired m = Inr n \<and> leaving c n"
  unfolding connect_expired_fold [OF pools_okD(1) [OF leaving_pools [OF assms(1)]]]
proof (rule foldE_progress [where h = fst and R = "\<lambda>x m. cell m LivePool (fst x) = Some (snd x) \<and> cell m MissedPool (fst x) = None"])
  note wf = pools_okD(1) [OF leaving_pools [OF assms(1)]]
  show "distinct (map fst (expiring m))"
    using tt.elems_distinct [OF wf] by (simp add: expiring_def distinct_map_filter)
  show "\<forall>x \<in> set (expiring m). cell m LivePool (fst x) = Some (snd x) \<and> cell m MissedPool (fst x) = None"
    using assms(2) tt.lookup_mem [OF wf] by (auto simp: expiring_def cell_def)
next
  fix x m' assume I: "leaving c m'" and R: "cell m' LivePool (fst x) = Some (snd x) \<and> cell m' MissedPool (fst x) = None"
  obtain k v where x: "x = (k, v)" by fastforce
  with R have cells: "Get (liveTickets m') k = Some v" "Get (missedTickets m') k = None" by (simp_all add: cell_def)
  then obtain n where n: "expire_ticket k v m' = Inr n"
    by (auto simp: expire_ticket_def safeDelete_def safePut_def Has_Get Let_def)
  from expire_ticket_applies [OF leaving_pools [OF I] n cells(1)] obtain u where
    u: "applies u m' n" "TicketHash u = k" "leaves u" by (auto simp: leaves_def)
  with leaving_step [OF I] applies_other [OF u(1)] n x
  show "\<exists>n. (case x of (k, v) \<Rightarrow> expire_ticket k v) m' = Inr n \<and> leaving c n \<and>
      (\<forall>y \<in> set (expiring m). fst y \<noteq> fst x \<longrightarrow>
        cell m' LivePool (fst y) = Some (snd y) \<and> cell m' MissedPool (fst y) = None \<longrightarrow>
        cell n LivePool (fst y) = Some (snd y) \<and> cell n MissedPool (fst y) = None)"
    by auto
qed (rule assms(1))

lemma connect_revoked_total:
  assumes "distinct ks" and "block_effect c m" and "set ks \<subseteq> dom (cell c MissedPool)"
    and "\<forall>k \<in> set ks. cell m MissedPool k \<noteq> None \<and> cell m RevokedPool k = None"
  shows "\<exists>n. foldE connect_revoked ks m = Inr n \<and> block_effect c n"
proof (rule foldE_progress [where h = "\<lambda>k. k" and R = "\<lambda>k m. cell m MissedPool k \<noteq> None \<and> cell m RevokedPool k = None"])
  fix k m assume k: "k \<in> set ks" and m: "block_effect c m" "cell m MissedPool k \<noteq> None \<and> cell m RevokedPool k = None"
  then obtain n where n: "connect_revoked k m = Inr n"
    by (auto simp: connect_revoked_def safeGet_def safeDelete_def safePut_def Has_Get cell_def Let_def)
  from connect_revocations(1) [of "[k]" m n c] n m(1) k assms(3) have "block_effect c n" by auto
  moreover from connect_revoked_applies [OF block_effectD(1) [OF m(1)] n] obtain u where
    u: "applies u m n" "TicketHash u = k" by blast
  ultimately show "\<exists>n. connect_revoked k m = Inr n \<and> block_effect c n \<and> (\<forall>y \<in> set ks. y \<noteq> k \<longrightarrow>
      cell m MissedPool y \<noteq> None \<and> cell m RevokedPool y = None \<longrightarrow> cell n MissedPool y \<noteq> None \<and> cell n RevokedPool y = None)"
    using n applies_other [OF u(1)] by auto
qed (use assms in simp_all)

lemma connect_new_total:
  assumes "distinct ks" and "block_effect c m" and "set ks \<inter> dom (cell c LivePool) = {}"
    and "\<forall>k \<in> set ks. cell m LivePool k = None"
  shows "\<exists>n. foldE connect_new ks m = Inr n"
proof -
  have "\<exists>n. foldE connect_new ks m = Inr n \<and> block_effect c n"
  proof (rule foldE_progress [where h = "\<lambda>k. k" and R = "\<lambda>k m. cell m LivePool k = None"])
    fix k m assume k: "k \<in> set ks" and m: "block_effect c m" "cell m LivePool k = None"
    then obtain n where n: "connect_new k m = Inr n"
      by (auto simp: connect_new_def safePut_def Has_Get cell_def Let_def)
    from connect_additions(1) [of "[k]" m n c] n m(1) k assms(3) have "block_effect c n" by auto
    moreover from connect_new_applies [OF block_effectD(1) [OF m(1)] n] obtain u where
      u: "applies u m n" "TicketHash u = k" by blast
    ultimately show "\<exists>n. connect_new k m = Inr n \<and> block_effect c n \<and>
        (\<forall>y \<in> set ks. y \<noteq> k \<longrightarrow> cell m LivePool y = None \<longrightarrow> cell n LivePool y = None)"
      using n applies_other [OF u(1)] by auto
  qed (use assms in simp_all)
  then show ?thesis by blast
qed

text \<open>What the tickets that left the live pool mean for the other pools.\<close>

lemma leaving_cells:
  assumes "leaving c m"
  shows "cell m RevokedPool = cell c RevokedPool"
    and "cell c MissedPool k \<noteq> None \<Longrightarrow> cell m MissedPool k \<noteq> None"
    and "cell m LivePool k = Some v \<Longrightarrow> cell c LivePool k = Some v \<and> cell m MissedPool k = cell c MissedPool k"
proof -
  from assms have eff: "block_effect c m" and lv: "\<And>u. u \<in> set (databaseUndoUpdate m) \<Longrightarrow> leaves u"
    by (simp_all add: leaving_def)
  note D = block_effectD [OF eff]
  show "cell m RevokedPool = cell c RevokedPool"
    by (rule ext, rule D(6)) (use lv in \<open>auto simp: leaves_def\<close>)
  show "cell m MissedPool k \<noteq> None" if "cell c MissedPool k \<noteq> None"
  proof (cases "\<exists>u \<in> set (databaseUndoUpdate m). touches u MissedPool \<and> TicketHash u = k")
    case True
    then show ?thesis using D(5) [where p = MissedPool] lv by (auto simp: leaves_def)
  next
    case False
    with that D(6) [of MissedPool k] show ?thesis by auto
  qed
  assume k: "cell m LivePool k = Some v"
  have "TicketHash u \<noteq> k" if u: "u \<in> set (databaseUndoUpdate m)" for u
    using lv [OF u] D(5) [OF u, of LivePool] k by (auto simp: leaves_def)
  with k D(6) [of LivePool k] D(6) [of MissedPool k]
  show "cell c LivePool k = Some v \<and> cell m MissedPool k = cell c MissedPool k" by auto
qed

definition winners_live :: "Node \<Rightarrow> bool" where
  "winners_live n \<longleftrightarrow> distinct (nextWinners n) \<and> list_all (ExistsLiveTicket n) (nextWinners n)"

lemma connect_enabled_total:
  assumes ok: "pools_ok node" "pools_apart node" "winners_live node" and al: "block_allowed node revoked new"
    and rev: "distinct revoked"
  shows "\<exists>c1 c2 c3. foldE (connect_winner voted) (nextWinners node) (childNode node new) = Inr c1 \<and>
    connect_expired c1 = Inr c2 \<and> foldE connect_revoked revoked c2 = Inr c3 \<and>
    block_effect (childNode node new) c3 \<and> (\<forall>k \<in> set new. cell c3 LivePool k = None)"
proof -
  let ?c = "childNode node new"
  have "pools_ok ?c" using ok by (simp add: pools_ok_def)
  then have lv: "leaving ?c ?c" by (simp add: block_effect_refl leaving_def)
  have ap: "cell node p k = None" if "cell node q k \<noteq> None" "p \<noteq> q" for p q k
    using ok(2) that unfolding pools_apart_def by metis
  from ok(3) have w: "distinct (nextWinners node)" "\<And>k. k \<in> set (nextWinners node) \<Longrightarrow> cell node LivePool k \<noteq> None"
    by (auto simp: winners_live_def ExistsLiveTicket_def list_all_iff Has_Get cell_def)
  then have "\<forall>k \<in> set (nextWinners node). cell ?c LivePool k \<noteq> None \<and> cell ?c MissedPool k = None"
    using ap [of LivePool] by simp
  from connect_winners_total [OF w(1) lv this] obtain c1 where
    c1: "foldE (connect_winner voted) (nextWinners node) ?c = Inr c1" "leaving ?c c1" by blast
  have "cell c1 MissedPool k = None" if "(k, v) \<in> set (expiring c1)" for k v
  proof -
    have "cell c1 LivePool k = Some v"
      using that tt.lookup_mem [OF pools_okD(1) [OF leaving_pools [OF c1(2)]]] by (simp add: expiring_def cell_def)
    from leaving_cells(3) [OF c1(2) this] ap [of LivePool k MissedPool] show ?thesis by simp
  qed
  with connect_expired_total [OF c1(2)] obtain c2 where c2: "connect_expired c1 = Inr c2" "leaving ?c c2" by auto
  note mis = block_allowedD(2) [OF al]
  have "\<forall>k \<in> set revoked. cell c2 MissedPool k \<noteq> None \<and> cell c2 RevokedPool k = None"
    using mis leaving_cells(1,2) [OF c2(2)] ap [of MissedPool _ RevokedPool] by auto
  with connect_revoked_total [OF rev, of ?c c2] c2(2) mis obtain c3 where
    c3: "foldE connect_revoked revoked c2 = Inr c3" "block_effect ?c c3" by (auto simp: leaving_def)
  from connect_revocations(2) [OF c3(1), of ?c] c2(2) mis obtain us where
    us: "databaseUndoUpdate c3 = databaseUndoUpdate c2 @ us"
      "list_all2 (\<lambda>k u. TicketHash u = k \<and> u_Missed u \<and> u_Revoked u) revoked us" by (auto simp: leaving_def)
  have kinds: "leaves u \<or> u_Revoked u" if "u \<in> set (databaseUndoUpdate c3)" for u
    using that c2(2) list_all2_image [OF us(2)] by (auto simp: us(1) leaving_def)
  have "cell c3 LivePool k = None" if "k \<in> set new" for k
  proof (rule ccontr)
    assume nn: "cell c3 LivePool k \<noteq> None"
    have "TicketHash u \<noteq> k" if u: "u \<in> set (databaseUndoUpdate c3)" "touches u LivePool" for u
      using kinds [OF u(1)] block_effectD(5) [OF c3(2) u] nn u(2) by (auto simp: leaves_def)
    then have "cell c3 LivePool k = cell ?c LivePool k" by (intro block_effectD(6) [OF c3(2)]) blast
    with nn block_allowedD(4) [OF al that, of LivePool] show False by simp
  qed
  with c1 c2 c3 show ?thesis by blast
qed

lemma connect_pools_total:
  assumes ok: "pools_ok node" "pools_apart node" "winners_live node" and al: "block_allowed node revoked new"
    and dis: "distinct revoked" "distinct new" and voted: "enabled node \<Longrightarrow> set voted \<subseteq> set (nextWinners node)"
  shows "\<exists>m. connect_pools node voted revoked new = Inr m"
proof -
  let ?c = "childNode node new"
  have new: "set new \<inter> dom (cell ?c LivePool) = {}" using block_allowedD(1) [OF al] by simp
  show ?thesis
  proof (cases "enabled node")
    case True
    from connect_enabled_total [OF ok al dis(1), of voted] obtain c1 c2 c3 where
      c: "foldE (connect_winner voted) (nextWinners node) ?c = Inr c1" "connect_expired c1 = Inr c2"
        "foldE connect_revoked revoked c2 = Inr c3" "block_effect ?c c3" "\<forall>k \<in> set new. cell c3 LivePool k = None"
      by blast
    have "list_all (\<lambda>t. hashInSlice t (nextWinners node)) voted" using voted [OF True] by (auto simp: list_all_iff)
    with connect_new_total [OF dis(2) c(4) new c(5)] c(1-3) True show ?thesis
      by (simp add: connect_pools_def enabled_def Let_def)
  next
    case False
    have "pools_ok ?c" using ok by (simp add: pools_ok_def)
    then have "block_effect ?c ?c" by (simp add: block_effect_refl)
    moreover have "\<forall>k \<in> set new. cell ?c LivePool k = None" using block_allowedD(4) [OF al] by simp
    ultimately show ?thesis using False connect_new_total [OF dis(2) _ new, of ?c]
      by (simp add: connect_pools_def enabled_def Let_def)
  qed
qed

section \<open>Properties\<close>

lemma lottery_winners:
  assumes inv: "node_inv H iv n" and "0 < TicketsPerBlock (n_params n)" and "length (entries (liveTickets n)) < 2 ^ 32"
  shows "winners_live n" and "word_of_int (StakeValidationHeight (n_params n) - 1) \<le> n_height n \<Longrightarrow>
    length (nextWinners n) = unat (TicketsPerBlock (n_params n))"
proof -
  from inv have wf: "ticket_wf (liveTickets n)" and lo: "lottery_ok H iv n"
    by (auto simp: node_inv_def dest: pools_okD)
  show "winners_live n" "word_of_int (StakeValidationHeight (n_params n) - 1) \<le> n_height n \<Longrightarrow>
      length (nextWinners n) = unat (TicketsPerBlock (n_params n))"
  proof (atomize (full), cases "word_of_int (StakeValidationHeight (n_params n) - 1) \<le> n_height n")
    case True
    with lo obtain idxs prng where l: "findTicketIdxs H (ImLen (liveTickets n)) (TicketsPerBlock (n_params n))
        (NewHash256PRNGFromIV iv) = Some (Inr (idxs, prng))" "fetchWinners idxs (liveTickets n) = Inr (nextWinners n)"
      by (auto simp: lottery_ok_def)
    from fetchWinners_selects [OF wf assms(3,2) l(1)] l(2)
    show "winners_live n \<and> (word_of_int (StakeValidationHeight (n_params n) - 1) \<le> n_height n \<longrightarrow>
      length (nextWinners n) = unat (TicketsPerBlock (n_params n)))"
      by (auto simp: winners_live_def list_all_iff ExistsLiveTicket_def)
  next
    case False
    with lo show "winners_live n \<and> (word_of_int (StakeValidationHeight (n_params n) - 1) \<le> n_height n \<longrightarrow>
      length (nextWinners n) = unat (TicketsPerBlock (n_params n)))"
      by (simp add: lottery_ok_def winners_live_def)
  qed
qed

text \<open>
  A network with early stake heights and tickets that expire after one block;
  \<open>ex_node\<close> is the node of its third block.
\<close>

definition ex_params :: Params where
  "ex_params = \<lparr>GenesisHash = ex_hash, TicketsPerBlock = 2, TicketExpiry = 1, StakeEnabledHeight = 2, StakeValidationHeight = 100\<rparr>"

definition ex_connect :: "Node \<Rightarrow> hash list \<Rightarrow> hash list \<Rightarrow> Node" where
  "ex_connect n revoked new = (case connectNode ex_H (Some n) ex_hash [] revoked new of
     Some (Inr m) \<Rightarrow> m | _ \<Rightarrow> genesisNode ex_params)"

definition ex_node :: Node where
  "ex_node = ex_connect (ex_connect (genesisNode ex_params) [] [ex_key 1, ex_key 2]) [] [ex_key 3]"

lemma ex_connect_ok:
  "connectNode ex_H (Some (genesisNode ex_params)) ex_hash [] [] [ex_key 1, ex_key 2] =
     Some (Inr (ex_connect (genesisNode ex_params) [] [ex_key 1, ex_key 2]))"
  "connectNode ex_H (Some (ex_connect (genesisNode ex_params) [] [ex_key 1, ex_key 2])) ex_hash [] [] [ex_key 3] =
     Some (Inr ex_node)"
  "connectNode ex_H (Some ex_node) ex_hash [] [ex_key 1] [ex_key 4] =
     Some (Inr (ex_connect ex_node [ex_key 1] [ex_key 4]))"
  by code_simp+

lemma ex_allowed:
  "block_allowed (genesisNode ex_params) [] [ex_key 1, ex_key 2]"
  "block_allowed (ex_connect (genesisNode ex_params) [] [ex_key 1, ex_key 2]) [] [ex_key 3]"
  "block_allowed ex_node [ex_key 1] [ex_key 4]"
  by code_simp+

lemma ex_node_inv: "node_inv ex_H ex_hash ex_node"
proof -
  have "params_ok ex_params" by code_simp
  then have "node_inv ex_H ex_hash (genesisNode ex_params)" by (rule genesis_inv)
  from connect_inv [OF this ex_allowed(1) ex_connect_ok(1)]
  have "node_inv ex_H ex_hash (ex_connect (genesisNode ex_params) [] [ex_key 1, ex_key 2])" .
  from connect_inv [OF this ex_allowed(2) ex_connect_ok(2)] show ?thesis .
qed

text \<open>
  C6: the pools after \<open>connectNode\<close>.  The live pool gains the new tickets
  and loses the winners and the tickets that expire; the missed pool gains the
  winners that did not vote and the expired tickets, marked as such, and loses
  the revoked ones, which the revoked pool gains.  Before
  \<open>StakeEnabledHeight\<close> only the new tickets are added.
\<close>

theorem connectNode_pools:
  assumes "node_inv H iv node" and "block_allowed node revoked new"
    and "connectNode H (Some node) iv' voted revoked new = Some (Inr m)"
  shows "n_height m = n_height node + 1 \<and> databaseBlockTickets m = new \<and>
    Get (liveTickets m) k =
      (if k \<in> set new then Some (newValue (n_height node + 1))
       else if enabled node \<and> (k \<in> set (nextWinners node) \<or> expires node k) then None
       else Get (liveTickets node) k) \<and>
    Get (missedTickets m) k =
      (if \<not> enabled node then Get (missedTickets node) k
       else if k \<in> set revoked then None
       else if k \<in> set (nextWinners node) \<and> k \<notin> set voted then
         map_option (\<lambda>v. v\<lparr>Missed := True\<rparr>) (Get (liveTickets node) k)
       else if expires node k then map_option (\<lambda>v. v\<lparr>Missed := True, Expired := True\<rparr>) (Get (liveTickets node) k)
       else Get (missedTickets node) k) \<and>
    Get (revokedTickets m) k =
      (if enabled node \<and> k \<in> set revoked then map_option (\<lambda>v. v\<lparr>Revoked := True\<rparr>) (Get (missedTickets node) k)
       else Get (revokedTickets node) k)"
proof -
  from assms(1) have ok: "pools_ok node" "params_ok (n_params node)" by (simp_all add: node_inv_def)
  note P = connectNode_parts [OF assms(3) ok(1) assms(2) ok(2)]
  have und: "block_undo node voted revoked new (databaseUndoUpdate (m\<lparr>nextWinners := [], finalState := replicate 6 0\<rparr>))"
    using P(2) by simp
  note cells = live_after [OF P(1) und, of k] missed_after [OF P(1) und ok(1), of k] revoked_after [OF P(1) und, of k]
    missed_before_stake [OF P(1) und]
  from cells connect_frame [OF P(1)] show ?thesis by (simp add: cell_def)
qed

theorem connectNode_pools_witness:
  "let m = ex_connect ex_node [ex_key 1] [ex_key 4] in
   Get (liveTickets m) (ex_key 3) = None \<and> Get (liveTickets m) (ex_key 4) \<noteq> None \<and>
   Get (missedTickets m) (ex_key 3) \<noteq> None \<and> Get (revokedTickets m) (ex_key 1) \<noteq> None"
proof -
  note C = connectNode_pools [OF ex_node_inv ex_allowed(3) ex_connect_ok(3)]
  have en: "enabled ex_node" "\<not> expires ex_node (ex_key 4)" "expires ex_node (ex_key 3)"
    "ex_key 3 \<notin> set [ex_key 1 :: hash]" "ex_key 3 \<notin> set [ex_key 4 :: hash]" "nextWinners ex_node = []"
    "Get (missedTickets ex_node) (ex_key 1) \<noteq> None" "Get (liveTickets ex_node) (ex_key 3) \<noteq> None"
    by code_simp+
  show ?thesis unfolding Let_def using C [of "ex_key 3"] C [of "ex_key 4"] C [of "ex_key 1"] en by simp
qed

text \<open>The nodes of a chain of blocks, each with the initial value of its lottery.\<close>

inductive chain :: "(byte list \<Rightarrow> hash) \<Rightarrow> Params \<Rightarrow> hash \<Rightarrow> Node \<Rightarrow> bool" for H params where
  genesis: "chain H params iv (genesisNode params)"
| connect: "chain H params iv n \<Longrightarrow> block_allowed n revoked new \<Longrightarrow>
    connectNode H (Some n) iv' voted revoked new = Some (Inr m) \<Longrightarrow> chain H params iv' m"

text \<open>
  C5: every node of a chain satisfies the invariant: its treaps are well
  formed, each pool holds only tickets with the flags of that pool, no ticket is
  in two pools, and from the block before \<open>StakeValidationHeight\<close> on there are
  \<open>TicketsPerBlock\<close> distinct winners, all of them live.
\<close>

theorem chain_invariant:
  assumes "params_ok params" and "chain H params iv n"
  shows "node_inv H iv n \<and>
    (0 < TicketsPerBlock (n_params n) \<and> length (entries (liveTickets n)) < 2 ^ 32 \<longrightarrow> winners_live n \<and>
      (word_of_int (StakeValidationHeight (n_params n) - 1) \<le> n_height n \<longrightarrow>
        length (nextWinners n) = unat (TicketsPerBlock (n_params n))))"
proof -
  from assms(2) have "node_inv H iv n"
  proof induction
    case (genesis iv)
    show ?case using assms(1) by (rule genesis_inv)
  next
    case (connect iv n revoked new iv' voted m)
    then show ?case by (blast intro: connect_inv)
  qed
  with lottery_winners show ?thesis by blast
qed

theorem chain_invariant_witness:
  "chain ex_H ex_params ex_hash ex_node \<and> node_inv ex_H ex_hash ex_node \<and> winners_live ex_node"
proof -
  have par: "params_ok ex_params" "0 < TicketsPerBlock (n_params ex_node)" by code_simp+
  have "length (entries (liveTickets ex_node)) = 1" by code_simp
  then have len: "length (entries (liveTickets ex_node)) < 2 ^ 32" by simp
  have ch: "chain ex_H ex_params ex_hash ex_node"
    by (rule chain.connect [OF chain.connect [OF chain.genesis ex_allowed(1) ex_connect_ok(1)] ex_allowed(2) ex_connect_ok(2)])
  from chain_invariant [OF par(1) ch] par(2) len ch show ?thesis by blast
qed

lemma connect_pools_outcome:
  assumes "node_inv H iv node" and "block_allowed node revoked new"
    and "0 < TicketsPerBlock (n_params node)" and "length (entries (liveTickets node)) < 2 ^ 32"
    and "distinct revoked" and "distinct new"
  shows "enabled node \<Longrightarrow> \<not> set voted \<subseteq> set (nextWinners node) \<Longrightarrow>
      connect_pools node voted revoked new = Inl ErrUnknownTicketSpent"
    and "enabled node \<longrightarrow> set voted \<subseteq> set (nextWinners node) \<Longrightarrow>
      \<exists>c. connect_pools node voted revoked new = Inr c \<and> ticket_wf (liveTickets c) \<and> n_params c = n_params node"
proof -
  from assms(1) have ok: "pools_ok node" "pools_apart node" "0 < TicketExpiry (n_params node)"
    by (simp_all add: node_inv_def params_ok_def)
  show "connect_pools node voted revoked new = Inl ErrUnknownTicketSpent"
    if "enabled node" "\<not> set voted \<subseteq> set (nextWinners node)"
    using that by (auto simp: connect_pools_def enabled_def hashInSlice_def list_all_iff)
  assume v: "enabled node \<longrightarrow> set voted \<subseteq> set (nextWinners node)"
  define vs where "vs = (if enabled node then voted else [])"
  have eq: "connect_pools node voted revoked new = connect_pools node vs revoked new"
    by (simp add: vs_def connect_pools_def enabled_def)
  have "set vs \<subseteq> set (nextWinners node)" using v by (auto simp: vs_def)
  from connect_pools_total [OF ok(1,2) lottery_winners(1) [OF assms(1,3,4)] assms(2,5,6) this] obtain c where
    c: "connect_pools node vs revoked new = Inr c" by blast
  from connect_pools_effect [OF c ok(1) block_allowedD(1,2) [OF assms(2)] ok(3)]
  have eff: "block_effect (childNode node new) c" by blast
  have "ticket_wf (liveTickets c)" by (rule pools_okD(1) [OF block_effectD(1) [OF eff]])
  moreover have "n_params c = n_params node" using block_effectD(2) [OF eff] by (simp add: node_frame_def childNode_def)
  ultimately show "\<exists>c. connect_pools node voted revoked new = Inr c \<and> ticket_wf (liveTickets c) \<and> n_params c = n_params node"
    using c eq by simp
qed

lemma connect_lottery_draws:
  assumes wf: "ticket_wf (liveTickets c)" and pos: "0 < TicketsPerBlock (n_params c)"
    and size: "uint (TicketsPerBlock (n_params c)) \<le> ImLen (liveTickets c)" "ImLen (liveTickets c) \<le> 0xFFFFFFFF"
    and all: "draws_all H (NewHash256PRNGFromIV iv') (word_of_int (ImLen (liveTickets c)))"
  shows "\<exists>m. connect_lottery H iv' c = Some (Inr m)"
proof -
  from findTicketIdxs_total [OF size(2,1) all] obtain lst prng where
    f: "findTicketIdxs H (ImLen (liveTickets c)) (TicketsPerBlock (n_params c)) (NewHash256PRNGFromIV iv') =
      Some (Inr (slice_of lst, prng))" by blast
  have "length (entries (liveTickets c)) < 2 ^ 32" using size(2) tt.len_elems [OF wf] by simp
  then obtain winners where "fetchWinners (slice_of lst) (liveTickets c) = Inr winners"
    using fetchWinners_selects [OF wf _ pos f] by blast
  with f show ?thesis by (simp add: connect_lottery_def)
qed

text \<open>
  C7: the outcome of connecting a block, to a node of the invariant with fewer
  than \<open>2 ^ 32\<close> live tickets and a positive \<open>TicketsPerBlock\<close>.  The block is allowed
  (it revokes only missed tickets, and its new tickets are in no pool) and lists no
  revocation and no new ticket twice.  From \<open>StakeEnabledHeight\<close> on, a vote for a ticket that did not
  win fails with \<open>ErrUnknownTicketSpent\<close>.  Otherwise the pools of the child are
  computed without an error, and the child is returned below the height at which
  winners are drawn.  From that height on a live pool of fewer than
  \<open>TicketsPerBlock\<close> tickets, or of more than a 32-bit index reaches, is an error
  of the lottery; with a pool of any other size the child is returned, provided
  that the generator draws every index of the pool again and again.
\<close>

theorem connectNode_total:
  assumes "node_inv H iv node" and "block_allowed node revoked new"
    and "0 < TicketsPerBlock (n_params node)" and "length (entries (liveTickets node)) < 2 ^ 32"
    and "distinct revoked" and "distinct new"
  shows "if enabled node \<and> \<not> set voted \<subseteq> set (nextWinners node)
    then connectNode H (Some node) iv' voted revoked new = Some (Inl ErrUnknownTicketSpent)
    else \<exists>c. connect_pools node voted revoked new = Inr c \<and>
      (if n_height c < word_of_int (StakeValidationHeight (n_params c) - 1)
       then \<exists>m. connectNode H (Some node) iv' voted revoked new = Some (Inr m)
       else if ImLen (liveTickets c) < uint (TicketsPerBlock (n_params c))
       then connectNode H (Some node) iv' voted revoked new = Some (Inl (LotteryError ListTooSmall))
       else if 0xFFFFFFFF < ImLen (liveTickets c)
       then connectNode H (Some node) iv' voted revoked new = Some (Inl (LotteryError ListTooBig))
       else draws_all H (NewHash256PRNGFromIV iv') (word_of_int (ImLen (liveTickets c))) \<longrightarrow>
         (\<exists>m. connectNode H (Some node) iv' voted revoked new = Some (Inr m)))"
proof (cases "enabled node \<and> \<not> set voted \<subseteq> set (nextWinners node)")
  case True
  with connect_pools_outcome(1) [OF assms] show ?thesis by (simp add: connectNode_def)
next
  case False
  with connect_pools_outcome(2) [OF assms, of voted] obtain c where
    c: "connect_pools node voted revoked new = Inr c" "ticket_wf (liveTickets c)" "n_params c = n_params node" by blast
  then have con: "connectNode H (Some node) iv' voted revoked new = connect_lottery H iv' c"
    by (simp add: connectNode_def)
  have "0 < TicketsPerBlock (n_params c)" using assms(3) c(3) by simp
  note draw = connect_lottery_draws [OF c(2) this]
  show ?thesis unfolding if_not_P [OF False] con
    by (rule exI [of _ c])
      (use draw c(1) in \<open>auto simp: connect_lottery_def findTicketIdxs_def not_le [symmetric] simp del: not_le\<close>)
qed

text \<open>A network on which the winners of the second block are drawn in the first.\<close>

definition ex_draw_params :: Params where
  "ex_draw_params = ex_params\<lparr>StakeValidationHeight := 2\<rparr>"

theorem connectNode_total_witness:
  "\<exists>c m. connect_pools (genesisNode ex_draw_params) [] [] [ex_key 1, ex_key 2] = Inr c \<and>
     word_of_int (StakeValidationHeight (n_params c) - 1) \<le> n_height c \<and> ImLen (liveTickets c) = 2 \<and>
     connectNode ex_H (Some (genesisNode ex_draw_params)) ex_hash [] [] [ex_key 1, ex_key 2] = Some (Inr m)"
proof -
  let ?g = "genesisNode ex_draw_params"
  have "params_ok ex_draw_params" by code_simp
  then have inv: "node_inv ex_H ex_hash ?g" by (rule genesis_inv)
  have side: "block_allowed ?g [] [ex_key 1, ex_key 2]" "0 < TicketsPerBlock (n_params ?g)"
    "distinct ([] :: hash list)" "distinct [ex_key 1, ex_key 2 :: hash]" "entries (liveTickets ?g) = []" by code_simp+
  then have len: "length (entries (liveTickets ?g)) < 2 ^ 32" by simp
  have "case connect_pools ?g [] [] [ex_key 1, ex_key 2] of Inl _ \<Rightarrow> False
     | Inr c \<Rightarrow> word_of_int (StakeValidationHeight (n_params c) - 1) \<le> n_height c \<and> ImLen (liveTickets c) = 2 \<and>
         uint (TicketsPerBlock (n_params c)) = 2" by code_simp
  then obtain c where c: "connect_pools ?g [] [] [ex_key 1, ex_key 2] = Inr c"
    "word_of_int (StakeValidationHeight (n_params c) - 1) \<le> n_height c" "ImLen (liveTickets c) = 2"
    "uint (TicketsPerBlock (n_params c)) = 2" by (auto split: sum.splits)
  have "draws_all ex_H (NewHash256PRNGFromIV ex_hash) 2" using ex_draws_all by (simp add: ex_prng_def)
  with connectNode_total [OF inv side(1,2) len side(3,4), of "[]" ex_hash] c
  have "\<exists>m. connectNode ex_H (Some ?g) ex_hash [] [] [ex_key 1, ex_key 2] = Some (Inr m)"
    by (simp add: not_less [symmetric])
  with c show ?thesis by blast
qed

lemma heights_agree:
  assumes "params_ok (n_params node)" and "unat (n_height node + 1) = unat (n_height node) + 1"
  shows "word_of_int (StakeValidationHeight (n_params node)) \<le> n_height node + 1 \<longleftrightarrow>
      word_of_int (StakeValidationHeight (n_params node) - 1) \<le> n_height node"
    and "word_of_int (StakeValidationHeight (n_params node) - 1) \<le> n_height node \<Longrightarrow> enabled node"
proof -
  let ?p = "n_params node"
  have "unat (word_of_int (StakeValidationHeight ?p) :: uint32) = nat (StakeValidationHeight ?p)"
    "unat (word_of_int (StakeValidationHeight ?p - 1) :: uint32) = nat (StakeValidationHeight ?p - 1)"
    "unat (word_of_int (StakeEnabledHeight ?p) :: uint32) = nat (StakeEnabledHeight ?p)"
    by (rule unat_height; use assms(1) in \<open>simp add: params_ok_def\<close>)+
  with assms show "word_of_int (StakeValidationHeight (n_params node)) \<le> n_height node + 1 \<longleftrightarrow>
      word_of_int (StakeValidationHeight (n_params node) - 1) \<le> n_height node"
    "word_of_int (StakeValidationHeight (n_params node) - 1) \<le> n_height node \<Longrightarrow> enabled node"
    by (auto simp: word_le_nat_alt params_ok_def enabled_def)
qed

lemma disconnect_pools:
  assumes con: "connectNode H (Some node) iv' voted revoked new = Some (Inr m)" and inv: "node_inv H iv node"
    and al: "block_allowed node revoked new"
    and n: "\<And>p. pool_of n p = pool_of m p" "nextWinners n = []"
  shows "\<exists>r. foldE disconnect_undo (databaseUndoUpdate m) n = Inr r \<and> pools_ok r \<and> cell r = cell node \<and>
    databaseUndoUpdate r = databaseUndoUpdate n \<and> node_frame r = node_frame (n\<lparr>nextWinners := nextWinners node\<rparr>)"
proof -
  from inv have ok: "pools_ok node" "params_ok (n_params node)" and lo: "lottery_ok H iv node"
    by (simp_all add: node_inv_def)
  note P = connectNode_parts [OF con ok(1) al ok(2)]
  note D = block_effectD [OF P(1), simplified]
  have cell: "cell n = cell m" using n(1) by (simp add: cell_def fun_eq_iff)
  with D(1) n(1) have pn: "pools_ok n" by (simp add: pools_ok_def)
  have ap: "sorted_wrt apart (databaseUndoUpdate m)" using P(1) by (simp add: block_effect_def)
  have "\<exists>r. foldE disconnect_undo (databaseUndoUpdate m) n = Inr r \<and> pools_ok r \<and>
      (databaseUndoUpdate r, node_frame r) = fold restore_winner (databaseUndoUpdate m) (databaseUndoUpdate n, node_frame n) \<and>
      cell r = cell node"
    by (rule disc.replay_to [OF ap pn]) (use D(3-6) in \<open>auto simp: cell\<close>)
  then obtain r where r: "foldE disconnect_undo (databaseUndoUpdate m) n = Inr r" "pools_ok r" "cell r = cell node"
      "databaseUndoUpdate r = databaseUndoUpdate n"
      "node_frame r = node_frame (n\<lparr>nextWinners := nextWinners n @ map TicketHash (filter is_winner (databaseUndoUpdate m))\<rparr>)"
    by (auto simp: node_frame_def restore_winners)
  have "map TicketHash (filter is_winner (databaseUndoUpdate m)) = nextWinners node"
    using block_undo_hashes(5) [OF P(2)] heights_agree(2) [OF ok(2) block_allowedD(3) [OF al]] lo
    by (auto simp: lottery_ok_def split: if_splits)
  with r n(2) show ?thesis by auto
qed

lemma disconnectNode_given:
  assumes "n_height m \<noteq> 1"
    and "foldE disconnect_undo (databaseUndoUpdate m) (restoredNode m utds tickets) = Inr r"
  shows "disconnectNode H m iv (Some utds) (Some tickets) dbTx =
     (if word_of_int (StakeValidationHeight (n_params m)) \<le> n_height m then
        (case findTicketIdxs H (ImLen (liveTickets r)) (TicketsPerBlock (n_params m)) (NewHash256PRNGFromIV iv) of
           None \<Rightarrow> None
         | Some (Inl e) \<Rightarrow> Some (Inl (LotteryError e))
         | Some (Inr (_, prng)) \<Rightarrow> Some (Inr (r\<lparr>finalState := lottery_checksum H (nextWinners r) prng\<rparr>)))
      else Some (Inr r))"
  using assms by (simp add: disconnectNode_def parent_data_def)

lemma restoredNode_fields [simp]:
  "pool_of (restoredNode m utds tickets) p = pool_of m p" "nextWinners (restoredNode m utds tickets) = []"
  "databaseUndoUpdate (restoredNode m utds tickets) = utds"
  by (cases p) (simp_all add: restoredNode_def)

lemma disconnect_later:
  assumes "node_inv H iv node" and "block_allowed node revoked new"
    and "connectNode H (Some node) iv' voted revoked new = Some (Inr m)" and "n_height node \<noteq> 0"
  shows "\<exists>r. disconnectNode H m iv (Some (databaseUndoUpdate node)) (Some (databaseBlockTickets node)) dbTx =
      Some (Inr r) \<and> same_node r node"
proof -
  from assms(1) have ok: "pools_ok node" "params_ok (n_params node)" and lo: "lottery_ok H iv node"
    by (simp_all add: node_inv_def)
  note F = connect_frame [OF connectNode_parts(1) [OF assms(3) ok(1) assms(2) ok(2)]]
  note hs = heights_agree(1) [OF ok(2) block_allowedD(3) [OF assms(2)]]
  let ?n = "restoredNode m (databaseUndoUpdate node) (databaseBlockTickets node)"
  from disconnect_pools [OF assms(3,1,2) restoredNode_fields(1,2)] obtain r where
    r: "foldE disconnect_undo (databaseUndoUpdate m) ?n = Inr r" "pools_ok r" "cell r = cell node"
      "databaseUndoUpdate r = databaseUndoUpdate node" "node_frame r = node_frame (?n\<lparr>nextWinners := nextWinners node\<rparr>)"
    by fastforce
  from same_entries [OF r(2) ok(1)] r(3) have en: "entries (pool_of r p) = entries (pool_of node p)"
    "ImLen (pool_of r p) = ImLen (pool_of node p)" for p by simp_all
  from r(5) have fr: "n_height r = n_height node" "nextWinners r = nextWinners node"
      "databaseBlockTickets r = databaseBlockTickets node" "n_params r = n_params node" "finalState r = replicate 6 0"
    by (auto simp: node_frame_def restoredNode_def F)
  have "n_height m \<noteq> 1" using assms(4) by (simp add: F)
  note unf = disconnectNode_given [OF this r(1)]
  have same: "same_node (r\<lparr>finalState := finalState node\<rparr>) node"
  proof -
    have "pool_of (r\<lparr>finalState := finalState node\<rparr>) p = pool_of r p" for p by (cases p) simp_all
    with en fr r(4) show ?thesis by (simp add: same_node_def node_frame_def)
  qed
  show ?thesis
  proof (cases "word_of_int (StakeValidationHeight (n_params node) - 1) \<le> n_height node")
    case True
    with lo obtain idxs prng where l: "findTicketIdxs H (ImLen (liveTickets node)) (TicketsPerBlock (n_params node))
        (NewHash256PRNGFromIV iv) = Some (Inr (idxs, prng))" "finalState node = lottery_checksum H (nextWinners node) prng"
      unfolding lottery_ok_def by auto
    have "ImLen (liveTickets r) = ImLen (liveTickets node)" using en(2) [of LivePool] by simp
    with l True hs same fr(2) show ?thesis unfolding unf F by simp
  next
    case low: False
    with lo have "finalState node = replicate 6 0" unfolding lottery_ok_def by simp
    with fr(5) have "r = r\<lparr>finalState := finalState node\<rparr>" by simp
    with low hs same show ?thesis unfolding unf F by simp
  qed
qed

text \<open>
  C4: disconnecting the block that was just connected restores the node of
  its parent, given the undo data and the new tickets of the parent and the
  initial value of its lottery: the same entries in all pools, the same height,
  winners and checksum.
\<close>

theorem disconnect_connect:
  assumes "node_inv H iv node" and "block_allowed node revoked new"
    and "connectNode H (Some node) iv' voted revoked new = Some (Inr m)"
  shows "\<exists>r. disconnectNode H m iv (Some (databaseUndoUpdate node)) (Some (databaseBlockTickets node)) dbTx =
      Some (Inr r) \<and> same_node r node"
proof (cases "n_height node = 0")
  case True
  with assms(1) have g: "node = genesisNode (n_params node)" by (simp add: node_inv_def)
  from assms(1) have ok: "pools_ok node" "params_ok (n_params node)" by (simp_all add: node_inv_def)
  note F = connect_frame [OF connectNode_parts(1) [OF assms(3) ok(1) assms(2) ok(2)]]
  have "same_node (genesisNode (n_params node)) node" by (subst (2) g) (simp add: same_node_def)
  with True show ?thesis by (simp add: disconnectNode_def F)
qed (use assms disconnect_later in blast)

theorem disconnect_connect_witness:
  "\<exists>r. disconnectNode ex_H (ex_connect ex_node [ex_key 1] [ex_key 4]) ex_hash
     (Some (databaseUndoUpdate ex_node)) (Some (databaseBlockTickets ex_node)) None = Some (Inr r) \<and> same_node r ex_node"
  using disconnect_connect [OF ex_node_inv ex_allowed(3) ex_connect_ok(3)] .

section \<open>Blocks that cannot be disconnected\<close>

text \<open>
  The replay of tickets that left the live pool stops at the first one that is
  in the missed pool by its entry and no longer there.
\<close>

lemma disconnect_leaving:
  assumes "leaves u" and "undo_ok u" and "ticket_wf (liveTickets n)" and "ticket_wf (missedTickets n)"
    and "Get (liveTickets n) (TicketHash u) = None" and "u_Missed u \<longrightarrow> Get (missedTickets n) (TicketHash u) \<noteq> None"
  shows "\<exists>n'. disconnect_undo u n = Inr n' \<and> ticket_wf (liveTickets n') \<and> ticket_wf (missedTickets n') \<and>
    (\<forall>k. k \<noteq> TicketHash u \<longrightarrow> Get (liveTickets n') k = Get (liveTickets n) k \<and>
      Get (missedTickets n') k = Get (missedTickets n) k)"
  using assms
  by (cases "u_Missed u"; cases "u_Expired u")
    (simp_all add: disconnect_undo_def leaves_def undo_ok_def Let_def safeDelete_def safePut_def Has_Get pool_simps)

lemma replay_missing:
  assumes "ticket_wf (liveTickets n)" and "ticket_wf (missedTickets n)" and "distinct (map TicketHash us)"
    and "\<And>u. u \<in> set us \<Longrightarrow> leaves u \<and> undo_ok u \<and> Get (liveTickets n) (TicketHash u) = None"
    and "\<exists>u \<in> set us. u_Missed u \<and> Get (missedTickets n) (TicketHash u) = None"
  shows "foldE disconnect_undo us n = Inl ErrMissingTicket"
  using assms
proof (induction us arbitrary: n)
  case (Cons u us)
  from Cons.prems(4) [of u] have u: "leaves u" "undo_ok u" "Get (liveTickets n) (TicketHash u) = None" by simp_all
  show ?case
  proof (cases "u_Missed u \<and> Get (missedTickets n) (TicketHash u) = None")
    case True
    with u show ?thesis
      by (simp add: disconnect_undo_def leaves_def Let_def safeDelete_def Has_Get)
  next
    case False
    then have "u_Missed u \<longrightarrow> Get (missedTickets n) (TicketHash u) \<noteq> None" by simp
    from disconnect_leaving [OF u(1,2) Cons.prems(1,2) u(3) this] obtain n' where n': "disconnect_undo u n = Inr n'"
      "ticket_wf (liveTickets n')" "ticket_wf (missedTickets n')"
      "\<And>k. k \<noteq> TicketHash u \<Longrightarrow> Get (liveTickets n') k = Get (liveTickets n) k"
      "\<And>k. k \<noteq> TicketHash u \<Longrightarrow> Get (missedTickets n') k = Get (missedTickets n) k" by blast
    from Cons.prems(3) have other: "TicketHash u' \<noteq> TicketHash u" if "u' \<in> set us" for u'
      using imageI [OF that, of TicketHash] by auto
    have "foldE disconnect_undo us n' = Inl ErrMissingTicket"
    proof (rule Cons.IH)
      show "\<exists>u' \<in> set us. u_Missed u' \<and> Get (missedTickets n') (TicketHash u') = None"
        using Cons.prems(5) False other n'(5) by auto
    qed (use Cons.prems(3,4) other n'(2-4) in auto)
    with n'(1) show ?thesis by simp
  qed
qed simp

lemma revoked_cells:
  assumes "foldE connect_revoked ks m = Inr n" and "pools_ok m"
  shows "pools_ok n \<and> n_height n = n_height m \<and> cell n LivePool = cell m LivePool \<and>
    (\<forall>k. cell n MissedPool k = None \<or> cell n MissedPool k = cell m MissedPool k) \<and>
    (\<forall>k \<in> set ks. cell m MissedPool k \<noteq> None \<and> cell n MissedPool k = None) \<and>
    (\<exists>us. databaseUndoUpdate n = databaseUndoUpdate m @ us)"
  using assms
proof (induction ks arbitrary: m)
  case (Cons k ks)
  then obtain m' where m': "connect_revoked k m = Inr m'" "foldE connect_revoked ks m' = Inr n"
    by (auto simp: bindE_eq_Inr_iff)
  from connect_revoked_applies [OF Cons.prems(2) m'(1)] obtain u where
    u: "applies u m m'" "TicketHash u = k" "u_Missed u" "u_Revoked u" by blast
  then have c: "pools_ok m'" "cell m' LivePool = cell m LivePool" "cell m' MissedPool = (cell m MissedPool)(k := None)"
      "cell m MissedPool k \<noteq> None"
    by (auto simp: applies_def)
  note IH = Cons.IH [OF m'(2) c(1), unfolded c(2,3)]
  then have "cell n MissedPool k = None" by (metis fun_upd_same)
  moreover have "cell n MissedPool j = None \<or> cell n MissedPool j = cell m MissedPool j" for j
    using IH by (metis fun_upd_apply)
  ultimately show ?case using IH c(4) applies_frame(1,2) [OF u(1)] by (auto split: if_splits)
qed simp

lemma added_cells:
  assumes "foldE connect_new ks m = Inr n" and "pools_ok m"
  shows "pools_ok n \<and> n_height n = n_height m \<and> cell n MissedPool = cell m MissedPool \<and>
    (\<forall>k. k \<notin> set ks \<longrightarrow> cell n LivePool k = cell m LivePool k) \<and>
    (\<exists>us. databaseUndoUpdate n = databaseUndoUpdate m @ us)"
  using assms
proof (induction ks arbitrary: m)
  case (Cons k ks)
  then obtain m' where m': "connect_new k m = Inr m'" "foldE connect_new ks m' = Inr n"
    by (auto simp: bindE_eq_Inr_iff)
  from connect_new_applies [OF Cons.prems(2) m'(1)] obtain u where
    u: "applies u m m'" "TicketHash u = k" "\<not> u_Missed u" "\<not> u_Revoked u" by blast
  then have c: "pools_ok m'" "cell m' MissedPool = cell m MissedPool"
      "\<And>j. j \<noteq> k \<Longrightarrow> cell m' LivePool j = cell m LivePool j"
    by (auto simp: applies_def)
  from Cons.IH [OF m'(2) c(1)] c applies_frame(1,2) [OF u(1)] show ?case by auto
qed simp

lemma distinct_hashes: "sorted_wrt (\<lambda>u u'. TicketHash u \<noteq> TicketHash u') us \<Longrightarrow> distinct (map TicketHash us)"
  by (induction us) auto

lemma leaving_hashes:
  assumes "leaving c m"
  shows "distinct (map TicketHash (databaseUndoUpdate m))"
    and "u \<in> set (databaseUndoUpdate m) \<Longrightarrow> leaves u \<and> undo_ok u \<and>
      cell c LivePool (TicketHash u) \<noteq> None \<and> cell m LivePool (TicketHash u) = None"
proof -
  from assms have eff: "block_effect c m" and l: "\<And>u. u \<in> set (databaseUndoUpdate m) \<Longrightarrow> leaves u"
    by (simp_all add: leaving_def)
  then have "sorted_wrt apart (databaseUndoUpdate m)" by (simp add: block_effect_def)
  then have "sorted_wrt (\<lambda>u u'. TicketHash u \<noteq> TicketHash u') (databaseUndoUpdate m)"
    by (rule sorted_wrt_mono_rel [rotated]) (use l in \<open>auto simp: apart_def leaves_def all_pool\<close>)
  then show "distinct (map TicketHash (databaseUndoUpdate m))" by (rule distinct_hashes)
  show "leaves u \<and> undo_ok u \<and> cell c LivePool (TicketHash u) \<noteq> None \<and> cell m LivePool (TicketHash u) = None"
    if "u \<in> set (databaseUndoUpdate m)"
    using l [OF that] block_effectD(3) [OF eff that] block_effectD(4,5) [OF eff that, of LivePool]
    by (auto simp: leaves_def)
qed

lemma replay_fails:
  assumes con: "connect_pools node voted revoked new = Inr m" and ok: "pools_ok node" and en: "enabled node"
    and fresh: "set new \<inter> dom (cell node LivePool) = {}"
    and t: "t \<in> set revoked" "cell node MissedPool t = None"
    and n: "\<And>p. pool_of n p = pool_of m p"
  shows "foldE disconnect_undo (databaseUndoUpdate m) n = Inl ErrMissingTicket" and "n_height m = n_height node + 1"
proof -
  let ?c = "childNode node new"
  have lv: "leaving ?c ?c" using ok by (simp add: leaving_def block_effect_refl pools_ok_def)
  from con en obtain c1 c2 c3 where steps: "foldE (connect_winner voted) (nextWinners node) ?c = Inr c1"
      "connect_expired c1 = Inr c2" "foldE connect_revoked revoked c2 = Inr c3" "foldE connect_new new c3 = Inr m"
    by (auto simp: connect_pools_def enabled_def bindE_eq_Inr_iff split: if_splits)
  have l2: "leaving ?c c2"
    by (rule connect_expiring(1) [OF steps(2) connect_winners(1) [OF steps(1) lv childNode_fields(5)]])
  note R = revoked_cells [OF steps(3) leaving_pools [OF l2]]
  then have "pools_ok c3" by blast
  note N = added_cells [OF steps(4) this]
  from R N obtain us where us: "databaseUndoUpdate m = databaseUndoUpdate c2 @ us" by auto
  have cells: "Get (liveTickets n) = cell m LivePool" "Get (missedTickets n) = cell m MissedPool"
    using n [of LivePool] n [of MissedPool] by (simp_all add: cell_def)
  note L = leaving_hashes [OF l2]
  have live: "cell m LivePool (TicketHash u) = None" if "u \<in> set (databaseUndoUpdate c2)" for u
  proof -
    from L(2) [OF that] fresh have "TicketHash u \<notin> set new" by auto
    with R N L(2) [OF that] show ?thesis by simp
  qed
  have "cell c2 MissedPool t \<noteq> cell ?c MissedPool t" using R t by auto
  then obtain u where u: "u \<in> set (databaseUndoUpdate c2)" "u_Missed u" "TicketHash u = t"
    using block_effectD(6) [of ?c c2 MissedPool t] l2 by (auto simp: leaving_def)
  have "foldE disconnect_undo (databaseUndoUpdate c2) n = Inl ErrMissingTicket"
  proof (rule replay_missing)
    show "ticket_wf (liveTickets n)" "ticket_wf (missedTickets n)"
      using N pools_okD(1,2) [of m] n [of LivePool] n [of MissedPool] by simp_all
    show "\<exists>u \<in> set (databaseUndoUpdate c2). u_Missed u \<and> Get (missedTickets n) (TicketHash u) = None"
      using u R N t(1) unfolding cells by auto
  qed (use L live in \<open>auto simp: cells\<close>)
  then show "foldE disconnect_undo (databaseUndoUpdate m) n = Inl ErrMissingTicket" by (simp add: us foldE_append)
  have "n_height c2 = n_height ?c" using block_effectD(2) [of ?c c2] l2 by (simp add: leaving_def node_frame_def)
  with R N show "n_height m = n_height node + 1" by simp
qed

lemma connect_lottery_frame:
  assumes "connect_lottery H iv c = Some (Inr m)"
  shows "pool_of m p = pool_of c p" "databaseUndoUpdate m = databaseUndoUpdate c" "n_height m = n_height c"
  using assms by (cases p; auto simp: connect_lottery_def split: if_splits option.splits sum.splits)+

definition ex_fresh :: Node where
  "ex_fresh = ex_connect (genesisNode ex_params) [] [ex_key 1, ex_key 2]"

lemma ex_fresh_node:
  "node_inv ex_H ex_hash ex_fresh" "enabled ex_fresh" "block_allowed ex_fresh [] []"
  "connectNode ex_H (Some ex_fresh) ex_hash [] [ex_key 1] [] = Some (Inr (ex_connect ex_fresh [ex_key 1] []))"
  "\<not> list_all (ExistsMissedTicket ex_fresh) [ex_key 1]"
proof -
  have "params_ok ex_params" by code_simp
  then have "node_inv ex_H ex_hash (genesisNode ex_params)" by (rule genesis_inv)
  from connect_inv [OF this ex_allowed(1) ex_connect_ok(1)] show "node_inv ex_H ex_hash ex_fresh"
    by (simp add: ex_fresh_def)
qed code_simp+

text \<open>
  C40: which blocks can be disconnected.  The undo data is replayed in the order
  in which it was recorded, not in reverse, and this matters for a ticket with
  two entries.  From \<open>StakeEnabledHeight\<close> on, a block with new tickets that are
  in no pool, once connected, is taken back if every ticket it revokes was
  missed before it.  If it revokes a ticket that was not, which connects when
  the ticket leaves the live pool as missed or expired in the same block, then
  disconnecting it fails with \<open>ErrMissingTicket\<close>, whatever data of the parent is
  given.
\<close>

theorem undo_order_matters:
  assumes "node_inv H iv node" and "enabled node" and "block_allowed node [] new"
    and "connectNode H (Some node) iv' voted revoked new = Some (Inr m)"
  shows "if list_all (ExistsMissedTicket node) revoked
    then \<exists>r. disconnectNode H m iv (Some (databaseUndoUpdate node)) (Some (databaseBlockTickets node)) dbTx =
      Some (Inr r) \<and> same_node r node
    else disconnectNode H m iv'' (Some utds) (Some tickets) dbTx = Some (Inl ErrMissingTicket)"
proof -
  from assms(1) have ok: "pools_ok node" "params_ok (n_params node)" by (simp_all add: node_inv_def)
  have h: "n_height node + 1 \<noteq> 1"
    using assms(2) ok(2) unat_height [of "StakeEnabledHeight (n_params node)"]
    by (auto simp: enabled_def params_ok_def word_le_nat_alt)
  show ?thesis
  proof (cases "list_all (ExistsMissedTicket node) revoked")
    case True
    with assms(3) have "block_allowed node revoked new" by (simp add: block_allowed_def)
    from disconnect_later [OF assms(1) this assms(4)] h True show ?thesis by auto
  next
    case False
    then obtain t where t: "t \<in> set revoked" "cell node MissedPool t = None"
      by (auto simp: list_all_iff ExistsMissedTicket_def Has_Get cell_def)
    from assms(4) obtain c where c: "connect_pools node voted revoked new = Inr c"
      and l: "connect_lottery H iv' c = Some (Inr m)" by (auto simp: connectNode_def split: sum.splits)
    note m = connect_lottery_frame [OF l]
    note R = replay_fails [OF c ok(1) assms(2) block_allowedD(1) [OF assms(3)] t, of "restoredNode m utds tickets"]
    have "foldE disconnect_undo (databaseUndoUpdate m) (restoredNode m utds tickets) = Inl ErrMissingTicket"
      "n_height m = n_height node + 1"
      using R by (simp_all add: m)
    with h False show ?thesis by (simp add: disconnectNode_def parent_data_def)
  qed
qed

theorem undo_order_matters_witness:
  "\<exists>m. connectNode ex_H (Some ex_fresh) ex_hash [] [ex_key 1] [] = Some (Inr m) \<and>
     disconnectNode ex_H m ex_hash (Some (databaseUndoUpdate ex_fresh)) (Some (databaseBlockTickets ex_fresh)) None =
       Some (Inl ErrMissingTicket)"
  using undo_order_matters [OF ex_fresh_node(1-4), of "None" ex_hash "databaseUndoUpdate ex_fresh" "databaseBlockTickets ex_fresh"]
    ex_fresh_node(4,5) by simp

end
