(* ===== verification/StakeStore.thy ===== *)
theory StakeStore
  imports StakeUndo
begin

text \<open>
  How \<open>blockchain/stake/tickets.go\<close> keeps the best node in the ticket
  database: creating and resetting it, writing a connected or a disconnected
  node, and loading the best node.  The theorems say that the database follows
  the node in memory: it refines the sequence of \<open>connectNode\<close> and
  \<open>disconnectNode\<close>, and loading it gives the node back.
\<close>

section \<open>Writing the best node\<close>

fun bucket_of :: "pool \<Rightarrow> bucket_name" where
  "bucket_of LivePool = LiveTicketsBucket"
| "bucket_of MissedPool = MissedTicketsBucket"
| "bucket_of RevokedPool = RevokedTicketsBucket"

definition zeroHash :: hash where
  "zeroHash = replicate HashSize 0"

text \<open>The winners to store: zero hashes before winners are drawn.\<close>

definition stored_winners :: "Node \<Rightarrow> stake_error + hash list" where
  "stored_winners node =
     (let n = unat (TicketsPerBlock (n_params node)) in
      if n_height node \<ge> word_of_int (StakeValidationHeight (n_params node) - 1) then
        if length (nextWinners node) < n then Inl IndexPanic else Inr (take n (nextWinners node))
      else Inr (replicate n zeroHash))"

definition best_state :: "Node \<Rightarrow> hash \<Rightarrow> hash list \<Rightarrow> BestChainState" where
  "best_state node h winners =
     \<lparr>bs_Hash = h, bs_Height = n_height node,
      bs_Live = word_of_int (ImLen (liveTickets node)),
      bs_Missed = word_of_int (ImLen (missedTickets node)),
      bs_Revoked = word_of_int (ImLen (revokedTickets node)),
      bs_PerBlock = TicketsPerBlock (n_params node), bs_NextWinners = winners\<rparr>"

text \<open>The common end of the two functions: block data and best state.\<close>

definition write_block_data :: "Node \<Rightarrow> hash \<Rightarrow> stakeDB \<Rightarrow> stake_error + stakeDB" where
  "write_block_data node h db =
     bindE (liftDB (DbPutBlockUndoData db (n_height node) (databaseUndoUpdate node))) (\<lambda>db.
     bindE (liftDB (DbPutNewTickets db (n_height node) (databaseBlockTickets node))) (\<lambda>db.
     bindE (stored_winners node) (\<lambda>winners.
     liftDB (DbPutBestState db (best_state node h winners)))))"

definition write_connected :: "UndoTicketData \<Rightarrow> stakeDB \<Rightarrow> stake_error + stakeDB" where
  "write_connected u db =
     (let k = TicketHash u; h = TicketHeight u in
      if \<not> u_Missed u \<and> \<not> u_Revoked u \<and> \<not> u_Spent u then
        liftDB (DbPutTicket db LiveTicketsBucket k h (u_Missed u) (u_Revoked u) (u_Spent u) (u_Expired u))
      else if u_Missed u \<and> u_Revoked u then
        bindE (liftDB (DbDeleteTicket db MissedTicketsBucket k)) (\<lambda>db.
        liftDB (DbPutTicket db RevokedTicketsBucket k h (u_Missed u) (u_Revoked u) (u_Spent u) (u_Expired u)))
      else if u_Missed u \<and> \<not> u_Revoked u then
        bindE (liftDB (DbDeleteTicket db LiveTicketsBucket k)) (\<lambda>db.
        liftDB (DbPutTicket db MissedTicketsBucket k h True (u_Revoked u) (u_Spent u) (u_Expired u)))
      else if u_Spent u then liftDB (DbDeleteTicket db LiveTicketsBucket k)
      else Inl ErrMemoryCorruption)"

definition WriteConnectedBestNode :: "stakeDB \<Rightarrow> Node \<Rightarrow> hash \<Rightarrow> stake_error + stakeDB" where
  "WriteConnectedBestNode db node h =
     bindE (foldE write_connected (databaseUndoUpdate node) db) (write_block_data node h)"

definition write_disconnected :: "UndoTicketData \<Rightarrow> stakeDB \<Rightarrow> stake_error + stakeDB" where
  "write_disconnected u db =
     (let k = TicketHash u; h = TicketHeight u in
      if \<not> u_Missed u \<and> \<not> u_Revoked u \<and> \<not> u_Spent u then liftDB (DbDeleteTicket db LiveTicketsBucket k)
      else if u_Missed u \<and> u_Revoked u then
        bindE (liftDB (DbDeleteTicket db RevokedTicketsBucket k)) (\<lambda>db.
        liftDB (DbPutTicket db MissedTicketsBucket k h (u_Missed u) False (u_Spent u) (u_Expired u)))
      else if u_Missed u \<and> \<not> u_Revoked u then
        bindE (liftDB (DbDeleteTicket db MissedTicketsBucket k)) (\<lambda>db.
        liftDB (DbPutTicket db LiveTicketsBucket k h False (u_Revoked u) (u_Spent u) False))
      else if u_Spent u then
        liftDB (DbPutTicket db LiveTicketsBucket k h (u_Missed u) (u_Revoked u) False (u_Expired u))
      else Inl ErrMemoryCorruption)"

definition drop_block_data :: "uint32 \<Rightarrow> stakeDB \<Rightarrow> stake_error + stakeDB" where
  "drop_block_data i db =
     bindE (liftDB (DbDropBlockUndoData db i)) (\<lambda>db. liftDB (DbDropNewTickets db i))"

lemma unat_minus_one_less: "h < unat (i :: uint32) \<Longrightarrow> unat (i - 1) < unat i"
  by (cases "i = 0") (simp_all add: unat_minus_one)

text \<open>The loop \<open>for i := formerBest.Height; i > node.height; i--\<close>.\<close>

function drop_loop :: "uint32 \<Rightarrow> uint32 \<Rightarrow> stakeDB \<Rightarrow> stake_error + stakeDB" where
  "drop_loop i height db =
     (if i > height then bindE (drop_block_data i db) (drop_loop (i - 1) height) else Inr db)"
  by pat_completeness auto
termination
  by (relation "measure (\<lambda>(i, height, db). unat i)") (auto simp: word_less_nat_alt unat_minus_one_less)

declare drop_loop.simps [simp del]

definition WriteDisconnectedBestNode ::
  "stakeDB \<Rightarrow> Node \<Rightarrow> hash \<Rightarrow> UndoTicketData list \<Rightarrow> stake_error + stakeDB" where
  "WriteDisconnectedBestNode db node h childUndoData =
     bindE (liftDB (DbFetchBestState db)) (\<lambda>formerBest.
     bindE (if bs_Height formerBest > n_height node
            then drop_loop (bs_Height formerBest) (n_height node) db
            else Inr db) (\<lambda>db.
     bindE (foldE write_disconnected childUndoData db) (write_block_data node h)))"

section \<open>Creating and loading\<close>

definition InitDatabaseState :: "int \<Rightarrow> stakeDB \<Rightarrow> Params \<Rightarrow> stake_error + stakeDB \<times> Node" where
  "InitDatabaseState now db params =
     bindE (liftDB (DbCreate now db)) (\<lambda>db.
     let genesis = genesisNode params in
     bindE (liftDB (DbPutBlockUndoData db (n_height genesis) (databaseUndoUpdate genesis))) (\<lambda>db.
     bindE (liftDB (DbPutNewTickets db (n_height genesis) (databaseBlockTickets genesis))) (\<lambda>db.
     let nextWinners = replicate (unat (TicketsPerBlock params)) zeroHash in
     bindE (liftDB (DbPutBestState db (best_state genesis (GenesisHash params) nextWinners))) (\<lambda>db.
     Inr (db, genesis)))))"

definition ResetDatabase :: "int \<Rightarrow> stakeDB \<Rightarrow> Params \<Rightarrow> stake_error + stakeDB" where
  "ResetDatabase now db params =
     bindE (liftDB (DbRemoveAllBuckets db)) (\<lambda>db.
     bindE (InitDatabaseState now db params) (\<lambda>(db, _). Inr db))"

text \<open>The pools are loaded one after the other, each checked against the best state.\<close>

definition load_pool :: "stakeDB \<Rightarrow> bucket_name \<Rightarrow> int \<Rightarrow> stake_error + immutable" where
  "load_pool db name len =
     bindE (liftDB (DbLoadAllTickets db name)) (\<lambda>t.
     if ImLen t \<noteq> len then Inl ErrDatabaseCorrupt else Inr t)"

definition load_node ::
  "stakeDB \<Rightarrow> uint32 \<Rightarrow> hash \<Rightarrow> Params \<Rightarrow> stake_error + BestChainState \<times> Node" where
  "load_node db height blockHash params =
     bindE (liftDB (DbFetchDatabaseInfo db)) (\<lambda>info.
     bindE (liftDB (DbFetchBestState db)) (\<lambda>state.
     if bs_Hash state \<noteq> blockHash \<or> bs_Height state \<noteq> height then Inl ErrDatabaseCorrupt
     else
       bindE (load_pool db LiveTicketsBucket (uint (bs_Live state))) (\<lambda>live.
       bindE (load_pool db MissedTicketsBucket (sint (bs_Missed state))) (\<lambda>missed.
       bindE (load_pool db RevokedTicketsBucket (sint (bs_Revoked state))) (\<lambda>revoked.
       bindE (liftDB (DbFetchBlockUndoData db height)) (\<lambda>utds.
       bindE (liftDB (DbFetchNewTickets db height)) (\<lambda>tickets.
       Inr (state, \<lparr>n_height = height, liveTickets = live, missedTickets = missed, revokedTickets = revoked,
         databaseUndoUpdate = utds, databaseBlockTickets = tickets, nextWinners = [],
         finalState = replicate 6 0, n_params = params\<rparr>))))))))"

text \<open>
  \<open>headerBytes\<close> is the result of \<open>header.Bytes()\<close>.  The last statement
  of the function logs \<open>info.Version\<close>, which panics if the database
  information was missing.
\<close>

definition LoadBestNode ::
  "(byte list \<Rightarrow> hash) \<Rightarrow> stakeDB \<Rightarrow> uint32 \<Rightarrow> hash \<Rightarrow> byte list \<Rightarrow> Params \<Rightarrow> (stake_error + Node) option" where
  "LoadBestNode H db height blockHash headerBytes params =
     (case load_node db height blockHash params of
        Inl e \<Rightarrow> Some (Inl e)
      | Inr (state, node) \<Rightarrow>
          (let finish = (\<lambda>node. if DbFetchDatabaseInfo db = Inr None then Inl NilPanic else Inr node) in
           if height \<ge> word_of_int (StakeValidationHeight params - 1) then
             (case findTicketIdxs H (ImLen (liveTickets node)) (TicketsPerBlock params)
                     (NewHash256PRNG H headerBytes) of
                None \<Rightarrow> None
              | Some (Inl e) \<Rightarrow> Some (Inl (LotteryError e))
              | Some (Inr (_, prng)) \<Rightarrow>
                  Some (finish (node\<lparr>nextWinners := bs_NextWinners state,
                    finalState := lottery_checksum H (bs_NextWinners state) prng\<rparr>)))
           else Some (finish node)))"

section \<open>The contents of the database\<close>

text \<open>What the buckets of the pools hold, as cells, and that they can be loaded.\<close>

definition bucket_ok :: "bucket \<Rightarrow> bool" where
  "bucket_ok b \<longleftrightarrow> distinct (map fst b) \<and> list_all (\<lambda>(k, v). is_hash k \<and> 5 \<le> length v) b"

definition db_cell :: "stakeDB \<Rightarrow> pool \<Rightarrow> hash \<Rightarrow> tvalue option" where
  "db_cell db p k = (case buckets db (bucket_of p) of
     None \<Rightarrow> None | Some b \<Rightarrow> map_option ticket_of_bytes (map_of b k))"

definition db_inv :: "stakeDB \<Rightarrow> bool" where
  "db_inv db \<longleftrightarrow> (\<forall>p. \<exists>b. buckets db (bucket_of p) = Some b \<and> bucket_ok b)"

definition db_rest :: "stakeDB \<Rightarrow> (bucket_name \<Rightarrow> bucket option) \<times> byte list option" where
  "db_rest db = ((\<lambda>n. if n \<in> range bucket_of then None else buckets db n), chainState db)"

lemma ticket_bytes_back [simp]:
  "ticket_of_bytes (ticket_bytes h m r s e) = \<lparr>Height = h, Missed = m, Revoked = r, Spent = s, Expired = e\<rparr>"
  by (simp add: ticket_of_bytes_def ticket_bytes_def word_codec nth_append)

lemma bucket_of_inj [simp]: "bucket_of p = bucket_of q \<longleftrightarrow> p = q"
  by (cases p; cases q) simp_all

lemma bucket_ok_update: "bucket_ok b \<Longrightarrow> is_hash k \<Longrightarrow> 5 \<le> length v \<Longrightarrow> bucket_ok (AList.update k v b)"
proof -
  assume a: "bucket_ok b" "is_hash k" "5 \<le> length v"
  have "set (AList.update k v b) \<subseteq> insert (k, v) (set b)" by (induction b) auto
  with a show ?thesis by (auto simp: bucket_ok_def AList.distinct_update list_all_iff)
qed

lemma bucket_ok_delete: "bucket_ok b \<Longrightarrow> bucket_ok (AList.delete k b)"
  by (auto simp: bucket_ok_def list_all_iff AList.delete_eq distinct_map_filter)

lemma put_ticket:
  assumes "db_inv db" and "is_hash k"
  shows "\<exists>db'. DbPutTicket db (bucket_of p) k h m r s e = Inr db' \<and> db_inv db' \<and> db_rest db' = db_rest db \<and>
    db_cell db' = (db_cell db)(p := (db_cell db p)(k \<mapsto> \<lparr>Height = h, Missed = m, Revoked = r, Spent = s, Expired = e\<rparr>))"
proof -
  from assms(1) obtain b where b: "buckets db (bucket_of p) = Some b" "bucket_ok b"
    unfolding db_inv_def by blast
  let ?v = "ticket_bytes h m r s e"
  let ?db = "set_bucket db (bucket_of p) (AList.update k ?v b)"
  have put: "DbPutTicket db (bucket_of p) k h m r s e = Inr ?db"
    by (simp add: DbPutTicket_def bucket_put_def with_bucket_def b)
  have "bucket_ok (AList.update k ?v b)"
    using bucket_ok_update [OF b(2) assms(2)] by (simp add: ticket_bytes_def)
  then have "db_inv ?db" using assms(1) by (auto simp: db_inv_def set_bucket_def)
  moreover have "db_rest ?db = db_rest db" by (auto simp: db_rest_def set_bucket_def)
  moreover have "db_cell ?db = (db_cell db)(p := (db_cell db p)(k \<mapsto> \<lparr>Height = h, Missed = m, Revoked = r, Spent = s, Expired = e\<rparr>))"
    by (auto simp: fun_eq_iff db_cell_def set_bucket_def update_conv' b)
  ultimately show ?thesis using put by blast
qed

lemma delete_ticket:
  assumes "db_inv db" and "db_cell db p k \<noteq> None"
  shows "\<exists>db'. DbDeleteTicket db (bucket_of p) k = Inr db' \<and> db_inv db' \<and> db_rest db' = db_rest db \<and>
    db_cell db' = (db_cell db)(p := (db_cell db p)(k := None))"
proof -
  from assms(1) obtain b where b: "buckets db (bucket_of p) = Some b" "bucket_ok b"
    unfolding db_inv_def by blast
  let ?db = "set_bucket db (bucket_of p) (AList.delete k b)"
  have del: "DbDeleteTicket db (bucket_of p) k = Inr ?db"
    using assms(2) by (auto simp: DbDeleteTicket_def bucket_get_def bucket_delete_def with_bucket_def db_cell_def b)
  have "db_inv ?db" using assms(1) bucket_ok_delete [OF b(2)] by (auto simp: db_inv_def set_bucket_def)
  moreover have "db_rest ?db = db_rest db" by (auto simp: db_rest_def set_bucket_def)
  moreover have "db_cell ?db = (db_cell db)(p := (db_cell db p)(k := None))"
    by (auto simp: fun_eq_iff db_cell_def set_bucket_def AList.delete_conv' b)
  ultimately show ?thesis using del by blast
qed

text \<open>Loading a bucket builds a treap with its contents.\<close>

lemma load_tickets:
  assumes "bucket_ok b"
  shows "ticket_wf t \<Longrightarrow> (\<forall>k \<in> fst ` set b. Get t k = None) \<Longrightarrow>
    \<exists>t'. foldE load_ticket b t = Inr t' \<and> ticket_wf t' \<and>
      Get t' = Get t ++ (\<lambda>k. map_option ticket_of_bytes (map_of b k))"
  using assms
proof (induction b arbitrary: t)
  case (Cons x b)
  obtain k v where x: "x = (k, v)" by fastforce
  from Cons.prems x have k: "Get t k = None" "is_hash k" "5 \<le> length v" and b: "bucket_ok b" and nk: "k \<notin> fst ` set b"
    by (auto simp: bucket_ok_def)
  let ?t = "Put t k (Some (ticket_of_bytes v))"
  have st: "load_ticket x t = Inr ?t" using k by (simp add: load_ticket_def x is_hash_def)
  have wf: "ticket_wf ?t" and get: "Get ?t = (Get t)(k \<mapsto> ticket_of_bytes v)"
    using Cons.prems(1) k(1) by (simp_all add: tt.put_inv tt.put_lookup)
  have "\<forall>k \<in> fst ` set b. Get ?t k = None" using Cons.prems(2) nk by (auto simp: get)
  from Cons.IH [OF wf this b] obtain t' where t': "foldE load_ticket b ?t = Inr t'" "ticket_wf t'"
    "Get t' = Get ?t ++ (\<lambda>k. map_option ticket_of_bytes (map_of b k))" by blast
  have none: "map_of b k = None" using nk by (simp add: map_of_eq_None_iff)
  have "Get t' = Get t ++ (\<lambda>j. map_option ticket_of_bytes (map_of (x # b) j))"
    by (rule ext) (simp add: t'(3) get x map_add_def none split: option.split)
  with t' st show ?case by simp
qed simp

lemma load_all_tickets:
  assumes "db_inv db"
  shows "\<exists>t. DbLoadAllTickets db (bucket_of p) = Inr t \<and> ticket_wf t \<and> Get t = db_cell db p"
proof -
  from assms obtain b where b: "buckets db (bucket_of p) = Some b" "bucket_ok b"
    unfolding db_inv_def by blast
  have "\<forall>k \<in> fst ` set b. Get NewImmutable k = None" by (simp add: tt.lookup_empty)
  from load_tickets [OF b(2) tt.inv_empty this] b(1) show ?thesis
    by (auto simp: DbLoadAllTickets_def with_bucket_def tt.lookup_empty db_cell_def fun_eq_iff)
qed

lemma liftDB_simps [simp]:
  "liftDB (Inr a) = Inr a" "liftDB (Inl e) = Inl (DBError e)"
  by (simp_all add: liftDB_def)

lemma bucket_names:
  "LiveTicketsBucket = bucket_of LivePool" "MissedTicketsBucket = bucket_of MissedPool"
  "RevokedTicketsBucket = bucket_of RevokedPool"
  by simp_all

definition undo_fine :: "UndoTicketData \<Rightarrow> bool" where
  "undo_fine u \<longleftrightarrow> undo_ok u \<and> undo_wf u"

lemma undo_kinds:
  assumes "undo_ok u"
  obtains (new) "\<not> u_Missed u" "\<not> u_Revoked u" "\<not> u_Spent u" "\<not> u_Expired u"
    | (revoked) "u_Missed u" "u_Revoked u" "\<not> u_Spent u"
    | (missed) "u_Missed u" "\<not> u_Revoked u" "\<not> u_Spent u"
    | (spent) "\<not> u_Missed u" "\<not> u_Revoked u" "u_Spent u" "\<not> u_Expired u"
  using assms unfolding undo_ok_def by blast

text \<open>A ticket that moves from one bucket to another.\<close>

lemma move_ticket:
  assumes "db_inv db" and "is_hash k" and "db_cell db p k \<noteq> None" and "p \<noteq> q"
  shows "\<exists>db'. bindE (liftDB (DbDeleteTicket db (bucket_of p) k))
      (\<lambda>db. liftDB (DbPutTicket db (bucket_of q) k h m r s e)) = Inr db' \<and> db_inv db' \<and> db_rest db' = db_rest db \<and>
    db_cell db' = (db_cell db)(p := (db_cell db p)(k := None),
      q := (db_cell db q)(k \<mapsto> \<lparr>Height = h, Missed = m, Revoked = r, Spent = s, Expired = e\<rparr>))"
proof -
  from delete_ticket [OF assms(1,3)] obtain db1 where d: "DbDeleteTicket db (bucket_of p) k = Inr db1" "db_inv db1"
    "db_rest db1 = db_rest db" "db_cell db1 = (db_cell db)(p := (db_cell db p)(k := None))" by blast
  from put_ticket [OF d(2) assms(2)] obtain db2 where "DbPutTicket db1 (bucket_of q) k h m r s e = Inr db2" "db_inv db2"
    "db_rest db2 = db_rest db1"
    "db_cell db2 = (db_cell db1)(q := (db_cell db1 q)(k \<mapsto> \<lparr>Height = h, Missed = m, Revoked = r, Spent = s, Expired = e\<rparr>))"
    by blast
  with d assms(4) show ?thesis by (intro exI [of _ db2]) simp
qed

lemma write_connected_step:
  assumes u: "undo_fine u" and db: "db_inv db"
    and cells: "\<And>p. touches u p \<Longrightarrow> db_cell db p (TicketHash u) = old_cell u p"
  shows "\<exists>db'. write_connected u db = Inr db' \<and> db_inv db' \<and>
    (\<forall>p. db_cell db' p = (if touches u p then (db_cell db p)(TicketHash u := new_cell u p) else db_cell db p)) \<and>
    db_rest db' = db_rest db"
proof -
  from u have ok: "undo_ok u" and k: "is_hash (TicketHash u)" by (simp_all add: undo_fine_def undo_wf_def)
  note cell = cells [of LivePool] cells [of MissedPool] cells [of RevokedPool]
  show ?thesis using ok
  proof (cases rule: undo_kinds)
    case new
    with put_ticket [OF db k, of LivePool "TicketHeight u" False False False False] show ?thesis
      by (auto simp: write_connected_def Let_def all_pool value_of_undo_def)
  next
    case revoked
    with cell have "db_cell db MissedPool (TicketHash u) \<noteq> None" by simp
    from move_ticket [OF db k this, of RevokedPool "TicketHeight u" True True False "u_Expired u"] revoked show ?thesis
      by (auto simp: write_connected_def Let_def all_pool value_of_undo_def)
  next
    case missed
    with cell have "db_cell db LivePool (TicketHash u) \<noteq> None" by simp
    from move_ticket [OF db k this, of MissedPool "TicketHeight u" True False False "u_Expired u"] missed show ?thesis
      by (auto simp: write_connected_def Let_def all_pool value_of_undo_def)
  next
    case spent
    with cell have "db_cell db LivePool (TicketHash u) \<noteq> None" by simp
    from delete_ticket [OF db this] spent show ?thesis
      by (auto simp: write_connected_def Let_def all_pool value_of_undo_def)
  qed
qed

lemma write_disconnected_step:
  assumes u: "undo_fine u" and db: "db_inv db"
    and cells: "\<And>p. touches u p \<Longrightarrow> db_cell db p (TicketHash u) = new_cell u p"
  shows "\<exists>db'. write_disconnected u db = Inr db' \<and> db_inv db' \<and>
    (\<forall>p. db_cell db' p = (if touches u p then (db_cell db p)(TicketHash u := old_cell u p) else db_cell db p)) \<and>
    db_rest db' = db_rest db"
proof -
  from u have ok: "undo_ok u" and k: "is_hash (TicketHash u)" by (simp_all add: undo_fine_def undo_wf_def)
  note cell = cells [of LivePool] cells [of MissedPool] cells [of RevokedPool]
  show ?thesis using ok
  proof (cases rule: undo_kinds)
    case new
    with cell have "db_cell db LivePool (TicketHash u) \<noteq> None" by simp
    from delete_ticket [OF db this] new show ?thesis
      by (auto simp: write_disconnected_def Let_def all_pool value_of_undo_def)
  next
    case revoked
    with cell have "db_cell db RevokedPool (TicketHash u) \<noteq> None" by simp
    from move_ticket [OF db k this, of MissedPool "TicketHeight u" True False False "u_Expired u"] revoked show ?thesis
      by (auto simp: write_disconnected_def Let_def all_pool value_of_undo_def)
  next
    case missed
    with cell have "db_cell db MissedPool (TicketHash u) \<noteq> None" by simp
    from move_ticket [OF db k this, of LivePool "TicketHeight u" False False False False] missed show ?thesis
      by (auto simp: write_disconnected_def Let_def all_pool value_of_undo_def)
  next
    case spent
    with put_ticket [OF db k, of LivePool "TicketHeight u" False False False False] show ?thesis
      by (auto simp: write_disconnected_def Let_def all_pool value_of_undo_def)
  qed
qed

interpretation wconn: undo_replay write_connected db_cell db_inv db_rest "\<lambda>_ r. r" old_cell new_cell undo_fine
  by unfold_locales (rule write_connected_step)

interpretation wdisc: undo_replay write_disconnected db_cell db_inv db_rest "\<lambda>_ r. r" new_cell old_cell undo_fine
  by unfold_locales (rule write_disconnected_step)

section \<open>The database follows the node\<close>

text \<open>Every hash of a node is an array of 32 bytes.\<close>

definition node_typed :: "Node \<Rightarrow> bool" where
  "node_typed n \<longleftrightarrow> list_all undo_wf (databaseUndoUpdate n) \<and> list_all is_hash (databaseBlockTickets n) \<and>
     list_all is_hash (nextWinners n)"

definition db_holds :: "stakeDB \<Rightarrow> Node \<Rightarrow> hash \<Rightarrow> bool" where
  "db_holds db node h \<longleftrightarrow> db_inv db \<and> db_cell db = cell node \<and>
     DbFetchBlockUndoData db (n_height node) = Inr (databaseUndoUpdate node) \<and>
     DbFetchNewTickets db (n_height node) = Inr (databaseBlockTickets node) \<and>
     (\<exists>w. stored_winners node = Inr w \<and> DbFetchBestState db = Inr (best_state node h w)) \<and>
     (\<exists>info. DbFetchDatabaseInfo db = Inr (Some info))"

text \<open>
  The data a block leaves in the database: its undo entries and its new tickets.
\<close>

definition block_data :: "stakeDB \<Rightarrow> uint32 \<Rightarrow> (db_error + UndoTicketData list) \<times> (db_error + hash list)" where
  "block_data db i = (DbFetchBlockUndoData db i, DbFetchNewTickets db i)"

lemmas block_data_defs = block_data_def DbFetchBlockUndoData_def DbFetchNewTickets_def bucket_get_def with_bucket_def
  set_bucket_def

lemma write_block_data_ok:
  assumes db: "db_inv db" "db_cell db = cell node" and bk: "buckets db StakeBlockUndoDataBucket = Some b1"
      "buckets db TicketsInBlockBucket = Some b2" and info: "DbFetchDatabaseInfo db = Inr (Some info)"
    and ty: "node_typed node" "is_hash h"
    and w: "stored_winners node = Inr w" "list_all is_hash w" "length w = unat (TicketsPerBlock (n_params node))"
  shows "\<exists>db'. write_block_data node h db = Inr db' \<and> db_holds db' node h \<and>
    (\<forall>i. i \<noteq> n_height node \<longrightarrow> block_data db' i = block_data db i)"
proof -
  let ?k = "height_key (n_height node)"
  let ?db1 = "set_bucket db StakeBlockUndoDataBucket (AList.update ?k (serializeBlockUndoData (databaseUndoUpdate node)) b1)"
  let ?db2 = "set_bucket ?db1 TicketsInBlockBucket (AList.update ?k (serializeTicketHashes (databaseBlockTickets node)) b2)"
  have put: "DbPutBlockUndoData db (n_height node) (databaseUndoUpdate node) = Inr ?db1"
    "DbPutNewTickets ?db1 (n_height node) (databaseBlockTickets node) = Inr ?db2"
    by (simp_all add: DbPutBlockUndoData_def DbPutNewTickets_def bucket_put_def with_bucket_def set_bucket_def bk)
  obtain v where v: "DbPutBestState ?db2 (best_state node h w) = Inr (?db2\<lparr>chainState := Some v\<rparr>)"
      "deserializeBestChainState v = Inr (best_state node h w)"
    using best_state_back [of "best_state node h w" ?db2] ty(2) w(2,3) by (auto simp: best_state_def)
  let ?db = "?db2\<lparr>chainState := Some v\<rparr>"
  have bs: "buckets ?db2 (bucket_of p) = buckets db (bucket_of p)" for p
    by (cases p) (simp_all add: set_bucket_def)
  have "db_inv ?db" "db_cell ?db = cell node"
    using db by (simp_all add: db_inv_def db_cell_def bs fun_eq_iff)
  moreover have "DbFetchBlockUndoData ?db (n_height node) = Inr (databaseUndoUpdate node)"
    "DbFetchNewTickets ?db (n_height node) = Inr (databaseBlockTickets node)"
    using ty undo_data_back ticket_hashes_back
    by (simp_all add: node_typed_def DbFetchBlockUndoData_def DbFetchNewTickets_def bucket_get_def with_bucket_def
        set_bucket_def update_conv')
  moreover have "DbFetchBestState ?db = Inr (best_state node h w)" using v(2) by (simp add: DbFetchBestState_def)
  moreover have "DbFetchDatabaseInfo ?db = Inr (Some info)"
    using info by (simp add: DbFetchDatabaseInfo_def set_bucket_def)
  moreover have "block_data ?db i = block_data db i" if "i \<noteq> n_height node" for i
    using that bk by (simp add: block_data_defs update_conv')
  moreover have "write_block_data node h db = Inr ?db" by (simp add: write_block_data_def put w(1) v(1))
  ultimately show ?thesis using w(1) unfolding db_holds_def by blast
qed

text \<open>What is stored outside the pools depends on the rest of the database only.\<close>

lemma rest_eq:
  assumes "db_rest db' = db_rest db"
  shows "buckets db' StakeBlockUndoDataBucket = buckets db StakeBlockUndoDataBucket"
    and "buckets db' TicketsInBlockBucket = buckets db TicketsInBlockBucket"
    and "DbFetchDatabaseInfo db' = DbFetchDatabaseInfo db"
    and "chainState db' = chainState db"
proof -
  have other: "n \<notin> range bucket_of" if "n \<in> {StakeBlockUndoDataBucket, TicketsInBlockBucket, StakeDbInfoBucket}" for n
  proof
    assume "n \<in> range bucket_of"
    then obtain p where "n = bucket_of p" by blast
    with that show False by (cases p) auto
  qed
  have "buckets db' n = buckets db n" if "n \<notin> range bucket_of" for n
    using assms that unfolding db_rest_def by (metis (mono_tags, lifting) prod.inject)
  with other show "buckets db' StakeBlockUndoDataBucket = buckets db StakeBlockUndoDataBucket"
    "buckets db' TicketsInBlockBucket = buckets db TicketsInBlockBucket"
    "DbFetchDatabaseInfo db' = DbFetchDatabaseInfo db"
    by (simp_all add: DbFetchDatabaseInfo_def)
  show "chainState db' = chainState db" using assms by (simp add: db_rest_def)
qed

lemma fold_id: "fold (\<lambda>_ r. r) xs r = r"
  by (induction xs) simp_all

text \<open>The winners of a node of a chain fill the space for them.\<close>

lemma stored_winners_ok:
  assumes "node_inv H iv n" and "0 < TicketsPerBlock (n_params n)" and "length (entries (liveTickets n)) < 2 ^ 32"
    and "node_typed n"
  shows "\<exists>w. stored_winners n = Inr w \<and> list_all is_hash w \<and> length w = unat (TicketsPerBlock (n_params n)) \<and>
    (word_of_int (StakeValidationHeight (n_params n) - 1) \<le> n_height n \<longrightarrow> w = nextWinners n)"
  using lottery_winners(2) [OF assms(1-3)] assms(4)
  by (auto simp: stored_winners_def Let_def node_typed_def zeroHash_def is_hash_def list_all_iff)

lemma db_holds_buckets:
  assumes "db_holds db node h"
  obtains b1 b2 info where "buckets db StakeBlockUndoDataBucket = Some b1" "buckets db TicketsInBlockBucket = Some b2"
    "DbFetchDatabaseInfo db = Inr (Some info)"
  using assms
  by (auto simp: db_holds_def DbFetchBlockUndoData_def DbFetchNewTickets_def bucket_get_def with_bucket_def
      split: option.splits)

lemma write_connected_ok:
  assumes inv: "node_inv H iv node" and al: "block_allowed node revoked new"
    and con: "connectNode H (Some node) iv' voted revoked new = Some (Inr m)"
    and pos: "0 < TicketsPerBlock (n_params node)" and len: "length (entries (liveTickets m)) < 2 ^ 32"
    and ty: "node_typed m" "is_hash h" and db: "db_holds db node h0"
  shows "\<exists>db'. WriteConnectedBestNode db m h = Inr db' \<and> db_holds db' m h"
proof -
  from inv have ok: "pools_ok node" "params_ok (n_params node)" by (simp_all add: node_inv_def)
  note P = connectNode_parts [OF con ok(1) al ok(2)]
  note D = block_effectD [OF P(1), simplified] and F = connect_frame [OF P(1)]
  have ap: "sorted_wrt apart (databaseUndoUpdate m)" using P(1) by (simp add: block_effect_def)
  from db have db1: "db_inv db" "db_cell db = cell node" by (simp_all add: db_holds_def)
  have fine: "undo_fine u" if "u \<in> set (databaseUndoUpdate m)" for u
    using D(3) [OF that] that ty(1) by (simp add: undo_fine_def node_typed_def list_all_iff)
  have "\<exists>d. foldE write_connected (databaseUndoUpdate m) db = Inr d \<and> db_inv d \<and>
      db_rest d = fold (\<lambda>_ r. r) (databaseUndoUpdate m) (db_rest db) \<and> db_cell d = cell m"
    by (rule wconn.replay_to [OF ap db1(1)]) (use fine D(4-6) db1(2) in \<open>auto\<close>)
  then obtain d where d: "foldE write_connected (databaseUndoUpdate m) db = Inr d" "db_inv d" "db_cell d = cell m"
    "db_rest d = db_rest db" by (auto simp: fold_id)
  from db_holds_buckets [OF db] obtain b1 b2 info where b: "buckets db StakeBlockUndoDataBucket = Some b1"
    "buckets db TicketsInBlockBucket = Some b2" "DbFetchDatabaseInfo db = Inr (Some info)" .
  have b': "buckets d StakeBlockUndoDataBucket = Some b1" "buckets d TicketsInBlockBucket = Some b2"
    "DbFetchDatabaseInfo d = Inr (Some info)"
    by (simp_all add: rest_eq [OF d(4)] b)
  have "node_inv H iv' m" using inv al con by (rule connect_inv)
  from stored_winners_ok [OF this _ len ty(1)] pos obtain w where "stored_winners m = Inr w" "list_all is_hash w"
    "length w = unat (TicketsPerBlock (n_params m))" by (auto simp: F)
  from write_block_data_ok [OF d(2,3) b' ty this] d(1) show ?thesis
    by (auto simp: WriteConnectedBestNode_def)
qed

lemma same_node_cells:
  assumes "pools_ok r" and "pools_ok node" and "same_node r node"
  shows "cell r = cell node"
proof (intro ext)
  fix p k
  have "ticket_wf (pool_of r p)" "ticket_wf (pool_of node p)" "entries (pool_of r p) = entries (pool_of node p)"
    using assms by (simp_all add: pools_ok_def same_node_def)
  then show "cell r p k = cell node p k" by (simp add: cell_def tt.lookup_elems)
qed

lemma same_node_fields:
  assumes "same_node r node"
  shows "n_height r = n_height node" "n_params r = n_params node" "nextWinners r = nextWinners node"
    "databaseUndoUpdate r = databaseUndoUpdate node" "databaseBlockTickets r = databaseBlockTickets node"
    "stored_winners r = stored_winners node" "node_typed r = node_typed node"
  using assms by (auto simp: same_node_def node_frame_def stored_winners_def node_typed_def Let_def)

lemma drop_one:
  assumes "buckets db StakeBlockUndoDataBucket = Some b1" and "buckets db TicketsInBlockBucket = Some b2"
    and "unat (h + 1) = unat h + 1"
  shows "drop_loop (h + 1) h db = Inr (set_bucket
    (set_bucket db StakeBlockUndoDataBucket (AList.delete (height_key (h + 1)) b1))
    TicketsInBlockBucket (AList.delete (height_key (h + 1)) b2))"
proof -
  have "h < h + 1" using assms(3) by (simp add: word_less_nat_alt)
  moreover have "drop_loop h h d = Inr d" for d by (subst drop_loop.simps) simp
  ultimately show ?thesis using assms(1,2)
    by (subst drop_loop.simps) (simp add: drop_block_data_def DbDropBlockUndoData_def DbDropNewTickets_def
      bucket_delete_def with_bucket_def set_bucket_def)
qed

lemma drop_best:
  assumes "db_holds db m h0" and "unat (h + 1) = unat h + 1" and "n_height m = h + 1"
  shows "\<exists>d b1 b2 info. drop_loop (n_height m) h db = Inr d \<and> db_inv d \<and> db_cell d = cell m \<and>
    buckets d StakeBlockUndoDataBucket = Some b1 \<and> buckets d TicketsInBlockBucket = Some b2 \<and>
    DbFetchDatabaseInfo d = Inr (Some info) \<and> block_data d (n_height m) = (Inl ErrMissingKey, Inl ErrMissingKey) \<and>
    (\<forall>i. i \<noteq> n_height m \<longrightarrow> block_data d i = block_data db i)"
proof -
  from db_holds_buckets [OF assms(1)] obtain b1 b2 info where b: "buckets db StakeBlockUndoDataBucket = Some b1"
    "buckets db TicketsInBlockBucket = Some b2" "DbFetchDatabaseInfo db = Inr (Some info)" .
  let ?b1 = "AList.delete (height_key (h + 1)) b1" and ?b2 = "AList.delete (height_key (h + 1)) b2"
  let ?db = "set_bucket (set_bucket db StakeBlockUndoDataBucket ?b1) TicketsInBlockBucket ?b2"
  have bs: "buckets ?db (bucket_of p) = buckets db (bucket_of p)" for p
    by (cases p) (simp_all add: set_bucket_def)
  from assms(1) have "db_inv ?db" "db_cell ?db = cell m"
    by (simp_all add: db_holds_def db_inv_def db_cell_def bs fun_eq_iff)
  moreover have "DbFetchDatabaseInfo ?db = Inr (Some info)" using b(3) by (simp add: DbFetchDatabaseInfo_def set_bucket_def)
  moreover have "block_data ?db (h + 1) = (Inl ErrMissingKey, Inl ErrMissingKey)"
    by (simp add: block_data_defs AList.delete_conv')
  moreover have "block_data ?db i = block_data db i" if "i \<noteq> h + 1" for i
    using that b(1,2) by (simp add: block_data_defs AList.delete_conv')
  ultimately show ?thesis using drop_one [OF b(1,2) assms(2)] assms(3)
    by (intro exI [of _ ?db] exI [of _ ?b1] exI [of _ ?b2] exI [of _ info]) (simp add: set_bucket_def)
qed

lemma write_disconnected_ok:
  assumes inv: "node_inv H iv node" and al: "block_allowed node revoked new"
    and con: "connectNode H (Some node) iv' voted revoked new = Some (Inr m)"
    and pos: "0 < TicketsPerBlock (n_params node)" and len: "length (entries (liveTickets node)) < 2 ^ 32"
    and ty: "node_typed m" "node_typed node" "is_hash h" and db: "db_holds db m h0"
    and r: "pools_ok r" "same_node r node"
  shows "\<exists>db'. WriteDisconnectedBestNode db r h (databaseUndoUpdate m) = Inr db' \<and> db_holds db' r h \<and>
    block_data db' (n_height m) = (Inl ErrMissingKey, Inl ErrMissingKey) \<and>
    (\<forall>i. i \<noteq> n_height m \<and> i \<noteq> n_height r \<longrightarrow> block_data db' i = block_data db i)"
proof -
  from inv have ok: "pools_ok node" "params_ok (n_params node)" by (simp_all add: node_inv_def)
  note P = connectNode_parts [OF con ok(1) al ok(2)] and S = same_node_fields [OF r(2)]
  note D = block_effectD [OF P(1), simplified] and F = connect_frame [OF P(1)]
  note hs = block_allowedD(3) [OF al]
  have ap: "sorted_wrt apart (databaseUndoUpdate m)" using P(1) by (simp add: block_effect_def)
  from db obtain w0 where best: "DbFetchBestState db = Inr (best_state m h0 w0)" by (auto simp: db_holds_def)
  from drop_best [OF db hs F(1)] obtain db1 b1 b2 info where drop: "drop_loop (n_height m) (n_height r) db = Inr db1"
    and db1: "db_inv db1" "db_cell db1 = cell m" and b: "buckets db1 StakeBlockUndoDataBucket = Some b1"
      "buckets db1 TicketsInBlockBucket = Some b2" "DbFetchDatabaseInfo db1 = Inr (Some info)"
    and data: "block_data db1 (n_height m) = (Inl ErrMissingKey, Inl ErrMissingKey)"
      "\<And>i. i \<noteq> n_height m \<Longrightarrow> block_data db1 i = block_data db i"
    by (auto simp: S)
  have fine: "undo_fine u" if "u \<in> set (databaseUndoUpdate m)" for u
    using D(3) [OF that] that ty(1) by (simp add: undo_fine_def node_typed_def list_all_iff)
  have "\<exists>d. foldE write_disconnected (databaseUndoUpdate m) db1 = Inr d \<and> db_inv d \<and>
      db_rest d = fold (\<lambda>_ r. r) (databaseUndoUpdate m) (db_rest db1) \<and> db_cell d = cell node"
    by (rule wdisc.replay_to [OF ap db1(1)]) (use fine D(4-6) db1(2) in \<open>auto\<close>)
  then obtain d where d: "foldE write_disconnected (databaseUndoUpdate m) db1 = Inr d" "db_inv d" "db_cell d = cell node"
    "db_rest d = db_rest db1" by (auto simp: fold_id)
  have b': "buckets d StakeBlockUndoDataBucket = Some b1" "buckets d TicketsInBlockBucket = Some b2"
    "DbFetchDatabaseInfo d = Inr (Some info)"
    by (simp_all add: rest_eq [OF d(4)] b)
  from stored_winners_ok [OF inv pos len ty(2)] obtain w where w: "stored_winners r = Inr w" "list_all is_hash w"
    "length w = unat (TicketsPerBlock (n_params r))" by (auto simp: S)
  have cell: "db_cell d = cell r" using d(3) same_node_cells [OF r(1) ok(1) r(2)] by simp
  have ty': "node_typed r" using ty(2) by (simp add: S)
  from write_block_data_ok [OF d(2) cell b' ty' ty(3) w] obtain d' where
    d': "write_block_data r h d = Inr d'" "db_holds d' r h"
      "\<And>i. i \<noteq> n_height r \<Longrightarrow> block_data d' i = block_data d i" by blast
  have "n_height r < n_height m" using hs by (simp add: F S word_less_nat_alt)
  then have "WriteDisconnectedBestNode db r h (databaseUndoUpdate m) = Inr d'"
    by (simp add: WriteDisconnectedBestNode_def best drop d(1) d'(1) best_state_def)
  moreover have "block_data d i = block_data db1 i" for i by (simp add: block_data_defs rest_eq [OF d(4)])
  ultimately show ?thesis using d'(2,3) data \<open>n_height r < n_height m\<close> by auto
qed

lemma sint_of_small: "0 \<le> k \<Longrightarrow> k < 2 ^ 63 \<Longrightarrow> sint (word_of_int k :: uint64) = k"
proof -
  assume "0 \<le> k" "k < 2 ^ 63"
  then have "signed_take_bit 63 k = k" by (simp add: signed_take_bit_int_eq_self_iff)
  then show ?thesis by (simp add: sint_sbintrunc')
qed

lemma load_pool_ok:
  assumes "db_inv db" and "db_cell db = cell node" and "pools_ok node" and "len = ImLen (pool_of node p)"
  shows "\<exists>t. load_pool db (bucket_of p) len = Inr t \<and> ticket_wf t \<and> Get t = cell node p"
proof -
  from load_all_tickets [OF assms(1), of p] assms(2) obtain t where
    t: "DbLoadAllTickets db (bucket_of p) = Inr t" "ticket_wf t" "Get t = cell node p" by auto
  from assms(3) have "ticket_wf (pool_of node p)" by (simp add: pools_ok_def)
  with t have "ImLen t = ImLen (pool_of node p)" by (intro tt.same_lookup_same_len) (simp_all add: cell_def)
  with t assms(4) show ?thesis by (simp add: load_pool_def)
qed

lemma load_node_ok:
  assumes db: "db_holds db node h" and ok: "pools_ok node"
    and len: "ImLen (liveTickets node) < 2 ^ 32" "ImLen (missedTickets node) < 2 ^ 63" "ImLen (revokedTickets node) < 2 ^ 63"
  shows "\<exists>w n. load_node db (n_height node) h (n_params node) = Inr (best_state node h w, n) \<and>
    stored_winners node = Inr w \<and> pools_ok n \<and> cell n = cell node \<and> databaseUndoUpdate n = databaseUndoUpdate node \<and>
    node_frame n = (n_height node, databaseBlockTickets node, [], replicate 6 0, n_params node)"
proof -
  from db obtain w info where D: "db_inv db" "db_cell db = cell node"
      "DbFetchBlockUndoData db (n_height node) = Inr (databaseUndoUpdate node)"
      "DbFetchNewTickets db (n_height node) = Inr (databaseBlockTickets node)" "stored_winners node = Inr w"
      "DbFetchBestState db = Inr (best_state node h w)" "DbFetchDatabaseInfo db = Inr (Some info)"
    by (auto simp: db_holds_def)
  have nn: "0 \<le> ImLen (pool_of node p)" for p
    using ok tt.len_elems [of "pool_of node p"] by (simp add: pools_ok_def)
  have "uint (bs_Live (best_state node h w)) = ImLen (pool_of node LivePool)"
    using len(1) nn [of LivePool] by (simp add: best_state_def unsigned_of_int take_bit_int_eq_self)
  from load_pool_ok [OF D(1,2) ok this] obtain l where l: "load_pool db LiveTicketsBucket (uint (bs_Live (best_state node h w))) = Inr l"
    "ticket_wf l" "Get l = cell node LivePool" by auto
  have "sint (bs_Missed (best_state node h w)) = ImLen (pool_of node MissedPool)"
    using len(2) nn [of MissedPool] by (simp add: best_state_def sint_of_small)
  from load_pool_ok [OF D(1,2) ok this] obtain m where m: "load_pool db MissedTicketsBucket (sint (bs_Missed (best_state node h w))) = Inr m"
    "ticket_wf m" "Get m = cell node MissedPool" by auto
  have "sint (bs_Revoked (best_state node h w)) = ImLen (pool_of node RevokedPool)"
    using len(3) nn [of RevokedPool] by (simp add: best_state_def sint_of_small)
  from load_pool_ok [OF D(1,2) ok this] obtain r where r: "load_pool db RevokedTicketsBucket (sint (bs_Revoked (best_state node h w))) = Inr r"
    "ticket_wf r" "Get r = cell node RevokedPool" by auto
  let ?n = "\<lparr>n_height = n_height node, liveTickets = l, missedTickets = m, revokedTickets = r,
      databaseUndoUpdate = databaseUndoUpdate node, databaseBlockTickets = databaseBlockTickets node, nextWinners = [],
      finalState = replicate 6 0, n_params = n_params node\<rparr>"
  have cell: "cell ?n p = cell node p" for p by (cases p) (simp_all add: cell_def [of ?n] l m r)
  have "ticket_wf (pool_of ?n p)" for p by (cases p) (simp_all add: l m r)
  with cell ok have "pools_ok ?n" by (simp add: pools_ok_def)
  moreover have "load_node db (n_height node) h (n_params node) = Inr (best_state node h w, ?n)"
    by (simp add: load_node_def D(3-7) l(1) m(1) r(1)) (simp add: best_state_def)
  ultimately show ?thesis using D(5) cell
    by (intro exI [of _ w] exI [of _ ?n]) (auto simp: node_frame_def fun_eq_iff)
qed

lemma load_best_ok:
  assumes db: "db_holds db node h" and inv: "node_inv H (CalcHash256PRNGIV H headerBytes) node"
    and pos: "0 < TicketsPerBlock (n_params node)" and ty: "node_typed node"
    and len: "ImLen (liveTickets node) < 2 ^ 32" "ImLen (missedTickets node) < 2 ^ 63" "ImLen (revokedTickets node) < 2 ^ 63"
  shows "\<exists>n. LoadBestNode H db (n_height node) h headerBytes (n_params node) = Some (Inr n) \<and> same_node n node"
proof -
  from inv have ok: "pools_ok node" and lo: "lottery_ok H (CalcHash256PRNGIV H headerBytes) node" by (simp_all add: node_inv_def)
  from load_node_ok [OF db ok len] obtain w n where
    n: "load_node db (n_height node) h (n_params node) = Inr (best_state node h w, n)" "stored_winners node = Inr w"
      "pools_ok n" "cell n = cell node" "databaseUndoUpdate n = databaseUndoUpdate node"
      "node_frame n = (n_height node, databaseBlockTickets node, [], replicate 6 0, n_params node)" by blast
  from same_entries [OF n(3) ok] n(4) have en: "entries (pool_of n p) = entries (pool_of node p)"
    "ImLen (pool_of n p) = ImLen (pool_of node p)" for p by simp_all
  from db obtain info where info: "DbFetchDatabaseInfo db = Inr (Some info)" by (auto simp: db_holds_def)
  have wf: "ticket_wf (liveTickets node)" using ok by (rule pools_okD)
  have "length (entries (liveTickets node)) < 2 ^ 32" using len(1) tt.len_elems [OF wf] by simp
  from stored_winners_ok [OF inv pos this ty] n(2)
  have w: "word_of_int (StakeValidationHeight (n_params node) - 1) \<le> n_height node \<Longrightarrow> w = nextWinners node" by auto
  show ?thesis
  proof (cases "word_of_int (StakeValidationHeight (n_params node) - 1) \<le> n_height node")
    case True
    with lo obtain idxs prng where l: "findTicketIdxs H (ImLen (liveTickets node)) (TicketsPerBlock (n_params node))
        (NewHash256PRNG H headerBytes) = Some (Inr (idxs, prng))" "finalState node = lottery_checksum H (nextWinners node) prng"
      unfolding lottery_ok_def by (auto simp: NewHash256PRNG_def)
    let ?n = "n\<lparr>nextWinners := nextWinners node, finalState := finalState node\<rparr>"
    have "ImLen (liveTickets n) = ImLen (liveTickets node)" using en(2) [of LivePool] by simp
    then have "LoadBestNode H db (n_height node) h headerBytes (n_params node) = Some (Inr ?n)"
      using True w [OF True] l info by (simp add: LoadBestNode_def n(1) best_state_def)
    moreover have "same_node ?n node" using en(1) n(5,6) by (simp add: same_node_def node_frame_def)
    ultimately show ?thesis by blast
  next
    case False
    with lo have "nextWinners node = []" "finalState node = replicate 6 0" unfolding lottery_ok_def by simp_all
    then have "same_node n node" using en(1) n(5,6) by (simp add: same_node_def node_frame_def)
    moreover have "LoadBestNode H db (n_height node) h headerBytes (n_params node) = Some (Inr n)"
      using False info by (simp add: LoadBestNode_def n(1))
    ultimately show ?thesis by blast
  qed
qed

lemma create_ok:
  assumes "\<forall>n. buckets db n = None"
  shows "\<exists>d info. DbCreate now db = Inr d \<and> DbFetchDatabaseInfo d = Inr (Some info) \<and>
    (\<forall>n. n \<noteq> StakeDbInfoBucket \<longrightarrow> buckets d n = Some [])"
proof -
  have "UNIV = {StakeDbInfoBucket, LiveTicketsBucket, MissedTicketsBucket, RevokedTicketsBucket,
      StakeBlockUndoDataBucket, TicketsInBlockBucket}"
    by (auto intro: bucket_name.exhaust)
  then have all: "(\<forall>n. P n) \<longleftrightarrow> P StakeDbInfoBucket \<and> P LiveTicketsBucket \<and> P MissedTicketsBucket \<and>
      P RevokedTicketsBucket \<and> P StakeBlockUndoDataBucket \<and> P TicketsInBlockBucket" for P
    by (metis UNIV_I ball_UNIV insert_iff singletonD)
  have "\<exists>info. deserializeDatabaseInfo (serializeDatabaseInfo dbi) = Inr info" for dbi
    by (simp add: deserializeDatabaseInfo_def serializeDatabaseInfo_def databaseInfoSize_def Let_def)
  then show ?thesis using assms
    by (simp add: DbCreate_def CreateBucket_def set_bucket_def DbPutDatabaseInfo_def bucket_put_def with_bucket_def
        DbFetchDatabaseInfo_def all) (metis bindE_Inr)
qed

lemma init_ok:
  assumes "\<forall>n. buckets db n = None" and "params_ok params" and "is_hash (GenesisHash params)"
  shows "\<exists>db'. InitDatabaseState now db params = Inr (db', genesisNode params) \<and>
    db_holds db' (genesisNode params) (GenesisHash params)"
proof -
  let ?g = "genesisNode params" and ?w = "replicate (unat (TicketsPerBlock params)) zeroHash"
  from create_ok [OF assms(1)] obtain d info where d: "DbCreate now db = Inr d" "DbFetchDatabaseInfo d = Inr (Some info)"
    "\<And>n. n \<noteq> StakeDbInfoBucket \<Longrightarrow> buckets d n = Some []" by blast
  have nz: "bucket_of p \<noteq> StakeDbInfoBucket" for p by (cases p) simp_all
  have "pool_of ?g p = NewImmutable" for p by (cases p) (simp_all add: genesisNode_def)
  then have cell: "db_cell d = cell ?g" by (simp add: fun_eq_iff db_cell_def cell_def tt.lookup_empty d(3) nz)
  have inv: "db_inv d" by (simp add: db_inv_def d(3) nz bucket_ok_def)
  have fields: "n_height ?g = 0" "n_params ?g = params" "nextWinners ?g = []" by (simp_all add: genesisNode_def)
  have "\<not> word_of_int (StakeValidationHeight params - 1) \<le> (0 :: uint32)"
    using assms(2) unat_height [of "StakeValidationHeight params - 1"] by (simp add: params_ok_def word_le_nat_alt)
  then have w: "stored_winners ?g = Inr ?w" by (simp add: stored_winners_def Let_def fields)
  have "node_typed ?g" by (simp add: node_typed_def genesisNode_def)
  from write_block_data_ok [OF inv cell d(3) d(3) d(2) this assms(3) w] obtain db' where
    db': "write_block_data ?g (GenesisHash params) d = Inr db'" "db_holds db' ?g (GenesisHash params)"
    by (auto simp: zeroHash_def is_hash_def list_all_iff fields)
  from db'(1) have "InitDatabaseState now db params = Inr (db', ?g)"
    by (simp add: InitDatabaseState_def write_block_data_def d(1) w Let_def bindE_eq_Inr_iff)
  with db'(2) show ?thesis by blast
qed

section \<open>Properties of the store\<close>

text \<open>
  a fresh database is initialised to hold the genesis node: the empty
  pools, no block data, and the best state with the genesis hash.
\<close>

theorem init_database:
  assumes "\<forall>n. buckets db n = None" and "params_ok params" and "is_hash (GenesisHash params)"
  shows "\<exists>db'. InitDatabaseState now db params = Inr (db', genesisNode params) \<and>
    db_holds db' (genesisNode params) (GenesisHash params)"
  using assms by (rule init_ok)

definition emptyDB :: stakeDB where
  "emptyDB = \<lparr>buckets = (\<lambda>_. None), chainState = None\<rparr>"

lemma ex_params_ok: "params_ok ex_params" "is_hash (GenesisHash ex_params)" "0 < TicketsPerBlock ex_params"
  by code_simp+

theorem init_database_witness:
  "\<exists>db'. InitDatabaseState 0 emptyDB ex_params = Inr (db', genesisNode ex_params)"
  using init_database [of emptyDB ex_params 0] ex_params_ok by (auto simp: emptyDB_def)

text \<open>
  C8: the database refines the node in memory when a block is connected: if
  it holds a node, then writing the node that \<open>connectNode\<close> computes makes
  it hold that one.
\<close>

theorem write_connected_refines:
  assumes "node_inv H iv node" and "block_allowed node revoked new"
    and "connectNode H (Some node) iv' voted revoked new = Some (Inr m)"
    and "0 < TicketsPerBlock (n_params node)" and "length (entries (liveTickets m)) < 2 ^ 32"
    and "node_typed m" and "is_hash h" and "db_holds db node h0"
  shows "\<exists>db'. WriteConnectedBestNode db m h = Inr db' \<and> db_holds db' m h"
  using assms by (rule write_connected_ok)

lemma ex_fresh_facts:
  "node_inv ex_H ex_hash (genesisNode ex_params)" "block_allowed (genesisNode ex_params) [] [ex_key 1, ex_key 2]"
  "connectNode ex_H (Some (genesisNode ex_params)) ex_hash [] [] [ex_key 1, ex_key 2] = Some (Inr ex_fresh)"
  "0 < TicketsPerBlock (n_params (genesisNode ex_params))" "length (entries (liveTickets ex_fresh)) < 2 ^ 32"
  "length (entries (liveTickets (genesisNode ex_params))) < 2 ^ 32"
  "node_typed ex_fresh" "is_hash ex_hash" "node_typed (genesisNode ex_params)"
proof -
  show "node_inv ex_H ex_hash (genesisNode ex_params)" using ex_params_ok(1) by (rule genesis_inv)
  show "block_allowed (genesisNode ex_params) [] [ex_key 1, ex_key 2]" by (rule ex_allowed(1))
  show "connectNode ex_H (Some (genesisNode ex_params)) ex_hash [] [] [ex_key 1, ex_key 2] = Some (Inr ex_fresh)"
    unfolding ex_fresh_def by (rule ex_connect_ok(1))
  show "0 < TicketsPerBlock (n_params (genesisNode ex_params))" "node_typed ex_fresh" "is_hash ex_hash"
    "node_typed (genesisNode ex_params)"
    by code_simp+
  have "length (entries (liveTickets ex_fresh)) = 2" "length (entries (liveTickets (genesisNode ex_params))) = 0"
    by code_simp+
  then show "length (entries (liveTickets ex_fresh)) < 2 ^ 32"
    "length (entries (liveTickets (genesisNode ex_params))) < 2 ^ 32" by simp_all
qed

theorem write_connected_refines_witness:
  "\<exists>db db'. db_holds db (genesisNode ex_params) ex_hash \<and> WriteConnectedBestNode db ex_fresh ex_hash = Inr db' \<and>
     db_holds db' ex_fresh ex_hash"
proof -
  obtain db where "db_holds db (genesisNode ex_params) (GenesisHash ex_params)"
    using init_ok [of emptyDB ex_params 0] ex_params_ok by (auto simp: emptyDB_def)
  moreover have "GenesisHash ex_params = ex_hash" by (simp add: ex_params_def)
  ultimately have "db_holds db (genesisNode ex_params) ex_hash" by simp
  with write_connected_refines [OF ex_fresh_facts(1-5,7,8)] show ?thesis by blast
qed

text \<open>
  C9: the database also follows when the block is taken back.  Writing a node
  with the contents of the parent, such as the one \<open>disconnectNode\<close> restores,
  with the undo data of the child makes the database hold the parent, and drops
  the block data of the child: afterwards neither its undo data nor its new
  tickets are found, and the data of every height other than the child's and
  the parent's is as before.
\<close>

theorem write_disconnected_refines:
  assumes "node_inv H iv node" and "block_allowed node revoked new"
    and "connectNode H (Some node) iv' voted revoked new = Some (Inr m)"
    and "0 < TicketsPerBlock (n_params node)" and "length (entries (liveTickets node)) < 2 ^ 32"
    and "node_typed m" and "node_typed node" and "is_hash h" and "db_holds db m h0"
    and "pools_ok r" and "same_node r node"
  shows "\<exists>db'. WriteDisconnectedBestNode db r h (databaseUndoUpdate m) = Inr db' \<and> db_holds db' r h \<and>
    DbFetchBlockUndoData db' (n_height m) = Inl ErrMissingKey \<and>
    DbFetchNewTickets db' (n_height m) = Inl ErrMissingKey \<and>
    (\<forall>i. i \<noteq> n_height m \<and> i \<noteq> n_height r \<longrightarrow>
       DbFetchBlockUndoData db' i = DbFetchBlockUndoData db i \<and> DbFetchNewTickets db' i = DbFetchNewTickets db i)"
  using write_disconnected_ok [OF assms] by (simp add: block_data_def)

lemma ex_fresh_stored: "\<exists>db. db_holds db ex_fresh ex_hash"
proof -
  obtain db where "db_holds db (genesisNode ex_params) (GenesisHash ex_params)"
    using init_ok [of emptyDB ex_params 0] ex_params_ok by (auto simp: emptyDB_def)
  with write_connected_ok [OF ex_fresh_facts(1-5,7,8)] show ?thesis by blast
qed

theorem write_disconnected_refines_witness:
  "\<exists>db db'. db_holds db ex_fresh ex_hash \<and>
     WriteDisconnectedBestNode db (genesisNode ex_params) ex_hash (databaseUndoUpdate ex_fresh) = Inr db' \<and>
     db_holds db' (genesisNode ex_params) ex_hash \<and>
     DbFetchBlockUndoData db' (n_height ex_fresh) = Inl ErrMissingKey \<and>
     DbFetchNewTickets db' (n_height ex_fresh) = Inl ErrMissingKey"
proof -
  obtain db where db: "db_holds db ex_fresh ex_hash" using ex_fresh_stored by blast
  have "pools_ok (genesisNode ex_params)" using ex_fresh_facts(1) by (simp add: node_inv_def)
  moreover have "same_node (genesisNode ex_params) (genesisNode ex_params)" by (simp add: same_node_def)
  ultimately show ?thesis
    using write_disconnected_refines [OF ex_fresh_facts(1-4,6,7,9,8) db] db by blast
qed

text \<open>
  C10: loading the best node from a database that holds a node, with the
  height, hash and header of its block, gives the node back: the pools, the
  block data, the winners and the lottery checksum.
\<close>

theorem load_best_node:
  assumes "db_holds db node h" and "node_inv H (CalcHash256PRNGIV H headerBytes) node"
    and "0 < TicketsPerBlock (n_params node)" and "node_typed node"
    and "ImLen (liveTickets node) < 2 ^ 32" and "ImLen (missedTickets node) < 2 ^ 63"
    and "ImLen (revokedTickets node) < 2 ^ 63"
  shows "\<exists>n. LoadBestNode H db (n_height node) h headerBytes (n_params node) = Some (Inr n) \<and> same_node n node"
  using assms by (rule load_best_ok)

theorem load_best_node_witness:
  "\<exists>db n. LoadBestNode ex_H db (n_height ex_fresh) ex_hash [] (n_params ex_fresh) = Some (Inr n) \<and>
     same_node n ex_fresh"
proof -
  obtain db where db: "db_holds db ex_fresh ex_hash" using ex_fresh_stored by blast
  have "CalcHash256PRNGIV ex_H [] = ex_hash" by (simp add: CalcHash256PRNGIV_def ex_H_def)
  with connect_inv [OF ex_fresh_facts(1-3)] have "node_inv ex_H (CalcHash256PRNGIV ex_H []) ex_fresh" by simp
  moreover have "0 < TicketsPerBlock (n_params ex_fresh)" by code_simp
  moreover have "ImLen (liveTickets ex_fresh) = 2" "ImLen (missedTickets ex_fresh) = 0" "ImLen (revokedTickets ex_fresh) = 0"
    by code_simp+
  ultimately show ?thesis using load_best_node [OF db] ex_fresh_facts(7) by simp blast
qed

end
