(* ===== verification/Wire.thy ===== *)
theory Wire
  imports Prelude
begin

text \<open>
  The primitive encodings of \<open>src/wire/common.go\<close>: fixed-width integers,
  the typed elements of \<open>readElement\<close> and \<open>writeElement\<close>,
  variable-length integers, strings and byte arrays.

  A reader is the list of the bytes not yet consumed, as of a
  \<open>bytes.Reader\<close>.  An \<open>io.Writer\<close> is a parameter: its
  \<open>Write\<close> takes the state of the writer and the bytes and returns the new
  state and the error, if any.  The locale \<open>sink\<close> says what a writer that
  never fails does, and \<open>bytes.Buffer\<close> is an instance.  The locale
  \<open>canonical_codec\<close> is the contract of an encoding that has exactly one
  representation for each value; it gives the contract for counted lists.
\<close>

section \<open>Readers and writers\<close>

datatype io_error =
    EOF
  | ErrUnexpectedEOF
  | WriteError
  | InvalidType
  | MessageError string string
  | SlicePanic

type_synonym 'a reader = "byte list \<Rightarrow> io_error + 'a \<times> byte list"
type_synonym 'w writer = "'w \<Rightarrow> byte list \<Rightarrow> 'w \<times> io_error option"
type_synonym 'w action = "'w \<Rightarrow> 'w \<times> io_error option"

definition bindR :: "'a reader \<Rightarrow> ('a \<Rightarrow> 'b reader) \<Rightarrow> 'b reader" where
  "bindR m f r = bindE (m r) (\<lambda>(a, r'). f a r')"

definition returnR :: "'a \<Rightarrow> 'a reader" where
  "returnR a r = Inr (a, r)"

definition failR :: "io_error \<Rightarrow> 'a reader" where
  "failR e r = Inl e"

text \<open>A loop that reads \<open>n\<close> items one after the other.\<close>

fun repeatR :: "nat \<Rightarrow> 'a reader \<Rightarrow> 'a list reader" where
  "repeatR 0 m = returnR []"
| "repeatR (Suc n) m = bindR m (\<lambda>x. bindR (repeatR n m) (\<lambda>xs. returnR (x # xs)))"

definition seqW :: "'w action \<Rightarrow> 'w action \<Rightarrow> 'w action" where
  "seqW f g w = (case f w of (w', None) \<Rightarrow> g w' | (w', Some e) \<Rightarrow> (w', Some e))"

definition skipW :: "'w action" where
  "skipW w = (w, None)"

definition failW :: "io_error \<Rightarrow> 'w action" where
  "failW e w = (w, Some e)"

text \<open>A call whose error result is dropped.\<close>

definition ignoreW :: "'w action \<Rightarrow> 'w action" where
  "ignoreW f w = (fst (f w), None)"

fun forW :: "('a \<Rightarrow> 'w action) \<Rightarrow> 'a list \<Rightarrow> 'w action" where
  "forW f [] = skipW"
| "forW f (x # xs) = seqW (f x) (forW f xs)"

text \<open>\<open>io.ReadFull\<close> on a buffer of \<open>n\<close> bytes.\<close>

definition ReadFull :: "nat \<Rightarrow> byte list reader" where
  "ReadFull n r =
     (if n \<le> length r then Inr (take n r, drop n r)
      else Inl (if r = [] then EOF else ErrUnexpectedEOF))"

text \<open>\<open>Write\<close> of a \<open>bytes.Buffer\<close>.\<close>

definition Buffer_Write :: "byte list writer" where
  "Buffer_Write b bs = (b @ bs, None)"

lemma bindR_return [simp, result_simps]: "bindR (returnR a) f = f a"
  by (rule ext) (simp add: bindR_def returnR_def)

lemma bindR_Inr: "m r = Inr (a, r') \<Longrightarrow> bindR m f r = f a r'"
  by (simp add: bindR_def)

lemma bindR_Inl: "m r = Inl e \<Longrightarrow> bindR m f r = Inl e"
  by (simp add: bindR_def)

lemma bindR_eq_Inr_iff [result_simps]:
  "bindR m f r = Inr z \<longleftrightarrow> (\<exists>a r'. m r = Inr (a, r') \<and> f a r' = Inr z)"
  by (auto simp: bindR_def bindE_eq_Inr_iff)

lemma returnR_eq_Inr_iff [simp, result_simps]: "returnR a r = Inr (b, r') \<longleftrightarrow> b = a \<and> r' = r"
  by (auto simp: returnR_def)

lemma failR_neq_Inr [simp, result_simps]: "failR e r \<noteq> Inr z"
  by (simp add: failR_def)

lemma returnR_apply [simp]: "returnR a r = Inr (a, r)"
  by (simp add: returnR_def)

lemma failR_apply [simp]: "failR e r = Inl e"
  by (simp add: failR_def)

lemma ReadFull_append [simp]: "length bs = n \<Longrightarrow> ReadFull n (bs @ r) = Inr (bs, r)"
  by (simp add: ReadFull_def)

lemma ReadFull_eq_Inr_iff [result_simps]:
  "ReadFull n r = Inr (bs, r') \<longleftrightarrow> r = bs @ r' \<and> length bs = n"
  by (auto simp: ReadFull_def)

lemma ReadFull_eq_Inl_iff:
  "ReadFull n r = Inl e \<longleftrightarrow> length r < n \<and> e = (if r = [] then EOF else ErrUnexpectedEOF)"
  by (auto simp: ReadFull_def)

section \<open>Fixed-width integers\<close>

definition Uint8 :: "byte reader" where
  "Uint8 = bindR (ReadFull 1) (\<lambda>buf. returnR (buf ! 0))"

definition Uint16 :: "(byte list \<Rightarrow> nat) \<Rightarrow> uint16 reader" where
  "Uint16 byteOrder = bindR (ReadFull 2) (\<lambda>buf. returnR (word_of_nat (byteOrder buf)))"

definition Uint32 :: "(byte list \<Rightarrow> nat) \<Rightarrow> uint32 reader" where
  "Uint32 byteOrder = bindR (ReadFull 4) (\<lambda>buf. returnR (word_of_nat (byteOrder buf)))"

definition Uint64 :: "(byte list \<Rightarrow> nat) \<Rightarrow> uint64 reader" where
  "Uint64 byteOrder = bindR (ReadFull 8) (\<lambda>buf. returnR (word_of_nat (byteOrder buf)))"

definition PutUint8 :: "'w writer \<Rightarrow> byte \<Rightarrow> 'w action" where
  "PutUint8 write val w = write w [val]"

definition PutUint16 :: "'w writer \<Rightarrow> (nat \<Rightarrow> nat \<Rightarrow> byte list) \<Rightarrow> uint16 \<Rightarrow> 'w action" where
  "PutUint16 write byteOrder val w = write w (byteOrder 2 (unat val))"

definition PutUint32 :: "'w writer \<Rightarrow> (nat \<Rightarrow> nat \<Rightarrow> byte list) \<Rightarrow> uint32 \<Rightarrow> 'w action" where
  "PutUint32 write byteOrder val w = write w (byteOrder 4 (unat val))"

definition PutUint64 :: "'w writer \<Rightarrow> (nat \<Rightarrow> nat \<Rightarrow> byte list) \<Rightarrow> uint64 \<Rightarrow> 'w action" where
  "PutUint64 write byteOrder val w = write w (byteOrder 8 (unat val))"

lemma unat_less_width: "unat (w :: 'a::len word) < 2 ^ LENGTH('a)"
  by (rule unsigned_less)

lemma le_bytes_of_word:
  assumes "length bs = n" and "8 * n = LENGTH('a)"
  shows "le_bytes n (unat (word_of_nat (of_le_bytes bs) :: 'a::len word)) = bs"
proof -
  have "of_le_bytes bs < 256 ^ n" using of_le_bytes_bound [of bs] assms(1) by simp
  also have "\<dots> = 2 ^ LENGTH('a)" by (simp add: assms(2) [symmetric] power_mult)
  finally have "unat (word_of_nat (of_le_bytes bs) :: 'a word) = of_le_bytes bs"
    by (simp add: unat_of_nat)
  then show ?thesis using le_bytes_of_le_bytes [of bs] assms(1) by simp
qed

lemma Uint8_Cons [simp]: "Uint8 (b # r) = Inr (b, r)"
  by (simp add: Uint8_def bindR_def ReadFull_def)

lemma Uint_append [simp]:
  "Uint16 of_le_bytes (le_bytes 2 (unat a) @ r) = Inr (a, r)"
  "Uint32 of_le_bytes (le_bytes 4 (unat b) @ r) = Inr (b, r)"
  "Uint64 of_le_bytes (le_bytes 8 (unat c) @ r) = Inr (c, r)"
  by (simp_all add: Uint16_def Uint32_def Uint64_def bindR_def word_codec)

lemma Uint8_eq_Inr_iff [result_simps]: "Uint8 r = Inr (b, r') \<longleftrightarrow> r = b # r'"
  by (cases r) (auto simp: Uint8_def bindR_def ReadFull_def)

lemma Uint_eq_Inr_iff [result_simps]:
  "Uint16 of_le_bytes r = Inr (a, r') \<longleftrightarrow> r = le_bytes 2 (unat a) @ r'"
  "Uint32 of_le_bytes r = Inr (b, r') \<longleftrightarrow> r = le_bytes 4 (unat b) @ r'"
  "Uint64 of_le_bytes r = Inr (c, r') \<longleftrightarrow> r = le_bytes 8 (unat c) @ r'"
  by (auto simp: Uint16_def Uint32_def Uint64_def bindR_eq_Inr_iff ReadFull_eq_Inr_iff
      le_bytes_of_word word_codec)

section \<open>What a writer does, and what an encoding promises\<close>

text \<open>
  \<open>writes contents f bs\<close>: the action never fails and appends exactly the
  bytes \<open>bs\<close> to the contents of the writer.
\<close>

definition writes :: "('w \<Rightarrow> byte list) \<Rightarrow> 'w action \<Rightarrow> byte list \<Rightarrow> bool" where
  "writes contents f bs \<longleftrightarrow> (\<forall>w. snd (f w) = None \<and> contents (fst (f w)) = contents w @ bs)"

lemma writesE:
  assumes "writes c f bs"
  obtains w' where "f w = (w', None)" and "c w' = c w @ bs"
  by (rule that [of "fst (f w)"]) (use assms in \<open>simp_all add: writes_def prod_eq_iff\<close>)

lemma writes_seqW:
  assumes "writes c f bs" and "writes c g cs"
  shows "writes c (seqW f g) (bs @ cs)"
  unfolding writes_def
proof
  fix w
  from assms(1) obtain w' where w': "f w = (w', None)" "c w' = c w @ bs"
    by (rule writesE)
  then show "snd (seqW f g w) = None \<and> c (fst (seqW f g w)) = c w @ bs @ cs"
    using assms(2) by (simp add: writes_def seqW_def)
qed

lemma writes_skipW: "writes c skipW []"
  by (simp add: writes_def skipW_def)

lemma writes_ignoreW: "writes c f bs \<Longrightarrow> writes c (ignoreW f) bs"
  by (simp add: writes_def ignoreW_def)

lemma writes_forW:
  assumes "\<And>x. x \<in> set xs \<Longrightarrow> writes c (f x) (g x)"
  shows "writes c (forW f xs) (concat (map g xs))"
  using assms by (induction xs) (simp_all add: writes_skipW writes_seqW)

locale sink =
  fixes wr :: "'w writer" and contents :: "'w \<Rightarrow> byte list"
  assumes write_succeeds: "snd (wr w bs) = None"
    and write_appends: "contents (fst (wr w bs)) = contents w @ bs"
begin

lemma writes_write: "writes contents (\<lambda>w. wr w bs) bs"
  by (simp add: writes_def write_succeeds write_appends)

lemma writes_PutUint8: "writes contents (PutUint8 wr b) [b]"
  by (simp add: writes_def PutUint8_def write_succeeds write_appends)

lemma writes_PutUint16: "writes contents (PutUint16 wr le_bytes a) (le_bytes 2 (unat a))"
  by (simp add: writes_def PutUint16_def write_succeeds write_appends)

lemma writes_PutUint32: "writes contents (PutUint32 wr le_bytes a) (le_bytes 4 (unat a))"
  by (simp add: writes_def PutUint32_def write_succeeds write_appends)

lemma writes_PutUint64: "writes contents (PutUint64 wr le_bytes a) (le_bytes 8 (unat a))"
  by (simp add: writes_def PutUint64_def write_succeeds write_appends)

lemmas writes_basic = writes_write writes_PutUint8 writes_PutUint16 writes_PutUint32
  writes_PutUint64

end

interpretation buffer: sink Buffer_Write id
  by unfold_locales (simp_all add: Buffer_Write_def)

lemma writes_buffer: "writes id f bs \<Longrightarrow> f b = (b @ bs, None)"
  by (erule writesE [of id f bs b]) simp

text \<open>
  A canonical encoding: every acceptable value is read back from its bytes, and
  every input that is accepted is the encoding of the value it yields, so that
  no value has a second representation.
\<close>

locale canonical_codec =
  fixes enc :: "'a \<Rightarrow> byte list" and dec :: "'a reader" and ok :: "'a \<Rightarrow> bool"
  assumes dec_enc: "ok x \<Longrightarrow> dec (enc x @ r) = Inr (x, r)"
    and dec_inv: "dec b = Inr (x, r) \<Longrightarrow> ok x \<and> b = enc x @ r"
begin

lemma enc_prefix_free:
  assumes "ok x" and "ok y" and "enc x @ r = enc y @ s"
  shows "x = y \<and> r = s"
proof -
  have "(Inr (x, r) :: io_error + 'a \<times> byte list) = Inr (y, s)"
    unfolding dec_enc [OF assms(1), symmetric] dec_enc [OF assms(2), symmetric] assms(3) ..
  then show ?thesis by simp
qed

lemma dec_consumes: "dec b = Inr (x, r) \<Longrightarrow> length b = length (enc x) + length r"
  by (drule dec_inv) simp

lemma repeat_enc:
  "list_all ok xs \<Longrightarrow> repeatR (length xs) dec (concat (map enc xs) @ r) = Inr (xs, r)"
  by (induction xs) (simp_all add: bindR_def dec_enc)

lemma repeat_inv:
  "repeatR n dec b = Inr (xs, r) \<Longrightarrow>
     length xs = n \<and> list_all ok xs \<and> b = concat (map enc xs) @ r"
proof (induction n arbitrary: b xs)
  case (Suc n)
  then obtain x b' ys where "dec b = Inr (x, b')" "repeatR n dec b' = Inr (ys, r)" "xs = x # ys"
    by (auto simp: bindR_eq_Inr_iff)
  with Suc.IH [of b' ys] dec_inv [of b x b'] show ?case by simp
qed auto

end

section \<open>Typed elements\<close>

text \<open>
  The concrete types on which \<open>readElement\<close> and \<open>writeElement\<close>
  switch.  A signed integer is the word of its width, a time its Unix seconds,
  a fixed-size array the list of its bytes.
\<close>

definition CommandSize :: nat where
  "CommandSize = 12"

datatype element =
    El_uint8 (el_uint8: byte)
  | El_uint16 (el_uint16: uint16)
  | El_int32 (el_int32: uint32)
  | El_uint32 (el_uint32: uint32)
  | El_int64 (el_int64: uint64)
  | El_uint64 (el_uint64: uint64)
  | El_bool (el_bool: bool)
  | El_uint32Time (el_uint32Time: int)
  | El_int64Time (el_int64Time: int)
  | El_bytes4 (el_bytes4: "byte list")
  | El_bytes6 (el_bytes6: "byte list")
  | El_command (el_command: "byte list")
  | El_bytes16 (el_bytes16: "byte list")
  | El_bytes32 (el_bytes32: "byte list")
  | El_hash (el_hash: hash)
  | El_ServiceFlag (el_ServiceFlag: uint64)
  | El_InvType (el_InvType: uint32)
  | El_CurrencyNet (el_CurrencyNet: uint32)
  | El_RejectCode (el_RejectCode: byte)

text \<open>
  \<open>readElement\<close> is given a pointer; the value it points to only selects
  the type.
\<close>

primrec readElement :: "element \<Rightarrow> element reader" where
  "readElement (El_uint8 _) = bindR Uint8 (\<lambda>rv. returnR (El_uint8 rv))"
| "readElement (El_uint16 _) = bindR (Uint16 of_le_bytes) (\<lambda>rv. returnR (El_uint16 rv))"
| "readElement (El_int32 _) = bindR (Uint32 of_le_bytes) (\<lambda>rv. returnR (El_int32 rv))"
| "readElement (El_uint32 _) = bindR (Uint32 of_le_bytes) (\<lambda>rv. returnR (El_uint32 rv))"
| "readElement (El_int64 _) = bindR (Uint64 of_le_bytes) (\<lambda>rv. returnR (El_int64 rv))"
| "readElement (El_uint64 _) = bindR (Uint64 of_le_bytes) (\<lambda>rv. returnR (El_uint64 rv))"
| "readElement (El_bool _) =
     bindR Uint8 (\<lambda>rv. returnR (if rv = 0x00 then El_bool False else El_bool True))"
| "readElement (El_uint32Time _) =
     bindR (Uint32 of_le_bytes) (\<lambda>rv. returnR (El_uint32Time (uint rv)))"
| "readElement (El_int64Time _) =
     bindR (Uint64 of_le_bytes) (\<lambda>rv. returnR (El_int64Time (sint rv)))"
| "readElement (El_bytes4 _) = bindR (ReadFull 4) (\<lambda>e. returnR (El_bytes4 e))"
| "readElement (El_bytes6 _) = bindR (ReadFull 6) (\<lambda>e. returnR (El_bytes6 e))"
| "readElement (El_command _) = bindR (ReadFull CommandSize) (\<lambda>e. returnR (El_command e))"
| "readElement (El_bytes16 _) = bindR (ReadFull 16) (\<lambda>e. returnR (El_bytes16 e))"
| "readElement (El_bytes32 _) = bindR (ReadFull 32) (\<lambda>e. returnR (El_bytes32 e))"
| "readElement (El_hash _) = bindR (ReadFull HashSize) (\<lambda>e. returnR (El_hash e))"
| "readElement (El_ServiceFlag _) =
     bindR (Uint64 of_le_bytes) (\<lambda>rv. returnR (El_ServiceFlag rv))"
| "readElement (El_InvType _) = bindR (Uint32 of_le_bytes) (\<lambda>rv. returnR (El_InvType rv))"
| "readElement (El_CurrencyNet _) =
     bindR (Uint32 of_le_bytes) (\<lambda>rv. returnR (El_CurrencyNet rv))"
| "readElement (El_RejectCode _) = bindR Uint8 (\<lambda>rv. returnR (El_RejectCode rv))"

fun readElements :: "element list \<Rightarrow> element list reader" where
  "readElements [] = returnR []"
| "readElements (element # elements) =
     bindR (readElement element)
       (\<lambda>e. bindR (readElements elements) (\<lambda>es. returnR (e # es)))"

text \<open>
  \<open>uint8\<close>, \<open>uint16\<close> and the arrays of 6 and 32 bytes have no case of
  their own and reach \<open>binary.Write\<close>, which writes the bytes of a
  fixed-size value and refuses the structure \<open>time.Time\<close>.
\<close>

primrec writeElement :: "'w writer \<Rightarrow> element \<Rightarrow> 'w action" where
  "writeElement wr (El_int32 e) = PutUint32 wr le_bytes e"
| "writeElement wr (El_uint32 e) = PutUint32 wr le_bytes e"
| "writeElement wr (El_int64 e) = PutUint64 wr le_bytes e"
| "writeElement wr (El_uint64 e) = PutUint64 wr le_bytes e"
| "writeElement wr (El_bool e) = (if e then PutUint8 wr 0x01 else PutUint8 wr 0x00)"
| "writeElement wr (El_bytes4 e) = (\<lambda>w. wr w e)"
| "writeElement wr (El_command e) = (\<lambda>w. wr w e)"
| "writeElement wr (El_bytes16 e) = (\<lambda>w. wr w e)"
| "writeElement wr (El_hash e) = (\<lambda>w. wr w e)"
| "writeElement wr (El_ServiceFlag e) = PutUint64 wr le_bytes e"
| "writeElement wr (El_InvType e) = PutUint32 wr le_bytes e"
| "writeElement wr (El_CurrencyNet e) = PutUint32 wr le_bytes e"
| "writeElement wr (El_RejectCode e) = PutUint8 wr e"
| "writeElement wr (El_uint8 e) = (\<lambda>w. wr w [e])"
| "writeElement wr (El_uint16 e) = (\<lambda>w. wr w (le_bytes 2 (unat e)))"
| "writeElement wr (El_bytes6 e) = (\<lambda>w. wr w e)"
| "writeElement wr (El_bytes32 e) = (\<lambda>w. wr w e)"
| "writeElement wr (El_uint32Time _) = failW InvalidType"
| "writeElement wr (El_int64Time _) = failW InvalidType"

definition writeElements :: "'w writer \<Rightarrow> element list \<Rightarrow> 'w action" where
  "writeElements wr elements = forW (writeElement wr) elements"

text \<open>The bytes of an element, and the elements that have an encoding.\<close>

primrec element_bytes :: "element \<Rightarrow> byte list" where
  "element_bytes (El_uint8 e) = [e]"
| "element_bytes (El_uint16 e) = le_bytes 2 (unat e)"
| "element_bytes (El_int32 e) = le_bytes 4 (unat e)"
| "element_bytes (El_uint32 e) = le_bytes 4 (unat e)"
| "element_bytes (El_int64 e) = le_bytes 8 (unat e)"
| "element_bytes (El_uint64 e) = le_bytes 8 (unat e)"
| "element_bytes (El_bool e) = [if e then 1 else 0]"
| "element_bytes (El_uint32Time e) = le_bytes 4 (nat e)"
| "element_bytes (El_int64Time e) = le_bytes 8 (unat (word_of_int e :: uint64))"
| "element_bytes (El_bytes4 e) = e"
| "element_bytes (El_bytes6 e) = e"
| "element_bytes (El_command e) = e"
| "element_bytes (El_bytes16 e) = e"
| "element_bytes (El_bytes32 e) = e"
| "element_bytes (El_hash e) = e"
| "element_bytes (El_ServiceFlag e) = le_bytes 8 (unat e)"
| "element_bytes (El_InvType e) = le_bytes 4 (unat e)"
| "element_bytes (El_CurrencyNet e) = le_bytes 4 (unat e)"
| "element_bytes (El_RejectCode e) = [e]"

primrec element_ok :: "element \<Rightarrow> bool" where
  "element_ok (El_bytes4 e) \<longleftrightarrow> length e = 4"
| "element_ok (El_bytes6 e) \<longleftrightarrow> length e = 6"
| "element_ok (El_command e) \<longleftrightarrow> length e = CommandSize"
| "element_ok (El_bytes16 e) \<longleftrightarrow> length e = 16"
| "element_ok (El_bytes32 e) \<longleftrightarrow> length e = 32"
| "element_ok (El_hash e) \<longleftrightarrow> is_hash e"
| "element_ok (El_uint32Time e) \<longleftrightarrow> 0 \<le> e \<and> e < 0x100000000"
| "element_ok (El_int64Time e) \<longleftrightarrow> - 0x8000000000000000 \<le> e \<and> e < 0x8000000000000000"
| "element_ok (El_uint8 _) \<longleftrightarrow> True"
| "element_ok (El_uint16 _) \<longleftrightarrow> True"
| "element_ok (El_int32 _) \<longleftrightarrow> True"
| "element_ok (El_uint32 _) \<longleftrightarrow> True"
| "element_ok (El_int64 _) \<longleftrightarrow> True"
| "element_ok (El_uint64 _) \<longleftrightarrow> True"
| "element_ok (El_bool _) \<longleftrightarrow> True"
| "element_ok (El_ServiceFlag _) \<longleftrightarrow> True"
| "element_ok (El_InvType _) \<longleftrightarrow> True"
| "element_ok (El_CurrencyNet _) \<longleftrightarrow> True"
| "element_ok (El_RejectCode _) \<longleftrightarrow> True"

text \<open>The constructor of an element, as the type switch sees it.\<close>

definition same_type :: "element \<Rightarrow> element \<Rightarrow> bool" where
  "same_type e e' \<longleftrightarrow> readElement e = readElement e'"

lemma readElement_bytes:
  assumes "element_ok e"
  shows "readElement e (element_bytes e @ r) = Inr (e, r)"
proof (cases e)
  case (El_uint32Time t)
  with assms have t: "0 \<le> t" "t < 0x100000000" by simp_all
  have u: "unat (word_of_int t :: uint32) = nat t"
    using t by (simp add: unat_eq_nat_uint uint_word_of_int)
  show ?thesis
    using Uint_append(2) [of "word_of_int t" r] t unfolding El_uint32Time u
    by (simp add: bindR_def uint_word_of_int)
next
  case (El_int64Time t)
  with assms have "sint (word_of_int t :: uint64) = t"
    by (simp add: signed_of_int signed_take_bit_int_eq_self)
  then show ?thesis unfolding El_int64Time by (simp add: bindR_def)
qed (use assms in \<open>simp_all add: bindR_def is_hash_def\<close>)

lemma readElements_bytes:
  assumes "list_all element_ok es" and "list_all2 same_type ps es"
  shows "readElements ps (concat (map element_bytes es) @ r) = Inr (es, r)"
  using assms(2,1)
proof (induction rule: list_all2_induct)
  case (Cons p ps e es)
  then show ?case by (simp add: same_type_def bindR_def readElement_bytes)
qed simp

text \<open>Reading into a variable determines its bytes, except for booleans.\<close>

lemma readElement_inv:
  assumes "readElement p b = Inr (e, r)" and "\<not> is_El_bool p"
  shows "element_ok e \<and> b = element_bytes e @ r \<and> same_type p e"
proof (cases p)
  case (El_uint32Time t)
  with assms(1) obtain w :: uint32 where w: "El_uint32Time (uint w) = e" "b = le_bytes 4 (unat w) @ r"
    by (simp add: bindR_eq_Inr_iff Uint_eq_Inr_iff) blast
  then show ?thesis
    using El_uint32Time uint_lt2p [of w] by (auto simp: same_type_def fun_eq_iff)
next
  case (El_int64Time t)
  with assms(1) obtain w :: uint64 where w: "El_int64Time (sint w) = e" "b = le_bytes 8 (unat w) @ r"
    by (simp add: bindR_eq_Inr_iff Uint_eq_Inr_iff) blast
  then show ?thesis
    using El_int64Time sint_range_size [of w] by (auto simp: same_type_def fun_eq_iff word_size)
qed (use assms in \<open>auto simp: bindR_eq_Inr_iff Uint_eq_Inr_iff Uint8_eq_Inr_iff
       ReadFull_eq_Inr_iff same_type_def is_hash_def fun_eq_iff\<close>)

context sink
begin

lemma writes_writeElement:
  assumes "\<not> is_El_uint32Time e" and "\<not> is_El_int64Time e"
  shows "writes contents (writeElement wr e) (element_bytes e)"
  using assms by (cases e) (auto simp: writes_basic)

lemma writes_writeElements:
  assumes "list_all (\<lambda>e. \<not> is_El_uint32Time e \<and> \<not> is_El_int64Time e) es"
  shows "writes contents (writeElements wr es) (concat (map element_bytes es))"
  unfolding writeElements_def
  by (rule writes_forW) (use assms in \<open>auto simp: list_all_iff writes_writeElement\<close>)

end

section \<open>Variable-length integers, strings and byte arrays\<close>

definition errNonCanonicalVarInt :: io_error where
  "errNonCanonicalVarInt = MessageError ''ReadVarInt'' ''non-canonical varint''"

definition MaxVarIntPayload :: nat where
  "MaxVarIntPayload = 9"

definition ReadVarInt :: "uint64 reader" where
  "ReadVarInt =
     bindR Uint8 (\<lambda>discriminant.
       if discriminant = 0xff then
         bindR (Uint64 of_le_bytes) (\<lambda>sv.
           if sv < 0x100000000 then failR errNonCanonicalVarInt else returnR sv)
       else if discriminant = 0xfe then
         bindR (Uint32 of_le_bytes) (\<lambda>sv.
           if (ucast sv :: uint64) < 0x10000 then failR errNonCanonicalVarInt
           else returnR (ucast sv))
       else if discriminant = 0xfd then
         bindR (Uint16 of_le_bytes) (\<lambda>sv.
           if (ucast sv :: uint64) < 0xfd then failR errNonCanonicalVarInt
           else returnR (ucast sv))
       else returnR (ucast discriminant))"

definition WriteVarInt :: "'w writer \<Rightarrow> uint64 \<Rightarrow> 'w action" where
  "WriteVarInt wr val =
     (if val < 0xfd then PutUint8 wr (ucast val)
      else if val \<le> 0xffff then
        seqW (PutUint8 wr 0xfd) (PutUint16 wr le_bytes (ucast val))
      else if val \<le> 0xffffffff then
        seqW (PutUint8 wr 0xfe) (PutUint32 wr le_bytes (ucast val))
      else seqW (PutUint8 wr 0xff) (PutUint64 wr le_bytes val))"

definition VarIntSerializeSize :: "uint64 \<Rightarrow> nat" where
  "VarIntSerializeSize val =
     (if val < 0xfd then 1
      else if val \<le> 0xffff then 3
      else if val \<le> 0xffffffff then 5
      else 9)"

definition MaxMessagePayload :: uint32 where
  "MaxMessagePayload = 1024 * 1024 * 32"

definition ReadVarString :: "string reader" where
  "ReadVarString =
     bindR ReadVarInt (\<lambda>count.
       if count > ucast MaxMessagePayload
       then failR (MessageError ''ReadVarString'' ''variable length string is too long'')
       else bindR (ReadFull (unat count)) (\<lambda>buf.
         returnR (map (\<lambda>b. char_of (unat b)) buf)))"

definition WriteVarString :: "'w writer \<Rightarrow> string \<Rightarrow> 'w action" where
  "WriteVarString wr str =
     seqW (WriteVarInt wr (word_of_nat (length str)))
       (\<lambda>w. wr w (map (\<lambda>c. word_of_nat (of_char c)) str))"

definition ReadVarBytes :: "uint32 \<Rightarrow> byte list reader" where
  "ReadVarBytes maxAllowed =
     bindR ReadVarInt (\<lambda>count.
       if count > ucast maxAllowed
       then failR (MessageError ''ReadVarBytes'' ''larger than the max allowed size'')
       else ReadFull (unat count))"

definition WriteVarBytes :: "'w writer \<Rightarrow> byte list \<Rightarrow> 'w action" where
  "WriteVarBytes wr bs =
     seqW (WriteVarInt wr (word_of_nat (length bs))) (\<lambda>w. wr w bs)"

text \<open>The bytes of a variable-length integer.\<close>

definition varint_bytes :: "uint64 \<Rightarrow> byte list" where
  "varint_bytes val =
     (if val < 0xfd then [ucast val]
      else if val \<le> 0xffff then 0xfd # le_bytes 2 (unat val)
      else if val \<le> 0xffffffff then 0xfe # le_bytes 4 (unat val)
      else 0xff # le_bytes 8 (unat val))"

definition counted_bytes :: "byte list \<Rightarrow> byte list" where
  "counted_bytes bs = varint_bytes (word_of_nat (length bs)) @ bs"

lemma length_varint_bytes [simp]: "length (varint_bytes val) = VarIntSerializeSize val"
  by (simp add: varint_bytes_def VarIntSerializeSize_def)

lemma unat_ucast_small:
  "val \<le> 0xff \<Longrightarrow> unat (ucast val :: byte) = unat (val :: uint64)"
  "val \<le> 0xffff \<Longrightarrow> unat (ucast val :: uint16) = unat val"
  "val \<le> 0xffffffff \<Longrightarrow> unat (ucast val :: uint32) = unat val"
  by (simp_all add: unsigned_ucast_eq word_le_nat_alt take_bit_nat_eq_self)

lemma unat_ucast_wider:
  fixes w :: "'a::len word"
  assumes "LENGTH('a) \<le> LENGTH('b::len)"
  shows "unat (ucast w :: 'b word) = unat w"
proof -
  have "unat w < 2 ^ LENGTH('b)"
    using unat_less_width [of w] power_increasing [OF assms, of "2::nat"] by linarith
  then show ?thesis by (simp add: unsigned_ucast_eq take_bit_nat_eq_self)
qed

lemma ucast_ucast_small:
  fixes val :: uint64
  shows "val \<le> 0xff \<Longrightarrow> ucast (ucast val :: byte) = val"
    and "val \<le> 0xffff \<Longrightarrow> ucast (ucast val :: uint16) = val"
    and "val \<le> 0xffffffff \<Longrightarrow> ucast (ucast val :: uint32) = val"
  by (rule word_unat_eq_iff [THEN iffD2];
      simp add: unat_ucast_small unat_ucast_wider)+

lemma ucast_ucast_byte: "ucast (ucast d :: uint64) = (d :: byte)"
proof -
  have "(ucast d :: uint64) \<le> 0xff"
    using unat_less_width [of d] by (simp add: word_le_nat_alt unat_ucast_wider)
  then have "unat (ucast (ucast d :: uint64) :: byte) = unat d"
    by (simp only: unat_ucast_small) (simp add: unat_ucast_wider)
  then show ?thesis by (rule word_unat_eq_iff [THEN iffD2])
qed

lemma varint_bytes_ReadVarInt: "ReadVarInt (varint_bytes val @ r) = Inr (val, r)"
proof -
  have w2: "le_bytes 2 (unat val) = le_bytes 2 (unat (ucast val :: uint16))" if "val \<le> 0xffff"
    using that by (simp add: unat_ucast_small)
  have w4: "le_bytes 4 (unat val) = le_bytes 4 (unat (ucast val :: uint32))" if "val \<le> 0xffffffff"
    using that by (simp add: unat_ucast_small)
  consider "val < 0xfd" | "0xfd \<le> val" "val \<le> 0xffff" | "0xffff < val" "val \<le> 0xffffffff"
    | "0xffffffff < val"
    by (meson linorder_not_le)
  then show ?thesis
  proof cases
    case 1
    then have le: "val \<le> 0xff" by (simp add: word_less_nat_alt word_le_nat_alt)
    have "unat (ucast val :: byte) < 0xfd"
      using 1 by (simp add: unat_ucast_small le word_less_nat_alt)
    then have "(ucast val :: byte) \<noteq> 0xff" "(ucast val :: byte) \<noteq> 0xfe" "(ucast val :: byte) \<noteq> 0xfd"
      by auto
    then show ?thesis
      using 1 le by (simp add: varint_bytes_def ReadVarInt_def bindR_def ucast_ucast_small)
  next
    case 2
    then have "\<not> val < 0xfd" by simp
    with 2 show ?thesis
      by (simp add: varint_bytes_def w2 ReadVarInt_def bindR_def ucast_ucast_small)
  next
    case 3
    then have "\<not> val < 0xfd" "\<not> val \<le> 0xffff" "\<not> val < 0x10000"
      by (simp_all add: word_less_nat_alt word_le_nat_alt)
    with 3 show ?thesis
      by (simp add: varint_bytes_def w4 ReadVarInt_def bindR_def ucast_ucast_small)
  next
    case 4
    then have "\<not> val < 0xfd" "\<not> val \<le> 0xffff" "\<not> val \<le> 0xffffffff" "\<not> val < 0x100000000"
      by (simp_all add: word_less_nat_alt word_le_nat_alt)
    then show ?thesis by (simp add: varint_bytes_def ReadVarInt_def bindR_def)
  qed
qed

lemma varint_bytes_inv:
  assumes "ReadVarInt b = Inr (val, r)"
  shows "b = varint_bytes val @ r"
proof -
  from assms obtain d b' where b: "b = d # b'"
    by (auto simp: ReadVarInt_def bindR_eq_Inr_iff Uint8_eq_Inr_iff)
  consider "d = 0xff" | "d = 0xfe" | "d = 0xfd" | "d \<noteq> 0xff" "d \<noteq> 0xfe" "d \<noteq> 0xfd" by blast
  then show ?thesis
  proof cases
    case 1
    then have "b' = le_bytes 8 (unat val) @ r" "\<not> val < 0x100000000"
      using assms b by (auto simp: ReadVarInt_def bindR_eq_Inr_iff Uint_eq_Inr_iff split: if_splits)
    then show ?thesis
      using b 1 by (simp add: varint_bytes_def word_less_nat_alt word_le_nat_alt)
  next
    case 2
    then obtain v :: uint32 where v: "b' = le_bytes 4 (unat v) @ r" "\<not> (ucast v :: uint64) < 0x10000"
        "val = ucast v"
      using assms b by (auto simp: ReadVarInt_def bindR_eq_Inr_iff Uint_eq_Inr_iff split: if_splits)
    then have "unat val = unat v" by (simp add: unat_ucast_wider)
    then show ?thesis
      using b 2 v unat_less_width [of v]
      by (simp add: varint_bytes_def word_less_nat_alt word_le_nat_alt)
  next
    case 3
    then obtain v :: uint16 where v: "b' = le_bytes 2 (unat v) @ r" "\<not> (ucast v :: uint64) < 0xfd"
        "val = ucast v"
      using assms b by (auto simp: ReadVarInt_def bindR_eq_Inr_iff Uint_eq_Inr_iff split: if_splits)
    then have "unat val = unat v" by (simp add: unat_ucast_wider)
    then show ?thesis
      using b 3 v unat_less_width [of v]
      by (simp add: varint_bytes_def word_less_nat_alt word_le_nat_alt)
  next
    case 4
    then have v: "val = ucast d" "b' = r"
      using assms b by (auto simp: ReadVarInt_def bindR_def)
    have "unat d < 256" using unat_less_width [of d] by simp
    moreover have "unat d \<noteq> 0xff" "unat d \<noteq> 0xfe" "unat d \<noteq> 0xfd"
      using 4 by (auto simp: word_unat_eq_iff)
    ultimately have "unat d < 0xfd" by linarith
    then have "unat val < 0xfd" using v by (simp add: unat_ucast_wider)
    then have "val < 0xfd" by (simp add: word_less_nat_alt)
    then show ?thesis using b v by (simp add: varint_bytes_def ucast_ucast_byte)
  qed
qed

interpretation varint: canonical_codec varint_bytes ReadVarInt "\<lambda>_. True"
  by unfold_locales (simp_all add: varint_bytes_ReadVarInt varint_bytes_inv)

lemmas ReadVarInt_simps [simp] = varint.dec_enc [OF TrueI]

lemma VarIntSerializeSize_bounds: "1 \<le> VarIntSerializeSize val \<and> VarIntSerializeSize val \<le> MaxVarIntPayload"
  by (simp add: VarIntSerializeSize_def MaxVarIntPayload_def)

text \<open>A length that fits in 64 bits is its own count.\<close>

lemma unat_count: "n \<le> unat (m :: uint32) \<Longrightarrow> unat (word_of_nat n :: uint64) = n"
  using unat_less_width [of m] by (simp add: unat_of_nat)

lemma count_bound:
  "n \<le> unat (m :: uint32) \<Longrightarrow> \<not> (word_of_nat n :: uint64) > ucast m"
  by (simp add: word_less_nat_alt unat_count unat_ucast_wider)

lemma count_bound_inv:
  "\<not> (c :: uint64) > ucast (m :: uint32) \<Longrightarrow> unat c \<le> unat m"
  by (simp add: word_less_nat_alt unat_ucast_wider)

lemma ReadVarBytes_counted:
  assumes "length bs \<le> unat maxAllowed"
  shows "ReadVarBytes maxAllowed (counted_bytes bs @ r) = Inr (bs, r)"
  using assms by (simp add: ReadVarBytes_def counted_bytes_def bindR_def count_bound unat_count)

lemma ReadVarBytes_inv:
  assumes "ReadVarBytes maxAllowed b = Inr (bs, r)"
  shows "length bs \<le> unat maxAllowed \<and> b = counted_bytes bs @ r"
proof -
  from assms obtain c r' where c: "ReadVarInt b = Inr (c, r')" "\<not> c > ucast maxAllowed"
      "r' = bs @ r" "length bs = unat c"
    by (auto simp: ReadVarBytes_def bindR_eq_Inr_iff ReadFull_eq_Inr_iff split: if_splits)
  then have "word_of_nat (length bs) = c" by simp
  with c varint_bytes_inv [OF c(1)] count_bound_inv [OF c(2)] show ?thesis
    by (simp add: counted_bytes_def)
qed

interpretation varbytes: canonical_codec counted_bytes "ReadVarBytes m" "\<lambda>bs. length bs \<le> unat m"
  for m
  by unfold_locales (simp_all add: ReadVarBytes_counted ReadVarBytes_inv)

definition string_bytes :: "string \<Rightarrow> byte list" where
  "string_bytes str = map (\<lambda>c. word_of_nat (of_char c)) str"

lemma char_of_byte: "char_of (unat (word_of_nat (of_char c) :: byte)) = c"
proof -
  have "(of_char c :: nat) < 256"
    by (metis of_char_mod_256 mod_less_divisor zero_less_numeral)
  then show ?thesis by (simp add: unat_of_nat)
qed

lemma ReadVarString_bytes:
  assumes "length str \<le> unat MaxMessagePayload"
  shows "ReadVarString (counted_bytes (string_bytes str) @ r) = Inr (str, r)"
  using assms
  by (simp add: ReadVarString_def counted_bytes_def string_bytes_def bindR_def count_bound
      unat_count comp_def char_of_byte)

context sink
begin

lemma writes_WriteVarInt: "writes contents (WriteVarInt wr val) (varint_bytes val)"
proof -
  have "writes contents (seqW (PutUint8 wr b) f) (b # bs)" if "writes contents f bs" for b f bs
    using writes_seqW [OF writes_PutUint8 that] by simp
  then show ?thesis
    by (auto simp: WriteVarInt_def varint_bytes_def unat_ucast_small [symmetric]
        intro!: writes_PutUint8 writes_PutUint16 writes_PutUint32 writes_PutUint64)
qed

lemma writes_WriteVarBytes: "writes contents (WriteVarBytes wr bs) (counted_bytes bs)"
  unfolding WriteVarBytes_def counted_bytes_def
  by (rule writes_seqW [OF writes_WriteVarInt writes_write])

lemma writes_WriteVarString:
  "writes contents (WriteVarString wr str) (counted_bytes (string_bytes str))"
  using writes_seqW [OF writes_WriteVarInt writes_write, of "word_of_nat (length str)" "string_bytes str"]
  by (simp add: WriteVarString_def counted_bytes_def string_bytes_def)

lemmas writes_wire = writes_basic writes_WriteVarInt writes_WriteVarBytes writes_WriteVarString

end

section \<open>Properties\<close>

text \<open>
  C32: A variable-length integer has exactly one encoding.  \<open>ReadVarInt\<close>
  accepts an input if and only if the input starts with the bytes that
  \<open>WriteVarInt\<close> writes for the value returned, and it consumes exactly
  those bytes: every value is read back, and a value padded to a longer form is
  refused.
\<close>

theorem varint_canonical:
  "ReadVarInt b = Inr (val, r) \<longleftrightarrow> b = fst (WriteVarInt Buffer_Write val []) @ r"
  using varint_bytes_inv varint_bytes_ReadVarInt writes_buffer [OF buffer.writes_WriteVarInt]
  by auto

end
