(* ===== verification/BlockHeader.thy ===== *)
theory BlockHeader
  imports Wire
begin

text \<open>
  Block headers, after \<open>src/wire/blockheader.go\<close>: the record, its reader
  and writer, and the block hash.  The hash function \<open>chainhash.HashH\<close>
  (BLAKE-256, from a package outside the sources) is a parameter.  A time is
  its Unix seconds.
\<close>

record BlockHeader =
  bh_Version :: uint32
  bh_PrevBlock :: hash
  bh_MerkleRoot :: hash
  bh_StakeRoot :: hash
  bh_VoteBits :: uint16
  bh_FinalState :: "byte list"
  bh_Voters :: uint16
  bh_FreshStake :: byte
  bh_Revocations :: byte
  bh_PoolSize :: uint32
  bh_Bits :: uint32
  bh_SBits :: uint64
  bh_Height :: uint32
  bh_Size :: uint32
  bh_Timestamp :: int
  bh_Nonce :: uint32
  bh_ExtraData :: "byte list"
  bh_StakeVersion :: uint32
  bh_CodechainHead :: "byte list"

definition MaxBlockHeaderPayload :: nat where
  "MaxBlockHeaderPayload = 84 + (HashSize * 3)"

definition blockHeaderLen :: nat where
  "blockHeaderLen = 180"

definition header_pointers :: "BlockHeader \<Rightarrow> element list" where
  "header_pointers bh =
     [El_int32 (bh_Version bh), El_hash (bh_PrevBlock bh), El_hash (bh_MerkleRoot bh),
      El_hash (bh_StakeRoot bh), El_uint16 (bh_VoteBits bh), El_bytes6 (bh_FinalState bh),
      El_uint16 (bh_Voters bh), El_uint8 (bh_FreshStake bh), El_uint8 (bh_Revocations bh),
      El_uint32 (bh_PoolSize bh), El_uint32 (bh_Bits bh), El_int64 (bh_SBits bh),
      El_uint32 (bh_Height bh), El_uint32 (bh_Size bh), El_uint32Time (bh_Timestamp bh),
      El_uint32 (bh_Nonce bh), El_bytes32 (bh_ExtraData bh), El_uint32 (bh_StakeVersion bh)]"

definition readBlockHeader :: "BlockHeader \<Rightarrow> BlockHeader reader" where
  "readBlockHeader bh =
     bindR (readElements (header_pointers bh))
      (\<lambda>es. returnR (bh
        \<lparr>bh_Version := el_int32 (es ! 0), bh_PrevBlock := el_hash (es ! 1),
         bh_MerkleRoot := el_hash (es ! 2), bh_StakeRoot := el_hash (es ! 3),
         bh_VoteBits := el_uint16 (es ! 4), bh_FinalState := el_bytes6 (es ! 5),
         bh_Voters := el_uint16 (es ! 6), bh_FreshStake := el_uint8 (es ! 7),
         bh_Revocations := el_uint8 (es ! 8), bh_PoolSize := el_uint32 (es ! 9),
         bh_Bits := el_uint32 (es ! 10), bh_SBits := el_int64 (es ! 11),
         bh_Height := el_uint32 (es ! 12), bh_Size := el_uint32 (es ! 13),
         bh_Timestamp := el_uint32Time (es ! 14), bh_Nonce := el_uint32 (es ! 15),
         bh_ExtraData := el_bytes32 (es ! 16), bh_StakeVersion := el_uint32 (es ! 17)\<rparr>))"

definition header_elements :: "BlockHeader \<Rightarrow> element list" where
  "header_elements bh =
     (let sec = word_of_int (bh_Timestamp bh) in
       [El_int32 (bh_Version bh), El_hash (bh_PrevBlock bh), El_hash (bh_MerkleRoot bh),
        El_hash (bh_StakeRoot bh), El_uint16 (bh_VoteBits bh), El_bytes6 (bh_FinalState bh),
        El_uint16 (bh_Voters bh), El_uint8 (bh_FreshStake bh), El_uint8 (bh_Revocations bh),
        El_uint32 (bh_PoolSize bh), El_uint32 (bh_Bits bh), El_int64 (bh_SBits bh),
        El_uint32 (bh_Height bh), El_uint32 (bh_Size bh), El_uint32 sec,
        El_uint32 (bh_Nonce bh), El_bytes32 (bh_ExtraData bh), El_uint32 (bh_StakeVersion bh)])"

definition writeBlockHeader :: "'w writer \<Rightarrow> BlockHeader \<Rightarrow> 'w action" where
  "writeBlockHeader wr bh = writeElements wr (header_elements bh)"

definition BlockHeader_Serialize :: "'w writer \<Rightarrow> BlockHeader \<Rightarrow> 'w action" where
  "BlockHeader_Serialize wr h = writeBlockHeader wr h"

definition BlockHeader_Deserialize :: "BlockHeader \<Rightarrow> BlockHeader reader" where
  "BlockHeader_Deserialize h = readBlockHeader h"

definition BlockHeader_FromBytes :: "BlockHeader \<Rightarrow> byte list \<Rightarrow> io_error + BlockHeader" where
  "BlockHeader_FromBytes h b = bindE (BlockHeader_Deserialize h b) (\<lambda>(h', r). Inr h')"

definition BlockHeader_Bytes :: "BlockHeader \<Rightarrow> io_error + byte list" where
  "BlockHeader_Bytes h =
     (case BlockHeader_Serialize Buffer_Write h [] of
        (buf, None) \<Rightarrow> Inr buf
      | (buf, Some err) \<Rightarrow> Inl err)"

definition BlockHash :: "(byte list \<Rightarrow> hash) \<Rightarrow> BlockHeader \<Rightarrow> hash" where
  "BlockHash HashH h = HashH (fst (writeBlockHeader Buffer_Write h []))"

definition NewBlockHeader ::
  "int \<Rightarrow> uint32 \<Rightarrow> hash \<Rightarrow> hash \<Rightarrow> hash \<Rightarrow> uint16 \<Rightarrow> byte list \<Rightarrow> uint16 \<Rightarrow> byte \<Rightarrow> byte \<Rightarrow>
   uint32 \<Rightarrow> uint32 \<Rightarrow> uint64 \<Rightarrow> uint32 \<Rightarrow> uint32 \<Rightarrow> uint32 \<Rightarrow> byte list \<Rightarrow> uint32 \<Rightarrow> BlockHeader" where
  "NewBlockHeader now version prevHash merkleRootHash stakeRoot voteBits finalState voters
     freshStake revocations poolsize bits sbits height siz nonce extraData stakeVersion =
     \<lparr>bh_Version = version, bh_PrevBlock = prevHash, bh_MerkleRoot = merkleRootHash,
      bh_StakeRoot = stakeRoot, bh_VoteBits = voteBits, bh_FinalState = finalState,
      bh_Voters = voters, bh_FreshStake = freshStake, bh_Revocations = revocations,
      bh_PoolSize = poolsize, bh_Bits = bits, bh_SBits = sbits, bh_Height = height,
      bh_Size = siz, bh_Timestamp = now, bh_Nonce = nonce, bh_ExtraData = extraData,
      bh_StakeVersion = stakeVersion, bh_CodechainHead = replicate 32 0\<rparr>"

text \<open>The bytes of a header, and the headers whose arrays have their size.\<close>

definition header_bytes :: "BlockHeader \<Rightarrow> byte list" where
  "header_bytes h = concat (map element_bytes (header_elements h))"

definition header_typed :: "BlockHeader \<Rightarrow> bool" where
  "header_typed h \<longleftrightarrow>
     is_hash (bh_PrevBlock h) \<and> is_hash (bh_MerkleRoot h) \<and> is_hash (bh_StakeRoot h) \<and>
     length (bh_FinalState h) = 6 \<and> length (bh_ExtraData h) = 32"

lemma writes_header: "writes id (writeBlockHeader Buffer_Write h) (header_bytes h)"
  unfolding writeBlockHeader_def header_bytes_def
  by (rule buffer.writes_writeElements) (simp add: header_elements_def Let_def)

lemma BlockHeader_Bytes_eq: "BlockHeader_Bytes h = Inr (header_bytes h)"
  by (simp add: BlockHeader_Bytes_def BlockHeader_Serialize_def writes_buffer [OF writes_header])

lemma length_header_bytes: "header_typed h \<Longrightarrow> length (header_bytes h) = blockHeaderLen"
  by (simp add: header_bytes_def header_elements_def Let_def header_typed_def is_hash_def
      HashSize_def blockHeaderLen_def)

lemma uint_less32: "uint (w :: uint32) < 0x100000000"
  using uint_lt2p [of w] by simp

lemma unat_time: "unat (word_of_int t :: uint32) = nat (t mod 0x100000000)"
  by (simp add: unat_eq_nat_uint uint_word_of_int)

lemma readBlockHeader_bytes:
  assumes "header_typed h"
  shows "readBlockHeader bh (header_bytes h @ r) =
           Inr (h\<lparr>bh_Timestamp := bh_Timestamp h mod 0x100000000,
                  bh_CodechainHead := bh_CodechainHead bh\<rparr>, r)"
proof -
  define es where
    "es = (header_elements h)[14 := El_uint32Time (bh_Timestamp h mod 0x100000000)]"
  have "header_bytes h = concat (map element_bytes es)"
    by (simp add: es_def header_bytes_def header_elements_def Let_def unat_time)
  moreover have "list_all element_ok es"
    using assms by (simp add: es_def header_elements_def Let_def header_typed_def)
  moreover have "list_all2 same_type (header_pointers bh) es"
    by (simp add: header_pointers_def es_def header_elements_def Let_def same_type_def fun_eq_iff)
  ultimately have "readElements (header_pointers bh) (header_bytes h @ r) = Inr (es, r)"
    by (simp add: readElements_bytes)
  then show ?thesis
    by (simp add: readBlockHeader_def bindR_def es_def header_elements_def Let_def)
qed

lemma readBlockHeader_inv:
  assumes "readBlockHeader bh b = Inr (h, r)"
  shows "header_typed h \<and> 0 \<le> bh_Timestamp h \<and> bh_Timestamp h < 0x100000000 \<and>
         bh_CodechainHead h = bh_CodechainHead bh \<and> b = header_bytes h @ r"
  using assms unfolding readBlockHeader_def header_pointers_def
  by (clarsimp simp: result_simps header_typed_def header_bytes_def header_elements_def
      Let_def is_hash_def uint_less32)

text \<open>The headers that the reader can produce into a given variable.\<close>

definition header_ok :: "BlockHeader \<Rightarrow> BlockHeader \<Rightarrow> bool" where
  "header_ok bh h \<longleftrightarrow>
     header_typed h \<and> 0 \<le> bh_Timestamp h \<and> bh_Timestamp h < 0x100000000 \<and>
     bh_CodechainHead h = bh_CodechainHead bh"

interpretation header: canonical_codec header_bytes "readBlockHeader bh" "header_ok bh" for bh
  by unfold_locales (simp_all add: header_ok_def readBlockHeader_bytes readBlockHeader_inv)

section \<open>Properties\<close>

text \<open>
  C31: A block header whose arrays have their declared sizes and whose time fits
  in 32 bits is written as 180 bytes, and reading them back gives the header,
  except for the field \<open>CodechainHead\<close>, which is neither written nor
  read: the variable that is read into keeps the value it had.
\<close>

theorem header_roundtrip:
  assumes "header_typed h" and "0 \<le> bh_Timestamp h" and "bh_Timestamp h < 0x100000000"
  shows "\<exists>bs. BlockHeader_Bytes h = Inr bs \<and> length bs = blockHeaderLen \<and>
           BlockHeader_FromBytes h0 bs = Inr (h\<lparr>bh_CodechainHead := bh_CodechainHead h0\<rparr>)"
  using assms readBlockHeader_bytes [of h h0 "[]"]
  by (simp add: BlockHeader_Bytes_eq length_header_bytes BlockHeader_FromBytes_def
      BlockHeader_Deserialize_def)

definition ex_header :: BlockHeader where
  "ex_header = NewBlockHeader 1500000000 6 (replicate 32 1) (replicate 32 2) (replicate 32 3) 1
     (replicate 6 4) 5 20 0 41000 0x1b01ffff 9000000000 200000 4000 77 (replicate 32 0) 5"

theorem header_roundtrip_witness:
  "\<exists>bs. BlockHeader_Bytes (ex_header\<lparr>bh_CodechainHead := replicate 32 9\<rparr>) = Inr bs \<and>
     length bs = blockHeaderLen \<and> BlockHeader_FromBytes ex_header bs = Inr ex_header"
  using header_roundtrip [of "ex_header\<lparr>bh_CodechainHead := replicate 32 9\<rparr>" ex_header]
  by (simp add: ex_header_def NewBlockHeader_def header_typed_def is_hash_def HashSize_def)

end
