(* ===== verification/MsgTx.thy ===== *)
theory MsgTx
  imports Wire
begin

text \<open>
  Transactions, after \<open>src/wire/msgtx.go\<close>: inputs, outputs, the three
  serialization types, the encoder and the decoder with the contiguous script
  buffer, the serialized sizes, the offsets of the public key scripts and the
  transaction hashes.  \<open>chainhash.HashH\<close> is a parameter.  The pools of
  borrowed buffers are not modelled: a borrowed buffer is a fresh one.
\<close>

unbundle bit_operations_syntax

section \<open>Data\<close>

definition MaxTxInSequenceNum :: uint32 where
  "MaxTxInSequenceNum = 0xffffffff"

definition NullBlockHeight :: uint32 where
  "NullBlockHeight = 0x00000000"

definition NullBlockIndex :: uint32 where
  "NullBlockIndex = 0xffffffff"

definition DefaultPkScriptVersion :: uint16 where
  "DefaultPkScriptVersion = 0x0000"

definition TxVersion :: uint16 where
  "TxVersion = 1"

definition minTxInPayload :: nat where
  "minTxInPayload = 11 + HashSize"

definition maxTxInPerMessage :: nat where
  "maxTxInPerMessage = unat MaxMessagePayload div minTxInPayload + 1"

definition minTxOutPayload :: nat where
  "minTxOutPayload = 9"

definition maxTxOutPerMessage :: nat where
  "maxTxOutPerMessage = unat MaxMessagePayload div minTxOutPayload + 1"

definition minTxPayload :: nat where
  "minTxPayload = 4 + 1 + 1 + 1 + 4 + 4"

text \<open>The serialization type is a \<open>uint16\<close> of which three values are used.\<close>

definition TxSerializeFull :: uint16 where
  "TxSerializeFull = 0"

definition TxSerializeNoWitness :: uint16 where
  "TxSerializeNoWitness = 1"

definition TxSerializeOnlyWitness :: uint16 where
  "TxSerializeOnlyWitness = 2"

lemmas ser_type_defs = TxSerializeFull_def TxSerializeNoWitness_def TxSerializeOnlyWitness_def

record OutPoint =
  op_Hash :: hash
  op_Index :: uint32
  op_Tree :: byte

record TxIn =
  PreviousOutPoint :: OutPoint
  Sequence :: uint32
  ValueIn :: uint64
  BlockHeight :: uint32
  BlockIndex :: uint32
  SignatureScript :: "byte list"

record TxOut =
  out_Value :: uint64
  out_Version :: uint16
  PkScript :: "byte list"

record MsgTx =
  CachedHash :: "hash option"
  SerType :: uint16
  tx_Version :: uint16
  tx_TxIn :: "TxIn list"
  tx_TxOut :: "TxOut list"
  LockTime :: uint32
  Expiry :: uint32

text \<open>The zero values of Go.\<close>

definition zero_OutPoint :: OutPoint where
  "zero_OutPoint = \<lparr>op_Hash = replicate HashSize 0, op_Index = 0, op_Tree = 0\<rparr>"

definition zero_TxIn :: TxIn where
  "zero_TxIn = \<lparr>PreviousOutPoint = zero_OutPoint, Sequence = 0, ValueIn = 0, BlockHeight = 0,
     BlockIndex = 0, SignatureScript = []\<rparr>"

definition zero_TxOut :: TxOut where
  "zero_TxOut = \<lparr>out_Value = 0, out_Version = 0, PkScript = []\<rparr>"

definition zero_MsgTx :: MsgTx where
  "zero_MsgTx = \<lparr>CachedHash = None, SerType = 0, tx_Version = 0, tx_TxIn = [], tx_TxOut = [],
     LockTime = 0, Expiry = 0\<rparr>"

definition NewOutPoint :: "hash \<Rightarrow> uint32 \<Rightarrow> byte \<Rightarrow> OutPoint" where
  "NewOutPoint h index tree = \<lparr>op_Hash = h, op_Index = index, op_Tree = tree\<rparr>"

definition NewTxIn :: "OutPoint \<Rightarrow> uint64 \<Rightarrow> byte list \<Rightarrow> TxIn" where
  "NewTxIn prevOut valueIn signatureScript =
     \<lparr>PreviousOutPoint = prevOut, Sequence = MaxTxInSequenceNum, ValueIn = valueIn,
      BlockHeight = NullBlockHeight, BlockIndex = NullBlockIndex,
      SignatureScript = signatureScript\<rparr>"

definition NewTxOut :: "uint64 \<Rightarrow> byte list \<Rightarrow> TxOut" where
  "NewTxOut v pkScript =
     \<lparr>out_Value = v, out_Version = DefaultPkScriptVersion, PkScript = pkScript\<rparr>"

definition NewMsgTx :: MsgTx where
  "NewMsgTx = zero_MsgTx\<lparr>SerType := TxSerializeFull, tx_Version := TxVersion\<rparr>"

definition AddTxIn :: "MsgTx \<Rightarrow> TxIn \<Rightarrow> MsgTx" where
  "AddTxIn msg ti = msg\<lparr>tx_TxIn := tx_TxIn msg @ [ti]\<rparr>"

definition AddTxOut :: "MsgTx \<Rightarrow> TxOut \<Rightarrow> MsgTx" where
  "AddTxOut msg to = msg\<lparr>tx_TxOut := tx_TxOut msg @ [to]\<rparr>"

section \<open>Sizes\<close>

definition TxIn_SerializeSizePrefix :: "TxIn \<Rightarrow> nat" where
  "TxIn_SerializeSizePrefix t = 41"

definition TxIn_SerializeSizeWitness :: "TxIn \<Rightarrow> nat" where
  "TxIn_SerializeSizeWitness t =
     8 + 4 + 4 + VarIntSerializeSize (word_of_nat (length (SignatureScript t))) +
     length (SignatureScript t)"

definition TxOut_SerializeSize :: "TxOut \<Rightarrow> nat" where
  "TxOut_SerializeSize t =
     8 + 2 + VarIntSerializeSize (word_of_nat (length (PkScript t))) + length (PkScript t)"

definition MsgTx_SerializeSize :: "MsgTx \<Rightarrow> nat" where
  "MsgTx_SerializeSize msg =
     (let ins = VarIntSerializeSize (word_of_nat (length (tx_TxIn msg)));
          outs = VarIntSerializeSize (word_of_nat (length (tx_TxOut msg)))
      in
      if SerType msg = TxSerializeNoWitness then
        12 + ins + outs + sum_list (map TxIn_SerializeSizePrefix (tx_TxIn msg)) +
        sum_list (map TxOut_SerializeSize (tx_TxOut msg))
      else if SerType msg = TxSerializeOnlyWitness then
        4 + ins + sum_list (map TxIn_SerializeSizeWitness (tx_TxIn msg))
      else if SerType msg = TxSerializeFull then
        12 + ins + ins + outs + sum_list (map TxIn_SerializeSizePrefix (tx_TxIn msg)) +
        sum_list (map TxIn_SerializeSizeWitness (tx_TxIn msg)) +
        sum_list (map TxOut_SerializeSize (tx_TxOut msg))
      else 0)"

fun script_locs :: "nat \<Rightarrow> TxOut list \<Rightarrow> nat list" where
  "script_locs n [] = []"
| "script_locs n (txOut # rest) =
     (let loc = n + (8 + 2 + VarIntSerializeSize (word_of_nat (length (PkScript txOut)))) in
      loc # script_locs (loc + length (PkScript txOut)) rest)"

definition PkScriptLocs :: "MsgTx \<Rightarrow> nat list" where
  "PkScriptLocs msg =
     (let numTxOut = length (tx_TxOut msg) in
      if numTxOut = 0 then []
      else script_locs
        (4 + VarIntSerializeSize (word_of_nat (length (tx_TxIn msg))) +
         VarIntSerializeSize (word_of_nat numTxOut) +
         sum_list (map TxIn_SerializeSizePrefix (tx_TxIn msg)))
        (tx_TxOut msg))"

section \<open>Encoding\<close>

definition WriteOutPoint :: "'w writer \<Rightarrow> OutPoint \<Rightarrow> 'w action" where
  "WriteOutPoint wr op =
     seqW (\<lambda>w. wr w (op_Hash op))
      (seqW (PutUint32 wr le_bytes (op_Index op))
        (PutUint8 wr (op_Tree op)))"

definition writeTxInPrefix :: "'w writer \<Rightarrow> TxIn \<Rightarrow> 'w action" where
  "writeTxInPrefix wr ti =
     seqW (WriteOutPoint wr (PreviousOutPoint ti)) (PutUint32 wr le_bytes (Sequence ti))"

text \<open>The error of the third write is not assigned, and so not looked at.\<close>

definition writeTxInWitness :: "'w writer \<Rightarrow> TxIn \<Rightarrow> 'w action" where
  "writeTxInWitness wr ti =
     seqW (PutUint64 wr le_bytes (ValueIn ti))
      (seqW (PutUint32 wr le_bytes (BlockHeight ti))
        (seqW (ignoreW (PutUint32 wr le_bytes (BlockIndex ti)))
          (WriteVarBytes wr (SignatureScript ti))))"

definition writeTxOut :: "'w writer \<Rightarrow> TxOut \<Rightarrow> 'w action" where
  "writeTxOut wr to =
     seqW (PutUint64 wr le_bytes (out_Value to))
      (seqW (PutUint16 wr le_bytes (out_Version to))
        (WriteVarBytes wr (PkScript to)))"

definition encodePrefix :: "'w writer \<Rightarrow> MsgTx \<Rightarrow> 'w action" where
  "encodePrefix wr msg =
     seqW (WriteVarInt wr (word_of_nat (length (tx_TxIn msg))))
      (seqW (forW (writeTxInPrefix wr) (tx_TxIn msg))
        (seqW (WriteVarInt wr (word_of_nat (length (tx_TxOut msg))))
          (seqW (forW (writeTxOut wr) (tx_TxOut msg))
            (seqW (PutUint32 wr le_bytes (LockTime msg))
              (PutUint32 wr le_bytes (Expiry msg))))))"

definition encodeWitness :: "'w writer \<Rightarrow> MsgTx \<Rightarrow> 'w action" where
  "encodeWitness wr msg =
     seqW (WriteVarInt wr (word_of_nat (length (tx_TxIn msg))))
      (forW (writeTxInWitness wr) (tx_TxIn msg))"

definition serializedVersion :: "MsgTx \<Rightarrow> uint32" where
  "serializedVersion msg = ucast (tx_Version msg) OR push_bit 16 (ucast (SerType msg))"

definition MsgTx_BtcEncode :: "'w writer \<Rightarrow> MsgTx \<Rightarrow> 'w action" where
  "MsgTx_BtcEncode wr msg =
     seqW (PutUint32 wr le_bytes (serializedVersion msg))
      (if SerType msg = TxSerializeNoWitness then encodePrefix wr msg
       else if SerType msg = TxSerializeOnlyWitness then encodeWitness wr msg
       else if SerType msg = TxSerializeFull then
         seqW (encodePrefix wr msg) (encodeWitness wr msg)
       else failW (MessageError ''MsgTx.BtcEncode'' ''unsupported transaction type''))"

definition MsgTx_Serialize :: "'w writer \<Rightarrow> MsgTx \<Rightarrow> 'w action" where
  "MsgTx_Serialize wr msg = MsgTx_BtcEncode wr msg"

definition MsgTx_Bytes :: "MsgTx \<Rightarrow> io_error + byte list" where
  "MsgTx_Bytes msg =
     (case MsgTx_Serialize Buffer_Write msg [] of
        (buf, None) \<Rightarrow> Inr buf
      | (buf, Some err) \<Rightarrow> Inl err)"

definition tx_serialize :: "MsgTx \<Rightarrow> uint16 \<Rightarrow> io_error + byte list" where
  "tx_serialize msg serType =
     (case MsgTx_Serialize Buffer_Write (msg\<lparr>SerType := serType\<rparr>) [] of
        (buf, None) \<Rightarrow> Inr buf
      | (buf, Some err) \<Rightarrow> Inl err)"

definition BytesPrefix :: "MsgTx \<Rightarrow> io_error + byte list" where
  "BytesPrefix msg = tx_serialize msg TxSerializeNoWitness"

definition BytesWitness :: "MsgTx \<Rightarrow> io_error + byte list" where
  "BytesWitness msg = tx_serialize msg TxSerializeOnlyWitness"

text \<open>\<open>mustSerialize\<close> panics on an error, which is the value \<open>Inl\<close>.\<close>

definition mustSerialize :: "MsgTx \<Rightarrow> uint16 \<Rightarrow> io_error + byte list" where
  "mustSerialize msg serType = tx_serialize msg serType"

definition TxHash :: "(byte list \<Rightarrow> hash) \<Rightarrow> MsgTx \<Rightarrow> io_error + hash" where
  "TxHash HashH msg = bindE (mustSerialize msg TxSerializeNoWitness) (\<lambda>b. Inr (HashH b))"

definition TxHashWitness :: "(byte list \<Rightarrow> hash) \<Rightarrow> MsgTx \<Rightarrow> io_error + hash" where
  "TxHashWitness HashH msg = bindE (mustSerialize msg TxSerializeOnlyWitness) (\<lambda>b. Inr (HashH b))"

definition TxHashFull :: "(byte list \<Rightarrow> hash) \<Rightarrow> MsgTx \<Rightarrow> io_error + hash" where
  "TxHashFull HashH msg =
     bindE (TxHash HashH msg) (\<lambda>prefixHash.
       bindE (TxHashWitness HashH msg) (\<lambda>witnessHash.
         Inr (HashH (prefixHash @ witnessHash))))"

definition CachedTxHash :: "(byte list \<Rightarrow> hash) \<Rightarrow> MsgTx \<Rightarrow> io_error + hash \<times> MsgTx" where
  "CachedTxHash HashH msg =
     (case CachedHash msg of
        None \<Rightarrow> bindE (TxHash HashH msg) (\<lambda>h. Inr (h, msg\<lparr>CachedHash := Some h\<rparr>))
      | Some h \<Rightarrow> Inr (h, msg))"

definition RecacheTxHash :: "(byte list \<Rightarrow> hash) \<Rightarrow> MsgTx \<Rightarrow> io_error + hash \<times> MsgTx" where
  "RecacheTxHash HashH msg =
     bindE (TxHash HashH msg) (\<lambda>h. Inr (h, msg\<lparr>CachedHash := Some h\<rparr>))"

text \<open>
  \<open>Copy\<close> makes new inputs and outputs field by field.  The cached hash is
  not copied.
\<close>

definition MsgTx_Copy :: "MsgTx \<Rightarrow> MsgTx" where
  "MsgTx_Copy msg =
     \<lparr>CachedHash = None, SerType = SerType msg, tx_Version = tx_Version msg,
      tx_TxIn = map (\<lambda>oldTxIn. \<lparr>PreviousOutPoint =
          \<lparr>op_Hash = op_Hash (PreviousOutPoint oldTxIn),
           op_Index = op_Index (PreviousOutPoint oldTxIn),
           op_Tree = op_Tree (PreviousOutPoint oldTxIn)\<rparr>,
          Sequence = Sequence oldTxIn, ValueIn = ValueIn oldTxIn,
          BlockHeight = BlockHeight oldTxIn, BlockIndex = BlockIndex oldTxIn,
          SignatureScript = (if length (SignatureScript oldTxIn) > 0
            then SignatureScript oldTxIn else [])\<rparr>) (tx_TxIn msg),
      tx_TxOut = map (\<lambda>oldTxOut. \<lparr>out_Value = out_Value oldTxOut,
          out_Version = out_Version oldTxOut,
          PkScript = (if length (PkScript oldTxOut) > 0
            then PkScript oldTxOut else [])\<rparr>) (tx_TxOut msg),
      LockTime = LockTime msg, Expiry = Expiry msg\<rparr>"

section \<open>Decoding\<close>

definition readScript :: "uint32 \<Rightarrow> string \<Rightarrow> byte list reader" where
  "readScript maxAllowed fieldName =
     bindR ReadVarInt (\<lambda>count.
       if count > ucast maxAllowed
       then failR (MessageError ''readScript'' (fieldName @ '' is larger than the max allowed size''))
       else ReadFull (unat count))"

definition ReadOutPoint :: "OutPoint \<Rightarrow> OutPoint reader" where
  "ReadOutPoint op =
     bindR (ReadFull HashSize) (\<lambda>h.
       bindR (Uint32 of_le_bytes) (\<lambda>index.
         bindR Uint8 (\<lambda>tree.
           returnR (op\<lparr>op_Hash := h, op_Index := index, op_Tree := tree\<rparr>))))"

definition readTxInPrefix :: "uint16 \<Rightarrow> TxIn \<Rightarrow> TxIn reader" where
  "readTxInPrefix serType ti =
     (if serType = TxSerializeOnlyWitness
      then failR (MessageError ''readTxInPrefix'' ''tried to read a prefix input for a witness only tx'')
      else bindR (ReadOutPoint (PreviousOutPoint ti)) (\<lambda>op.
        bindR (Uint32 of_le_bytes) (\<lambda>sequence.
          returnR (ti\<lparr>PreviousOutPoint := op, Sequence := sequence\<rparr>))))"

definition readTxInWitness :: "TxIn \<Rightarrow> TxIn reader" where
  "readTxInWitness ti =
     bindR (Uint64 of_le_bytes) (\<lambda>valueIn.
       bindR (Uint32 of_le_bytes) (\<lambda>blockHeight.
         bindR (Uint32 of_le_bytes) (\<lambda>blockIndex.
           bindR (readScript MaxMessagePayload ''transaction input signature script'') (\<lambda>script.
             returnR (ti\<lparr>ValueIn := valueIn, BlockHeight := blockHeight,
               BlockIndex := blockIndex, SignatureScript := script\<rparr>)))))"

definition readTxOut :: "TxOut \<Rightarrow> TxOut reader" where
  "readTxOut to =
     bindR (Uint64 of_le_bytes) (\<lambda>v.
       bindR (Uint16 of_le_bytes) (\<lambda>version.
         bindR (readScript MaxMessagePayload ''transaction output public key script'') (\<lambda>script.
           returnR (to\<lparr>out_Value := v, out_Version := version, PkScript := script\<rparr>))))"

definition total_size :: "byte list list \<Rightarrow> uint64" where
  "total_size scripts = sum_list (map (\<lambda>s. word_of_nat (length s)) scripts)"

definition decodePrefix :: "MsgTx \<Rightarrow> (uint64 \<times> MsgTx) reader" where
  "decodePrefix msg =
     bindR ReadVarInt (\<lambda>count.
       if unat count > maxTxInPerMessage
       then failR (MessageError ''MsgTx.decodePrefix'' ''too many input transactions'')
       else bindR (repeatR (unat count) (readTxInPrefix (SerType msg) zero_TxIn)) (\<lambda>txIns.
         bindR ReadVarInt (\<lambda>count.
           if unat count > maxTxOutPerMessage
           then failR (MessageError ''MsgTx.decodePrefix'' ''too many output transactions'')
           else bindR (repeatR (unat count) (readTxOut zero_TxOut)) (\<lambda>txOuts.
             bindR (Uint32 of_le_bytes) (\<lambda>lockTime.
               bindR (Uint32 of_le_bytes) (\<lambda>expiry.
                 returnR (total_size (map PkScript txOuts),
                   msg\<lparr>tx_TxIn := txIns, tx_TxOut := txOuts, LockTime := lockTime,
                     Expiry := expiry\<rparr>)))))))"

text \<open>The witness fields of \<open>ti\<close> are copied into an input decoded before.\<close>

definition set_witness :: "TxIn \<Rightarrow> TxIn \<Rightarrow> TxIn" where
  "set_witness old ti = old\<lparr>ValueIn := ValueIn ti, BlockHeight := BlockHeight ti,
     BlockIndex := BlockIndex ti, SignatureScript := SignatureScript ti\<rparr>"

definition decodeWitness :: "MsgTx \<Rightarrow> bool \<Rightarrow> (uint64 \<times> MsgTx) reader" where
  "decodeWitness msg isFull =
     (if \<not> isFull then
        bindR ReadVarInt (\<lambda>count.
          if unat count > maxTxInPerMessage
          then failR (MessageError ''MsgTx.decodeWitness'' ''too many input transactions'')
          else bindR (repeatR (unat count) (readTxInWitness zero_TxIn)) (\<lambda>txIns.
            returnR (total_size (map SignatureScript txIns),
              msg\<lparr>tx_TxIn := txIns, tx_TxOut := []\<rparr>)))
      else
        bindR ReadVarInt (\<lambda>count.
          if sint count \<noteq> int (length (tx_TxIn msg))
          then failR (MessageError ''MsgTx.decodeWitness'' ''non equal witness and prefix txin quantities'')
          else if unat count > maxTxInPerMessage
          then failR (MessageError ''MsgTx.decodeWitness'' ''too many input transactions'')
          else bindR (repeatR (unat count) (readTxInWitness zero_TxIn)) (\<lambda>txIns.
            returnR (total_size (map SignatureScript txIns),
              msg\<lparr>tx_TxIn := map2 set_witness (tx_TxIn msg) txIns\<rparr>))))"

text \<open>
  \<open>writeTxScriptsToMsgTx\<close> copies the scripts one after the other into one
  buffer and lets each field be a slice of it.  \<open>place_scripts\<close> returns
  the buffer, the next offset and the slices; \<open>None\<close> stands for the panic
  of a slice expression out of range.  The slices are read from the final
  buffer, since all of them share it.
\<close>

fun place_scripts ::
  "byte list list \<Rightarrow> byte list \<Rightarrow> nat \<Rightarrow> (byte list \<times> nat \<times> (nat \<times> nat) list) option" where
  "place_scripts [] scripts offset = Some (scripts, offset, [])"
| "place_scripts (script # rest) scripts offset =
     (if offset > length scripts then None
      else
        let n = min (length scripts - offset) (length script);
            scripts' = take offset scripts @ take n script @ drop (offset + n) scripts;
            last = offset + length script
        in
        if last > length scripts then None
        else (case place_scripts rest scripts' last of
                None \<Rightarrow> None
              | Some (buf, off, slices) \<Rightarrow> Some (buf, off, (offset, last) # slices)))"

definition slice :: "byte list \<Rightarrow> nat \<times> nat \<Rightarrow> byte list" where
  "slice buf s = take (snd s - fst s) (drop (fst s) buf)"

definition set_sig_scripts :: "byte list list \<Rightarrow> TxIn list \<Rightarrow> TxIn list" where
  "set_sig_scripts scripts ins = map2 (\<lambda>s ti. ti\<lparr>SignatureScript := s\<rparr>) scripts ins"

definition set_pk_scripts :: "byte list list \<Rightarrow> TxOut list \<Rightarrow> TxOut list" where
  "set_pk_scripts scripts outs = map2 (\<lambda>s to. to\<lparr>PkScript := s\<rparr>) scripts outs"

definition writeTxScriptsToMsgTx :: "MsgTx \<Rightarrow> uint64 \<Rightarrow> uint16 \<Rightarrow> MsgTx option" where
  "writeTxScriptsToMsgTx msg totalScriptSize serType =
     (let scripts = replicate (unat totalScriptSize) 0 in
      if serType = TxSerializeNoWitness then
        (case place_scripts (map PkScript (tx_TxOut msg)) scripts 0 of
           None \<Rightarrow> None
         | Some (buf, off, outs) \<Rightarrow>
             Some (msg\<lparr>tx_TxOut := set_pk_scripts (map (slice buf) outs) (tx_TxOut msg)\<rparr>))
      else if serType = TxSerializeOnlyWitness \<or> serType = TxSerializeFull then
        (case place_scripts (map SignatureScript (tx_TxIn msg)) scripts 0 of
           None \<Rightarrow> None
         | Some (buf, off, ins) \<Rightarrow>
             (case place_scripts (map PkScript (tx_TxOut msg)) buf off of
                None \<Rightarrow> None
              | Some (buf', off', outs) \<Rightarrow>
                  Some (msg\<lparr>tx_TxIn := set_sig_scripts (map (slice buf') ins) (tx_TxIn msg),
                    tx_TxOut := set_pk_scripts (map (slice buf') outs) (tx_TxOut msg)\<rparr>)))
      else Some msg)"

definition written :: "MsgTx option \<Rightarrow> MsgTx reader" where
  "written m = (case m of None \<Rightarrow> failR SlicePanic | Some msg \<Rightarrow> returnR msg)"

definition decode_body :: "MsgTx \<Rightarrow> MsgTx reader" where
  "decode_body msg =
     (if SerType msg = TxSerializeNoWitness then
        bindR (decodePrefix msg) (\<lambda>(totalScriptSize, msg).
          written (writeTxScriptsToMsgTx msg totalScriptSize (SerType msg)))
      else if SerType msg = TxSerializeOnlyWitness then
        bindR (decodeWitness msg False) (\<lambda>(totalScriptSize, msg).
          written (writeTxScriptsToMsgTx msg totalScriptSize (SerType msg)))
      else if SerType msg = TxSerializeFull then
        bindR (decodePrefix msg) (\<lambda>(totalScriptSizeIns, msg).
          bindR (decodeWitness msg True) (\<lambda>(totalScriptSizeOuts, msg).
            written (writeTxScriptsToMsgTx msg (totalScriptSizeIns + totalScriptSizeOuts)
              (SerType msg))))
      else failR (MessageError ''MsgTx.BtcDecode'' ''unsupported transaction type''))"

definition MsgTx_BtcDecode :: "MsgTx \<Rightarrow> MsgTx reader" where
  "MsgTx_BtcDecode msg =
     bindR (Uint32 of_le_bytes) (\<lambda>version.
       decode_body (msg\<lparr>tx_Version := ucast (version AND 0xffff),
         SerType := ucast (drop_bit 16 version)\<rparr>))"

definition MsgTx_Deserialize :: "MsgTx \<Rightarrow> MsgTx reader" where
  "MsgTx_Deserialize msg = MsgTx_BtcDecode msg"

definition MsgTx_FromBytes :: "MsgTx \<Rightarrow> byte list \<Rightarrow> io_error + MsgTx" where
  "MsgTx_FromBytes msg b = bindE (MsgTx_Deserialize msg b) (\<lambda>(msg', r). Inr msg')"

section \<open>The encodings of the parts\<close>

definition outpoint_bytes :: "OutPoint \<Rightarrow> byte list" where
  "outpoint_bytes op = op_Hash op @ le_bytes 4 (unat (op_Index op)) @ [op_Tree op]"

definition prefix_in_bytes :: "TxIn \<Rightarrow> byte list" where
  "prefix_in_bytes ti = outpoint_bytes (PreviousOutPoint ti) @ le_bytes 4 (unat (Sequence ti))"

definition witness_in_bytes :: "TxIn \<Rightarrow> byte list" where
  "witness_in_bytes ti = le_bytes 8 (unat (ValueIn ti)) @ le_bytes 4 (unat (BlockHeight ti)) @
     le_bytes 4 (unat (BlockIndex ti)) @ counted_bytes (SignatureScript ti)"

definition out_bytes :: "TxOut \<Rightarrow> byte list" where
  "out_bytes to = le_bytes 8 (unat (out_Value to)) @ le_bytes 2 (unat (out_Version to)) @
     counted_bytes (PkScript to)"

text \<open>An input without its witness, and the witness of an input alone.\<close>

definition only_prefix :: "TxIn \<Rightarrow> TxIn" where
  "only_prefix ti = set_witness ti zero_TxIn"

definition only_witness :: "TxIn \<Rightarrow> TxIn" where
  "only_witness ti = set_witness zero_TxIn ti"

definition script_ok :: "byte list \<Rightarrow> bool" where
  "script_ok s \<longleftrightarrow> length s \<le> unat MaxMessagePayload"

lemma readScript_eq_Inr: "readScript m f b = Inr z \<longleftrightarrow> ReadVarBytes m b = Inr z"
  by (auto simp: readScript_def ReadVarBytes_def bindR_eq_Inr_iff split: if_splits)

interpretation script: canonical_codec counted_bytes "readScript MaxMessagePayload f" script_ok for f
  by unfold_locales (simp_all add: readScript_eq_Inr script_ok_def ReadVarBytes_counted ReadVarBytes_inv)

interpretation outpoint: canonical_codec outpoint_bytes "ReadOutPoint op" "\<lambda>op. is_hash (op_Hash op)"
  for op
proof
  fix x :: OutPoint and r
  assume "is_hash (op_Hash x)"
  then show "ReadOutPoint op (outpoint_bytes x @ r) = Inr (x, r)"
    by (simp add: ReadOutPoint_def outpoint_bytes_def bindR_def is_hash_def)
next
  fix b r and x :: OutPoint
  assume "ReadOutPoint op b = Inr (x, r)"
  then show "is_hash (op_Hash x) \<and> b = outpoint_bytes x @ r"
    by (clarsimp simp: ReadOutPoint_def outpoint_bytes_def is_hash_def result_simps)
qed

interpretation prefix_in: canonical_codec prefix_in_bytes "readTxInPrefix TxSerializeFull zero_TxIn"
  "\<lambda>ti. is_hash (op_Hash (PreviousOutPoint ti)) \<and> only_prefix ti = ti"
proof
  fix x r
  assume "is_hash (op_Hash (PreviousOutPoint x)) \<and> only_prefix x = x"
  then have h: "is_hash (op_Hash (PreviousOutPoint x))" and
    x: "zero_TxIn\<lparr>PreviousOutPoint := PreviousOutPoint x, Sequence := Sequence x\<rparr> = x"
    by (cases x; simp add: only_prefix_def set_witness_def zero_TxIn_def)+
  show "readTxInPrefix TxSerializeFull zero_TxIn (prefix_in_bytes x @ r) = Inr (x, r)"
    by (simp add: readTxInPrefix_def prefix_in_bytes_def ser_type_defs bindR_def
        outpoint.dec_enc [OF h] x)
next
  fix b x r
  assume "readTxInPrefix TxSerializeFull zero_TxIn b = Inr (x, r)"
  then show "(is_hash (op_Hash (PreviousOutPoint x)) \<and> only_prefix x = x) \<and> b = prefix_in_bytes x @ r"
    by (clarsimp simp: readTxInPrefix_def prefix_in_bytes_def ser_type_defs result_simps
        only_prefix_def set_witness_def zero_TxIn_def dest!: outpoint.dec_inv)
qed

interpretation witness_in: canonical_codec witness_in_bytes "readTxInWitness zero_TxIn"
  "\<lambda>ti. script_ok (SignatureScript ti) \<and> only_witness ti = ti"
proof
  fix x r
  assume "script_ok (SignatureScript x) \<and> only_witness x = x"
  then have s: "script_ok (SignatureScript x)" and x: "set_witness zero_TxIn x = x"
    by (simp_all add: only_witness_def)
  show "readTxInWitness zero_TxIn (witness_in_bytes x @ r) = Inr (x, r)"
    using x by (simp add: readTxInWitness_def witness_in_bytes_def bindR_def
        script.dec_enc [OF s] set_witness_def)
next
  fix b x r
  assume "readTxInWitness zero_TxIn b = Inr (x, r)"
  then show "(script_ok (SignatureScript x) \<and> only_witness x = x) \<and> b = witness_in_bytes x @ r"
    by (clarsimp simp: readTxInWitness_def witness_in_bytes_def result_simps
        only_witness_def set_witness_def dest!: script.dec_inv)
qed

interpretation out: canonical_codec out_bytes "readTxOut zero_TxOut" "\<lambda>to. script_ok (PkScript to)"
proof
  fix x :: TxOut and r
  assume s: "script_ok (PkScript x)"
  show "readTxOut zero_TxOut (out_bytes x @ r) = Inr (x, r)"
    by (simp add: readTxOut_def out_bytes_def bindR_def script.dec_enc [OF s])
next
  fix b r and x :: TxOut
  assume "readTxOut zero_TxOut b = Inr (x, r)"
  then show "script_ok (PkScript x) \<and> b = out_bytes x @ r"
    by (clarsimp simp: readTxOut_def out_bytes_def result_simps dest!: script.dec_inv)
qed

section \<open>The contiguous script buffer\<close>

lemma slice_append: "slice (pre @ s @ post) (length pre, length pre + length s) = s"
  by (simp add: slice_def)

text \<open>
  Scripts placed behind \<open>pre\<close> follow each other there, and their slices
  are the scripts whatever is written behind them later.
\<close>

lemma place_scripts_fit:
  assumes "length (concat ss) \<le> length rest"
  shows "\<exists>slices. place_scripts ss (pre @ rest) (length pre) =
           Some (pre @ concat ss @ drop (length (concat ss)) rest,
             length pre + length (concat ss), slices) \<and>
           (\<forall>post. map (slice (pre @ concat ss @ post)) slices = ss)"
  using assms
proof (induction ss arbitrary: pre rest)
  case (Cons s ss)
  have "length (concat ss) \<le> length (drop (length s) rest)" using Cons.prems by simp
  from Cons.IH [OF this, of "pre @ s"] obtain slices where
    sl: "place_scripts ss ((pre @ s) @ drop (length s) rest) (length (pre @ s)) =
      Some ((pre @ s) @ concat ss @ drop (length (concat ss)) (drop (length s) rest),
        length (pre @ s) + length (concat ss), slices)"
    "\<forall>post. map (slice ((pre @ s) @ concat ss @ post)) slices = ss"
    by blast
  have "min (length rest) (length s) = length s" using Cons.prems by simp
  then have "place_scripts (s # ss) (pre @ rest) (length pre) =
      Some (pre @ concat (s # ss) @ drop (length (concat (s # ss))) rest,
        length pre + length (concat (s # ss)), (length pre, length pre + length s) # slices)"
    using sl(1) Cons.prems by (simp add: Let_def add.commute add.left_commute)
  moreover have "map (slice (pre @ concat (s # ss) @ post))
      ((length pre, length pre + length s) # slices) = s # ss" for post
    using sl(2) slice_append [of pre s "concat ss @ post"] by simp
  ultimately show ?case by blast
qed simp

lemma set_sig_scripts_same [simp]: "set_sig_scripts (map SignatureScript ins) ins = ins"
  by (induction ins) (simp_all add: set_sig_scripts_def)

lemma set_pk_scripts_same [simp]: "set_pk_scripts (map PkScript outs) outs = outs"
  by (induction outs) (simp_all add: set_pk_scripts_def)

definition sig_size :: "MsgTx \<Rightarrow> nat" where
  "sig_size msg = length (concat (map SignatureScript (tx_TxIn msg)))"

definition pk_size :: "MsgTx \<Rightarrow> nat" where
  "pk_size msg = length (concat (map PkScript (tx_TxOut msg)))"

text \<open>Moving the scripts into the buffer does not change the transaction.\<close>

lemma writeTxScripts_outs:
  assumes "pk_size msg \<le> unat n"
  shows "writeTxScriptsToMsgTx msg n TxSerializeNoWitness = Some msg"
proof -
  define rest :: "byte list" where "rest = replicate (unat n) 0"
  have "length (concat (map PkScript (tx_TxOut msg))) \<le> length rest"
    using assms by (simp add: rest_def pk_size_def)
  from place_scripts_fit [OF this, of "[]"] show ?thesis
    by (auto simp: writeTxScriptsToMsgTx_def rest_def)
qed

lemma writeTxScripts_all:
  assumes "sig_size msg + pk_size msg \<le> unat n"
    and "serType = TxSerializeOnlyWitness \<or> serType = TxSerializeFull"
  shows "writeTxScriptsToMsgTx msg n serType = Some msg"
proof -
  define rest :: "byte list" where "rest = replicate (unat n) 0"
  let ?sig = "map SignatureScript (tx_TxIn msg)" and ?pk = "map PkScript (tx_TxOut msg)"
  have "length (concat ?sig) \<le> length rest"
    using assms by (simp add: rest_def sig_size_def pk_size_def)
  from place_scripts_fit [OF this, of "[]"] obtain ins where
    ins: "place_scripts ?sig rest 0 =
        Some (concat ?sig @ drop (length (concat ?sig)) rest, length (concat ?sig), ins)"
      "\<And>post. map (slice (concat ?sig @ post)) ins = ?sig"
    by auto
  have "length (concat ?pk) \<le> length (drop (length (concat ?sig)) rest)"
    using assms by (simp add: rest_def sig_size_def pk_size_def)
  from place_scripts_fit [OF this, of "concat ?sig"] obtain buf off outs where
    outs: "place_scripts ?pk (concat ?sig @ drop (length (concat ?sig)) rest) (length (concat ?sig)) =
        Some (concat ?sig @ concat ?pk @ buf, off, outs)"
      "map (slice (concat ?sig @ concat ?pk @ buf)) outs = ?pk"
    by blast
  have "serType \<noteq> TxSerializeNoWitness" using assms(2) by (auto simp: ser_type_defs)
  then show ?thesis
    using assms(2) ins(1) outs ins(2) [of "concat ?pk @ buf"]
    by (simp add: writeTxScriptsToMsgTx_def rest_def)
qed

lemma unat_total_size:
  "length (concat ss) < 2 ^ 64 \<Longrightarrow> unat (total_size ss) = length (concat ss)"
proof (induction ss)
  case (Cons s ss)
  then have "unat (total_size ss) = length (concat ss)" by simp
  with Cons.prems show ?case
    by (simp add: total_size_def unat_word_ariths unat_of_nat)
qed (simp add: total_size_def)

lemma concat_bound:
  assumes "list_all script_ok ss" and "length ss \<le> n"
  shows "length (concat ss) \<le> n * unat MaxMessagePayload"
proof -
  have "length (concat ss) \<le> length ss * unat MaxMessagePayload"
    using assms(1) by (induction ss) (simp_all add: script_ok_def)
  then show ?thesis using assms(2) mult_le_mono1 order_trans by blast
qed

section \<open>Prefix and witness\<close>

definition prefix_bytes :: "MsgTx \<Rightarrow> byte list" where
  "prefix_bytes msg =
     varint_bytes (word_of_nat (length (tx_TxIn msg))) @
     concat (map prefix_in_bytes (tx_TxIn msg)) @
     varint_bytes (word_of_nat (length (tx_TxOut msg))) @
     concat (map out_bytes (tx_TxOut msg)) @
     le_bytes 4 (unat (LockTime msg)) @ le_bytes 4 (unat (Expiry msg))"

definition witness_bytes :: "MsgTx \<Rightarrow> byte list" where
  "witness_bytes msg =
     varint_bytes (word_of_nat (length (tx_TxIn msg))) @
     concat (map witness_in_bytes (tx_TxIn msg))"

definition prefix_ok :: "MsgTx \<Rightarrow> bool" where
  "prefix_ok msg \<longleftrightarrow>
     length (tx_TxIn msg) \<le> maxTxInPerMessage \<and> length (tx_TxOut msg) \<le> maxTxOutPerMessage \<and>
     list_all (\<lambda>ti. is_hash (op_Hash (PreviousOutPoint ti))) (tx_TxIn msg) \<and>
     list_all (\<lambda>to. script_ok (PkScript to)) (tx_TxOut msg)"

definition witness_ok :: "MsgTx \<Rightarrow> bool" where
  "witness_ok msg \<longleftrightarrow>
     length (tx_TxIn msg) \<le> maxTxInPerMessage \<and>
     list_all (\<lambda>ti. script_ok (SignatureScript ti)) (tx_TxIn msg)"

lemma max_counts: "maxTxInPerMessage = 780336" "maxTxOutPerMessage = 3728271"
    "unat MaxMessagePayload = 33554432"
  by (simp_all add: maxTxInPerMessage_def maxTxOutPerMessage_def MaxMessagePayload_def
      minTxInPayload_def minTxOutPayload_def HashSize_def)

lemma tx_counts:
  "n \<le> maxTxInPerMessage \<Longrightarrow> unat (word_of_nat n :: uint64) = n"
  "n \<le> maxTxOutPerMessage \<Longrightarrow> unat (word_of_nat n :: uint64) = n"
  by (simp_all add: max_counts unat_of_nat)

lemma readTxInPrefix_type:
  "st \<noteq> TxSerializeOnlyWitness \<Longrightarrow> readTxInPrefix st = readTxInPrefix TxSerializeFull"
  by (simp add: readTxInPrefix_def ser_type_defs fun_eq_iff)

lemma only_prefix_simps [simp]:
  "prefix_in_bytes (only_prefix ti) = prefix_in_bytes ti"
  "PreviousOutPoint (only_prefix ti) = PreviousOutPoint ti"
  "only_prefix (only_prefix ti) = only_prefix ti"
  "SignatureScript (only_prefix ti) = []"
  by (simp_all add: only_prefix_def prefix_in_bytes_def set_witness_def zero_TxIn_def)

lemma only_witness_simps [simp]:
  "witness_in_bytes (only_witness ti) = witness_in_bytes ti"
  "SignatureScript (only_witness ti) = SignatureScript ti"
  "only_witness (only_witness ti) = only_witness ti"
  by (simp_all add: only_witness_def witness_in_bytes_def set_witness_def)

lemma set_witness_back [simp]: "set_witness (only_prefix ti) (only_witness ti) = (ti :: TxIn)"
  by (cases ti) (simp add: set_witness_def only_prefix_def only_witness_def zero_TxIn_def)

lemma decodePrefix_bytes:
  assumes "prefix_ok msg" and "SerType msg0 \<noteq> TxSerializeOnlyWitness"
  shows "decodePrefix msg0 (prefix_bytes msg @ r) =
    Inr ((total_size (map PkScript (tx_TxOut msg)),
      msg0\<lparr>tx_TxIn := map only_prefix (tx_TxIn msg), tx_TxOut := tx_TxOut msg,
        LockTime := LockTime msg, Expiry := Expiry msg\<rparr>), r)"
proof -
  have ins: "repeatR (length (tx_TxIn msg)) (readTxInPrefix TxSerializeFull zero_TxIn)
      (concat (map prefix_in_bytes (tx_TxIn msg)) @ r') = Inr (map only_prefix (tx_TxIn msg), r')" for r'
    using prefix_in.repeat_enc [of "map only_prefix (tx_TxIn msg)" r'] assms(1)
    by (simp add: comp_def prefix_ok_def list_all_iff)
  have outs: "repeatR (length (tx_TxOut msg)) (readTxOut zero_TxOut)
      (concat (map out_bytes (tx_TxOut msg)) @ r') = Inr (tx_TxOut msg, r')" for r'
    using out.repeat_enc assms(1) by (simp add: prefix_ok_def)
  show ?thesis
    using assms
    by (simp add: decodePrefix_def prefix_bytes_def bindR_def prefix_ok_def tx_counts ins outs
        readTxInPrefix_type)
qed

lemma decodePrefix_inv:
  assumes "decodePrefix msg0 b = Inr ((n, msg), r)" and "SerType msg0 \<noteq> TxSerializeOnlyWitness"
  shows "prefix_ok msg \<and> b = prefix_bytes msg @ r \<and> n = total_size (map PkScript (tx_TxOut msg)) \<and>
    map only_prefix (tx_TxIn msg) = tx_TxIn msg \<and>
    msg = msg0\<lparr>tx_TxIn := tx_TxIn msg, tx_TxOut := tx_TxOut msg, LockTime := LockTime msg,
      Expiry := Expiry msg\<rparr>"
proof -
  from assms obtain c b1 ins b2 c' b3 outs b4 lt ex where
    p: "ReadVarInt b = Inr (c, b1)" "\<not> unat c > maxTxInPerMessage"
      "repeatR (unat c) (readTxInPrefix TxSerializeFull zero_TxIn) b1 = Inr (ins, b2)"
      "ReadVarInt b2 = Inr (c', b3)" "\<not> unat c' > maxTxOutPerMessage"
      "repeatR (unat c') (readTxOut zero_TxOut) b3 = Inr (outs, b4)"
      "b4 = le_bytes 4 (unat lt) @ le_bytes 4 (unat ex) @ r"
      "msg = msg0\<lparr>tx_TxIn := ins, tx_TxOut := outs, LockTime := lt, Expiry := ex\<rparr>"
      "n = total_size (map PkScript outs)"
    by (auto simp: decodePrefix_def readTxInPrefix_type bindR_eq_Inr_iff Uint_eq_Inr_iff
        split: if_splits)
  note i = prefix_in.repeat_inv [OF p(3)] and o = out.repeat_inv [OF p(6)]
  have "word_of_nat (length ins) = c" "word_of_nat (length outs) = c'" using i o by simp_all
  moreover have "map only_prefix ins = ins" using i by (simp add: list_all_iff map_idI)
  ultimately show ?thesis
    using p(2,5,7,8,9) i o varint_bytes_inv [OF p(1)] varint_bytes_inv [OF p(4)]
    by (simp add: prefix_ok_def prefix_bytes_def list_all_iff)
qed

lemma sint_count: "unat (c :: uint64) \<le> maxTxInPerMessage \<Longrightarrow> sint c = int (unat c)"
proof -
  assume "unat c \<le> maxTxInPerMessage"
  then have "int (unat c) \<le> 780336" using max_counts(1) by linarith
  then have "uint c < 2 ^ 63" by simp
  then have "signed_take_bit 63 (uint c) = uint c"
    using order_trans [OF _ uint_ge_0 [of c], of "- (2 ^ 63)"]
    by (simp add: signed_take_bit_int_eq_self_iff)
  then show ?thesis by (simp add: sint_uint)
qed

lemma repeat_witness_bytes:
  assumes "witness_ok msg"
  shows "repeatR (length (tx_TxIn msg)) (readTxInWitness zero_TxIn)
      (concat (map witness_in_bytes (tx_TxIn msg)) @ r) = Inr (map only_witness (tx_TxIn msg), r)"
  using witness_in.repeat_enc [of "map only_witness (tx_TxIn msg)" r] assms
  by (simp add: comp_def witness_ok_def list_all_iff)

lemma decodeWitness_bytes:
  assumes "witness_ok msg"
  shows "decodeWitness msg0 False (witness_bytes msg @ r) =
    Inr ((total_size (map SignatureScript (tx_TxIn msg)),
      msg0\<lparr>tx_TxIn := map only_witness (tx_TxIn msg), tx_TxOut := []\<rparr>), r)"
  using assms
  by (simp add: decodeWitness_def witness_bytes_def bindR_def witness_ok_def tx_counts
      repeat_witness_bytes comp_def)

lemma decodeWitness_full_bytes:
  assumes "witness_ok msg" and "tx_TxIn msg0 = map only_prefix (tx_TxIn msg)"
  shows "decodeWitness msg0 True (witness_bytes msg @ r) =
    Inr ((total_size (map SignatureScript (tx_TxIn msg)), msg0\<lparr>tx_TxIn := tx_TxIn msg\<rparr>), r)"
proof -
  have "length (tx_TxIn msg) \<le> maxTxInPerMessage" using assms(1) by (simp add: witness_ok_def)
  then have "sint (word_of_nat (length (tx_TxIn msg)) :: uint64) = int (length (tx_TxIn msg))"
    by (simp add: sint_count tx_counts)
  moreover have "map2 set_witness (map only_prefix ins) (map only_witness ins) = ins" for ins
    by (induction ins) simp_all
  ultimately show ?thesis
    using assms
    by (simp add: decodeWitness_def witness_bytes_def bindR_def witness_ok_def tx_counts
        repeat_witness_bytes comp_def)
qed

lemma decodeWitness_inv:
  assumes "decodeWitness msg0 False b = Inr ((n, msg), r)"
  shows "witness_ok msg \<and> b = witness_bytes msg @ r \<and>
    n = total_size (map SignatureScript (tx_TxIn msg)) \<and>
    map only_witness (tx_TxIn msg) = tx_TxIn msg \<and>
    msg = msg0\<lparr>tx_TxIn := tx_TxIn msg, tx_TxOut := []\<rparr>"
proof -
  from assms obtain c b1 ins where
    p: "ReadVarInt b = Inr (c, b1)" "\<not> unat c > maxTxInPerMessage"
      "repeatR (unat c) (readTxInWitness zero_TxIn) b1 = Inr (ins, r)"
      "msg = msg0\<lparr>tx_TxIn := ins, tx_TxOut := []\<rparr>" "n = total_size (map SignatureScript ins)"
    by (auto simp: decodeWitness_def bindR_eq_Inr_iff split: if_splits)
  note i = witness_in.repeat_inv [OF p(3)]
  have "word_of_nat (length ins) = c" using i by simp
  moreover have "map only_witness ins = ins" using i by (simp add: list_all_iff map_idI)
  ultimately show ?thesis
    using p(2,4,5) i varint_bytes_inv [OF p(1)]
    by (simp add: witness_ok_def witness_bytes_def list_all_iff)
qed

lemma map2_set_witness:
  assumes "length ins = length ws" and "map only_witness ws = ws"
  shows "map witness_in_bytes (map2 set_witness ins ws) = map witness_in_bytes ws"
    and "map SignatureScript (map2 set_witness ins ws) = map SignatureScript ws"
    and "map prefix_in_bytes (map2 set_witness ins ws) = map prefix_in_bytes ins"
    and "map PreviousOutPoint (map2 set_witness ins ws) = map PreviousOutPoint ins"
  using assms
  by (induction ins ws rule: list_induct2)
    (simp_all add: set_witness_def witness_in_bytes_def prefix_in_bytes_def)

lemma decodeWitness_full_inv:
  assumes "decodeWitness msg0 True b = Inr ((n, msg), r)"
  shows "witness_ok msg \<and> b = witness_bytes msg @ r \<and>
    n = total_size (map SignatureScript (tx_TxIn msg)) \<and>
    length (tx_TxIn msg) = length (tx_TxIn msg0) \<and>
    map prefix_in_bytes (tx_TxIn msg) = map prefix_in_bytes (tx_TxIn msg0) \<and>
    map PreviousOutPoint (tx_TxIn msg) = map PreviousOutPoint (tx_TxIn msg0) \<and>
    msg = msg0\<lparr>tx_TxIn := tx_TxIn msg\<rparr>"
proof -
  from assms obtain c b1 ws where
    p: "ReadVarInt b = Inr (c, b1)" "sint c = int (length (tx_TxIn msg0))"
      "\<not> unat c > maxTxInPerMessage"
      "repeatR (unat c) (readTxInWitness zero_TxIn) b1 = Inr (ws, r)"
      "msg = msg0\<lparr>tx_TxIn := map2 set_witness (tx_TxIn msg0) ws\<rparr>"
      "n = total_size (map SignatureScript ws)"
    by (auto simp: decodeWitness_def bindR_eq_Inr_iff split: if_splits)
  note i = witness_in.repeat_inv [OF p(4)]
  have "int (unat c) = int (length (tx_TxIn msg0))" using p(2) sint_count [of c] p(3) by linarith
  then have l: "length (tx_TxIn msg0) = length ws" using i by linarith
  have w: "map only_witness ws = ws" using i by (simp add: list_all_iff map_idI)
  define ins where "ins = map2 set_witness (tx_TxIn msg0) ws"
  note m = map2_set_witness [OF l w, folded ins_def]
  have "length ins = length ws" using l by (simp add: ins_def)
  moreover have "list_all script_ok (map SignatureScript ins)"
    using i by (simp add: m list_all_iff)
  then have "list_all (\<lambda>ti. script_ok (SignatureScript ti)) ins" by (simp add: list_all_iff)
  moreover have "word_of_nat (length ws) = c" using i by simp
  ultimately show ?thesis
    using p(3,6) p(5) [folded ins_def] i l varint_bytes_inv [OF p(1)]
    by (simp add: witness_ok_def witness_bytes_def m)
qed

section \<open>Whole transactions\<close>

lemma and_low_mask: "(v :: uint32) AND 0xffff = take_bit 16 v"
  by (simp add: take_bit_eq_mask mask_eq_exp_minus_1)

lemma version_pack:
  fixes v s :: uint16
  shows "ucast ((ucast v OR push_bit 16 (ucast s)) AND (0xffff :: uint32)) = v"
    and "ucast (drop_bit 16 (ucast v OR push_bit 16 (ucast s) :: uint32)) = s"
  unfolding and_low_mask
  by (rule bit_word_eqI; auto simp: bit_simps dest: bit_imp_le_length)+

lemma version_unpack:
  "ucast (ucast (v AND 0xffff) :: uint16) OR push_bit 16 (ucast (ucast (drop_bit 16 v) :: uint16)) = (v :: uint32)"
  unfolding and_low_mask
  by (rule bit_word_eqI) (auto simp: bit_simps le_add_diff_inverse dest: bit_imp_le_length)

definition ser_ok :: "MsgTx \<Rightarrow> bool" where
  "ser_ok msg \<longleftrightarrow>
     SerType msg \<in> {TxSerializeFull, TxSerializeNoWitness, TxSerializeOnlyWitness}"

definition tx_ok :: "MsgTx \<Rightarrow> bool" where
  "tx_ok msg \<longleftrightarrow> ser_ok msg \<and>
     (SerType msg \<noteq> TxSerializeOnlyWitness \<longrightarrow> prefix_ok msg) \<and>
     (SerType msg \<noteq> TxSerializeNoWitness \<longrightarrow> witness_ok msg)"

definition tx_bytes :: "MsgTx \<Rightarrow> byte list" where
  "tx_bytes msg = le_bytes 4 (unat (serializedVersion msg)) @
     (if SerType msg \<noteq> TxSerializeOnlyWitness then prefix_bytes msg else []) @
     (if SerType msg \<noteq> TxSerializeNoWitness then witness_bytes msg else [])"

text \<open>
  The part of a transaction that its serialization type keeps.  What is not
  encoded is as in the variable that is decoded into, or zero.
\<close>

definition tx_view :: "MsgTx \<Rightarrow> MsgTx \<Rightarrow> MsgTx" where
  "tx_view msg0 msg =
     (if SerType msg = TxSerializeNoWitness then
        msg\<lparr>CachedHash := CachedHash msg0, tx_TxIn := map only_prefix (tx_TxIn msg)\<rparr>
      else if SerType msg = TxSerializeOnlyWitness then
        msg\<lparr>CachedHash := CachedHash msg0, tx_TxIn := map only_witness (tx_TxIn msg),
          tx_TxOut := [], LockTime := LockTime msg0, Expiry := Expiry msg0\<rparr>
      else msg\<lparr>CachedHash := CachedHash msg0\<rparr>)"

lemma pk_size_bound: "prefix_ok msg \<Longrightarrow> pk_size msg \<le> maxTxOutPerMessage * unat MaxMessagePayload"
  unfolding pk_size_def by (rule concat_bound) (simp_all add: prefix_ok_def list_all_iff)

lemma sig_size_bound: "witness_ok msg \<Longrightarrow> sig_size msg \<le> maxTxInPerMessage * unat MaxMessagePayload"
  unfolding sig_size_def by (rule concat_bound) (simp_all add: witness_ok_def list_all_iff)

lemma pk_total: "prefix_ok msg \<Longrightarrow> unat (total_size (map PkScript (tx_TxOut msg))) = pk_size msg"
  using pk_size_bound [of msg] by (simp add: pk_size_def max_counts unat_total_size)

lemma sig_total:
  "witness_ok msg \<Longrightarrow> unat (total_size (map SignatureScript (tx_TxIn msg))) = sig_size msg"
  using sig_size_bound [of msg] by (simp add: sig_size_def max_counts unat_total_size)

lemma full_total:
  assumes "prefix_ok msg" and "witness_ok msg"
  shows "unat (total_size (map PkScript (tx_TxOut msg)) + total_size (map SignatureScript (tx_TxIn msg))) =
    sig_size msg + pk_size msg"
  using assms pk_size_bound [of msg] sig_size_bound [of msg]
  by (simp add: unat_word_ariths pk_total sig_total max_counts)

lemma written_Some [simp]: "written (Some msg) = returnR msg"
  by (simp add: written_def)

lemma written_eq_Inr: "written m b = Inr (msg, r) \<longleftrightarrow> m = Some msg \<and> r = b"
  by (auto simp: written_def split: option.splits)

lemma serializedVersion_back:
  "ucast (serializedVersion msg AND 0xffff) = tx_Version msg"
  "ucast (drop_bit 16 (serializedVersion msg)) = SerType msg"
  unfolding serializedVersion_def by (simp_all only: version_pack)

lemma ser_types_distinct [simp]:
  "TxSerializeFull \<noteq> TxSerializeNoWitness" "TxSerializeNoWitness \<noteq> TxSerializeFull"
  "TxSerializeFull \<noteq> TxSerializeOnlyWitness" "TxSerializeOnlyWitness \<noteq> TxSerializeFull"
  "TxSerializeNoWitness \<noteq> TxSerializeOnlyWitness" "TxSerializeOnlyWitness \<noteq> TxSerializeNoWitness"
  by (simp_all add: ser_type_defs)

lemma MsgTx_BtcDecode_bytes:
  assumes "tx_ok msg"
  shows "MsgTx_BtcDecode msg0 (tx_bytes msg @ r) = Inr (tx_view msg0 msg, r)"
proof -
  define m where "m = msg0\<lparr>tx_Version := tx_Version msg, SerType := SerType msg\<rparr>"
  note version = serializedVersion_back [of msg] m_def [symmetric]
  consider (no) "SerType msg = TxSerializeNoWitness" "prefix_ok msg"
    | (only) "SerType msg = TxSerializeOnlyWitness" "witness_ok msg"
    | (full) "SerType msg = TxSerializeFull" "prefix_ok msg" "witness_ok msg"
    using assms by (auto simp: tx_ok_def ser_ok_def)
  then show ?thesis
  proof cases
    case no
    let ?m = "m\<lparr>tx_TxIn := map only_prefix (tx_TxIn msg), tx_TxOut := tx_TxOut msg,
        LockTime := LockTime msg, Expiry := Expiry msg\<rparr>"
    have "writeTxScriptsToMsgTx ?m (total_size (map PkScript (tx_TxOut msg))) TxSerializeNoWitness = Some ?m"
      by (rule writeTxScripts_outs) (use pk_total [OF no(2)] in \<open>simp add: pk_size_def\<close>)
    with no decodePrefix_bytes [OF no(2), of m r] show ?thesis
      by (simp add: MsgTx_BtcDecode_def decode_body_def tx_bytes_def bindR_def version Let_def tx_view_def)
        (simp add: m_def)
  next
    case only
    let ?m = "m\<lparr>tx_TxIn := map only_witness (tx_TxIn msg), tx_TxOut := []\<rparr>"
    have "writeTxScriptsToMsgTx ?m (total_size (map SignatureScript (tx_TxIn msg))) TxSerializeOnlyWitness = Some ?m"
      by (rule writeTxScripts_all)
        (use sig_total [OF only(2)] in \<open>simp_all add: sig_size_def pk_size_def comp_def\<close>)
    with only decodeWitness_bytes [OF only(2), of m r] show ?thesis
      by (simp add: MsgTx_BtcDecode_def decode_body_def tx_bytes_def bindR_def version Let_def tx_view_def)
        (simp add: m_def)
  next
    case full
    let ?p = "m\<lparr>tx_TxIn := map only_prefix (tx_TxIn msg), tx_TxOut := tx_TxOut msg,
        LockTime := LockTime msg, Expiry := Expiry msg\<rparr>"
    let ?m = "?p\<lparr>tx_TxIn := tx_TxIn msg\<rparr>"
    have "writeTxScriptsToMsgTx ?m (total_size (map PkScript (tx_TxOut msg)) +
        total_size (map SignatureScript (tx_TxIn msg))) TxSerializeFull = Some ?m"
      by (rule writeTxScripts_all)
        (use full_total [OF full(2,3)] in \<open>simp_all add: sig_size_def pk_size_def\<close>)
    with full decodePrefix_bytes [OF full(2), of m "witness_bytes msg @ r"]
      decodeWitness_full_bytes [OF full(3), of ?p r]
    show ?thesis
      by (simp add: MsgTx_BtcDecode_def decode_body_def tx_bytes_def bindR_def version Let_def tx_view_def)
        (simp add: m_def bindR_def)
  qed
qed

text \<open>The scripts are moved without change after every successful decoding.\<close>

lemma prefix_kept:
  assumes "decodePrefix m b = Inr ((n, p), r)" and "SerType m \<noteq> TxSerializeOnlyWitness"
  shows "SerType p = SerType m" "tx_Version p = tx_Version m" "CachedHash p = CachedHash m"
proof -
  have p: "p = m\<lparr>tx_TxIn := tx_TxIn p, tx_TxOut := tx_TxOut p, LockTime := LockTime p, Expiry := Expiry p\<rparr>"
    using decodePrefix_inv [OF assms] by blast
  show "SerType p = SerType m" "tx_Version p = tx_Version m" "CachedHash p = CachedHash m"
    by (subst p; simp)+
qed

lemma witness_kept:
  assumes "decodeWitness m isFull b = Inr ((n, p), r)"
  shows "SerType p = SerType m" "tx_Version p = tx_Version m" "CachedHash p = CachedHash m"
    "LockTime p = LockTime m" "Expiry p = Expiry m" "tx_TxOut p = (if isFull then tx_TxOut m else [])"
proof -
  obtain ins where p: "p = m\<lparr>tx_TxIn := ins, tx_TxOut := (if isFull then tx_TxOut m else [])\<rparr>"
    using assms decodeWitness_inv [of m b n p r] decodeWitness_full_inv [of m b n p r]
    by (cases isFull) auto
  show "SerType p = SerType m" "tx_Version p = tx_Version m" "CachedHash p = CachedHash m"
    "LockTime p = LockTime m" "Expiry p = Expiry m" "tx_TxOut p = (if isFull then tx_TxOut m else [])"
    by (simp_all add: p)
qed

lemma scripts_no_witness:
  assumes "decodePrefix m b = Inr ((n, p), r)" and "SerType m = TxSerializeNoWitness"
  shows "writeTxScriptsToMsgTx p n (SerType p) = Some p"
proof -
  have "prefix_ok p" "n = total_size (map PkScript (tx_TxOut p))"
    using decodePrefix_inv [OF assms(1)] assms(2) by auto
  then have "writeTxScriptsToMsgTx p n TxSerializeNoWitness = Some p"
    by (intro writeTxScripts_outs) (simp add: pk_total)
  then show ?thesis using prefix_kept [OF assms(1)] assms(2) by simp
qed

lemma scripts_only_witness:
  assumes "decodeWitness m False b = Inr ((n, p), r)" and "SerType m = TxSerializeOnlyWitness"
  shows "writeTxScriptsToMsgTx p n (SerType p) = Some p"
proof -
  have "witness_ok p" "n = total_size (map SignatureScript (tx_TxIn p))"
    using decodeWitness_inv [OF assms(1)] by auto
  then have "writeTxScriptsToMsgTx p n TxSerializeOnlyWitness = Some p"
    using witness_kept [OF assms(1)]
    by (intro writeTxScripts_all) (simp_all add: sig_total pk_size_def)
  then show ?thesis using witness_kept [OF assms(1)] assms(2) by simp
qed

lemma full_prefix_ok:
  assumes "decodePrefix m b = Inr ((n, p), b')" and "decodeWitness p True b' = Inr ((n', q), r)"
    and "SerType m = TxSerializeFull"
  shows "prefix_ok q" and "prefix_bytes q = prefix_bytes p"
proof -
  note j = decodeWitness_full_inv [OF assms(2)] and s = witness_kept [OF assms(2)]
  have p: "prefix_ok p" using decodePrefix_inv [OF assms(1)] assms(3) by simp
  then have "list_all (\<lambda>op. is_hash (op_Hash op)) (map PreviousOutPoint (tx_TxIn q))"
    using j by (simp add: prefix_ok_def list_all_iff)
  then have "list_all (\<lambda>ti. is_hash (op_Hash (PreviousOutPoint ti))) (tx_TxIn q)"
    by (simp add: list_all_iff)
  with p j s show "prefix_ok q" by (simp add: prefix_ok_def)
  show "prefix_bytes q = prefix_bytes p" using j s by (simp add: prefix_bytes_def)
qed

lemma scripts_full:
  assumes "decodePrefix m b = Inr ((n, p), b')" and "decodeWitness p True b' = Inr ((n', q), r)"
    and "SerType m = TxSerializeFull"
  shows "writeTxScriptsToMsgTx q (n + n') (SerType q) = Some q"
proof -
  have "n = total_size (map PkScript (tx_TxOut q))"
    using decodePrefix_inv [OF assms(1)] assms(3) witness_kept [OF assms(2)] by simp
  moreover have "witness_ok q" "n' = total_size (map SignatureScript (tx_TxIn q))"
    using decodeWitness_full_inv [OF assms(2)] by auto
  ultimately have "writeTxScriptsToMsgTx q (n + n') TxSerializeFull = Some q"
    using full_total [OF full_prefix_ok(1) [OF assms]] by (intro writeTxScripts_all) simp_all
  then show ?thesis
    using prefix_kept [OF assms(1)] witness_kept [OF assms(2)] assms(3) by simp
qed

lemma decode_no_witness:
  assumes "decode_body m b = Inr (msg, r)" and "SerType m = TxSerializeNoWitness"
  shows "prefix_ok msg \<and> b = prefix_bytes msg @ r \<and> tx_view m msg = msg \<and>
    SerType msg = SerType m \<and> tx_Version msg = tx_Version m"
proof -
  from assms obtain n p where p: "decodePrefix m b = Inr ((n, p), r)"
      "writeTxScriptsToMsgTx p n (SerType p) = Some msg"
    by (auto simp: decode_body_def bindR_eq_Inr_iff written_eq_Inr)
  then have "p = msg" using scripts_no_witness [OF p(1) assms(2)] by simp
  then show ?thesis
    using decodePrefix_inv [OF p(1)] prefix_kept [OF p(1)] assms(2) by (simp add: tx_view_def)
qed

lemma decode_only_witness:
  assumes "decode_body m b = Inr (msg, r)" and "SerType m = TxSerializeOnlyWitness"
  shows "witness_ok msg \<and> b = witness_bytes msg @ r \<and> tx_view m msg = msg \<and>
    SerType msg = SerType m \<and> tx_Version msg = tx_Version m"
proof -
  from assms obtain n p where p: "decodeWitness m False b = Inr ((n, p), r)"
      "writeTxScriptsToMsgTx p n (SerType p) = Some msg"
    by (auto simp: decode_body_def bindR_eq_Inr_iff written_eq_Inr)
  then have "p = msg" using scripts_only_witness [OF p(1) assms(2)] by simp
  then show ?thesis
    using decodeWitness_inv [OF p(1)] witness_kept [OF p(1)] assms(2) by (simp add: tx_view_def)
qed

lemma decode_full:
  assumes "decode_body m b = Inr (msg, r)" and "SerType m = TxSerializeFull"
  shows "prefix_ok msg \<and> witness_ok msg \<and> b = prefix_bytes msg @ witness_bytes msg @ r \<and>
    tx_view m msg = msg \<and> SerType msg = SerType m \<and> tx_Version msg = tx_Version m"
proof -
  from assms obtain n p n' q b' where p: "decodePrefix m b = Inr ((n, p), b')"
      "decodeWitness p True b' = Inr ((n', q), r)"
      "writeTxScriptsToMsgTx q (n + n') (SerType q) = Some msg"
    by (auto simp: decode_body_def bindR_eq_Inr_iff written_eq_Inr)
  then have "q = msg" using scripts_full [OF p(1,2) assms(2)] by simp
  moreover have "b = prefix_bytes q @ witness_bytes q @ r"
    using decodePrefix_inv [OF p(1)] decodeWitness_full_inv [OF p(2)]
      full_prefix_ok(2) [OF p(1,2) assms(2)] assms(2) by simp
  ultimately show ?thesis
    using decodeWitness_full_inv [OF p(2)] full_prefix_ok(1) [OF p(1,2) assms(2)]
      prefix_kept [OF p(1)] witness_kept [OF p(2)] assms(2) by (simp add: tx_view_def)
qed

lemma MsgTx_BtcDecode_inv:
  assumes "MsgTx_BtcDecode msg0 b = Inr (msg, r)"
  shows "(tx_ok msg \<and> tx_view msg0 msg = msg) \<and> b = tx_bytes msg @ r"
proof -
  from assms obtain v :: uint32 and b1 where b: "b = le_bytes 4 (unat v) @ b1" and
    d: "decode_body (msg0\<lparr>tx_Version := ucast (v AND 0xffff), SerType := ucast (drop_bit 16 v)\<rparr>) b1 =
      Inr (msg, r)"
      (is "decode_body ?m b1 = _")
    unfolding MsgTx_BtcDecode_def bindR_eq_Inr_iff Uint_eq_Inr_iff by blast
  have e: "tx_ok msg \<and> tx_view ?m msg = msg \<and> SerType msg = SerType ?m \<and> tx_Version msg = tx_Version ?m \<and>
      b1 = (if SerType msg \<noteq> TxSerializeOnlyWitness then prefix_bytes msg else []) @
        (if SerType msg \<noteq> TxSerializeNoWitness then witness_bytes msg else []) @ r"
    using d decode_no_witness [of ?m b1 msg r] decode_only_witness [of ?m b1 msg r]
      decode_full [of ?m b1 msg r]
    by (auto simp: decode_body_def tx_ok_def ser_ok_def split: if_splits)
  have "tx_view msg0 msg = tx_view ?m msg" by (simp add: tx_view_def)
  moreover have "serializedVersion msg = v"
    using e by (simp add: serializedVersion_def) (simp add: version_unpack)
  ultimately show ?thesis using e b by (simp add: tx_bytes_def)
qed

interpretation tx: canonical_codec tx_bytes "MsgTx_BtcDecode msg0" "\<lambda>msg. tx_ok msg \<and> tx_view msg0 msg = msg"
  for msg0
  by unfold_locales (simp add: MsgTx_BtcDecode_bytes, simp add: MsgTx_BtcDecode_inv)

section \<open>The encoder writes these bytes\<close>

context sink
begin

lemma writes_WriteOutPoint: "writes contents (WriteOutPoint wr op) (outpoint_bytes op)"
  unfolding WriteOutPoint_def outpoint_bytes_def by (intro writes_seqW writes_wire)

lemma writes_writeTxInPrefix: "writes contents (writeTxInPrefix wr ti) (prefix_in_bytes ti)"
  unfolding writeTxInPrefix_def prefix_in_bytes_def
  by (intro writes_seqW writes_wire writes_WriteOutPoint)

lemma writes_writeTxInWitness: "writes contents (writeTxInWitness wr ti) (witness_in_bytes ti)"
  unfolding writeTxInWitness_def witness_in_bytes_def
  by (intro writes_seqW writes_wire writes_ignoreW)

lemma writes_writeTxOut: "writes contents (writeTxOut wr to) (out_bytes to)"
  unfolding writeTxOut_def out_bytes_def by (intro writes_seqW writes_wire)

lemma writes_encodePrefix: "writes contents (encodePrefix wr msg) (prefix_bytes msg)"
  unfolding encodePrefix_def prefix_bytes_def
  by (intro writes_seqW writes_wire writes_forW writes_writeTxInPrefix writes_writeTxOut)

lemma writes_encodeWitness: "writes contents (encodeWitness wr msg) (witness_bytes msg)"
  unfolding encodeWitness_def witness_bytes_def
  by (intro writes_seqW writes_wire writes_forW writes_writeTxInWitness)

lemma writes_BtcEncode:
  assumes "ser_ok msg"
  shows "writes contents (MsgTx_BtcEncode wr msg) (tx_bytes msg)"
  unfolding MsgTx_BtcEncode_def tx_bytes_def
  by (intro writes_seqW writes_PutUint32)
    (use assms writes_encodePrefix [of msg] writes_encodeWitness [of msg] in
      \<open>auto simp: ser_ok_def intro: writes_seqW\<close>)

end

lemma MsgTx_Bytes_eq: "ser_ok msg \<Longrightarrow> MsgTx_Bytes msg = Inr (tx_bytes msg)"
  using writes_buffer [OF buffer.writes_BtcEncode, of msg "[]"]
  by (simp add: MsgTx_Bytes_def MsgTx_Serialize_def)

lemma tx_serialize_eq:
  "ser_ok (msg\<lparr>SerType := st\<rparr>) \<Longrightarrow> tx_serialize msg st = Inr (tx_bytes (msg\<lparr>SerType := st\<rparr>))"
  using writes_buffer [OF buffer.writes_BtcEncode, of "msg\<lparr>SerType := st\<rparr>" "[]"]
  by (simp add: tx_serialize_def MsgTx_Serialize_def)

lemma unsupported_type:
  "\<not> ser_ok msg \<Longrightarrow>
     MsgTx_Bytes msg = Inl (MessageError ''MsgTx.BtcEncode'' ''unsupported transaction type'')"
  by (simp add: MsgTx_Bytes_def MsgTx_Serialize_def MsgTx_BtcEncode_def ser_ok_def seqW_def
      PutUint32_def Buffer_Write_def failW_def)

section \<open>Sizes and script offsets\<close>

definition hashes_typed :: "MsgTx \<Rightarrow> bool" where
  "hashes_typed msg \<longleftrightarrow> list_all (\<lambda>ti. is_hash (op_Hash (PreviousOutPoint ti))) (tx_TxIn msg)"

lemma length_counted [simp]:
  "length (counted_bytes s) = VarIntSerializeSize (word_of_nat (length s)) + length s"
  by (simp add: counted_bytes_def)

lemma length_prefix_ins:
  "list_all (\<lambda>ti. is_hash (op_Hash (PreviousOutPoint ti))) ins \<Longrightarrow>
     length (concat (map prefix_in_bytes ins)) = sum_list (map TxIn_SerializeSizePrefix ins)"
  by (induction ins)
    (simp_all add: prefix_in_bytes_def outpoint_bytes_def TxIn_SerializeSizePrefix_def is_hash_def HashSize_def)

lemma length_witness_ins:
  "length (concat (map witness_in_bytes ins)) = sum_list (map TxIn_SerializeSizeWitness ins)"
  by (induction ins) (simp_all add: witness_in_bytes_def TxIn_SerializeSizeWitness_def)

lemma length_outs: "length (concat (map out_bytes outs)) = sum_list (map TxOut_SerializeSize outs)"
  by (induction outs) (simp_all add: out_bytes_def TxOut_SerializeSize_def)

lemma length_tx_bytes:
  assumes "ser_ok msg" and "SerType msg \<noteq> TxSerializeOnlyWitness \<longrightarrow> hashes_typed msg"
  shows "length (tx_bytes msg) = MsgTx_SerializeSize msg"
  using assms
  by (auto simp: ser_ok_def tx_bytes_def prefix_bytes_def witness_bytes_def MsgTx_SerializeSize_def
      Let_def hashes_typed_def length_prefix_ins length_witness_ins length_outs)

lemma script_locs_length [simp]: "length (script_locs n outs) = length outs"
  by (induction outs arbitrary: n) (simp_all add: Let_def)

lemma script_locs_point:
  assumes "i < length outs" and "length pre = n"
  shows "\<exists>before post. pre @ concat (map out_bytes outs) @ tail = before @ PkScript (outs ! i) @ post \<and>
      length before = script_locs n outs ! i"
  using assms
proof (induction outs arbitrary: i n pre)
  case (Cons to outs)
  define hd where "hd = pre @ le_bytes 8 (unat (out_Value to)) @ le_bytes 2 (unat (out_Version to)) @
    varint_bytes (word_of_nat (length (PkScript to)))"
  have all: "pre @ concat (map out_bytes (to # outs)) @ tail =
      (hd @ PkScript to) @ concat (map out_bytes outs) @ tail"
    by (simp add: hd_def out_bytes_def counted_bytes_def)
  have len: "n + (10 + VarIntSerializeSize (word_of_nat (length (PkScript to)))) = length hd"
    using Cons.prems(2) by (simp add: hd_def)
  show ?case
  proof (cases i)
    case 0
    show ?thesis
      unfolding all by (rule exI [of _ hd]) (simp add: 0 Let_def len)
  next
    case (Suc j)
    then have "j < length outs" using Cons.prems(1) by simp
    from Cons.IH [OF this refl, of "hd @ PkScript to"] show ?thesis
      unfolding all Suc by (simp add: Let_def len)
  qed
qed simp

section \<open>No input makes the decoder panic\<close>

definition never_panics :: "'a reader \<Rightarrow> bool" where
  "never_panics m \<longleftrightarrow> (\<forall>b. m b \<noteq> Inl SlicePanic)"

lemma never_panics_bindR:
  assumes "never_panics m" and "\<And>b a r. m b = Inr (a, r) \<Longrightarrow> f a r \<noteq> Inl SlicePanic"
  shows "never_panics (bindR m f)"
  using assms by (auto simp: never_panics_def bindR_def bindE_eq_Inl_iff)

lemma never_panics_bind:
  assumes "never_panics m" and "\<And>a. never_panics (f a)"
  shows "never_panics (bindR m f)"
  using assms by (intro never_panics_bindR) (auto simp: never_panics_def)

lemma never_panics_basic [simp]:
  "never_panics (returnR a)" "never_panics (ReadFull n)" "never_panics Uint8"
  "never_panics (Uint16 o')" "never_panics (Uint32 o')" "never_panics (Uint64 o')"
  "never_panics (failR (MessageError f d))"
  by (auto simp: never_panics_def ReadFull_def Uint8_def Uint16_def Uint32_def Uint64_def bindR_def
      bindE_eq_Inl_iff)

lemma never_panics_repeat: "never_panics m \<Longrightarrow> never_panics (repeatR n m)"
  by (induction n) (auto intro!: never_panics_bind)

lemma never_panics_ReadVarInt: "never_panics ReadVarInt"
  unfolding ReadVarInt_def errNonCanonicalVarInt_def by (intro never_panics_bind; simp add: never_panics_bind)

lemma never_panics_readScript: "never_panics (readScript m f)"
  unfolding readScript_def by (intro never_panics_bind never_panics_ReadVarInt) simp

lemma never_panics_parts:
  "never_panics (readTxInPrefix st ti)" "never_panics (readTxInWitness ti)" "never_panics (readTxOut to)"
  unfolding readTxInPrefix_def ReadOutPoint_def readTxInWitness_def readTxOut_def
  by (simp_all add: never_panics_bind never_panics_readScript)

lemma never_panics_decode:
  "never_panics (decodePrefix msg)" "never_panics (decodeWitness msg isFull)"
  unfolding decodePrefix_def decodeWitness_def
  by (simp_all add: never_panics_bind never_panics_ReadVarInt never_panics_repeat never_panics_parts)

lemma never_panics_body: "never_panics (decode_body m)"
proof -
  have "decode_body m b \<noteq> Inl SlicePanic" for b
  proof
    assume e: "decode_body m b = Inl SlicePanic"
    have P: "decodePrefix m b' \<noteq> Inl SlicePanic" "decodeWitness m' f b' \<noteq> Inl SlicePanic" for b' m' f
      using never_panics_decode unfolding never_panics_def by blast+
    consider "SerType m = TxSerializeNoWitness" | "SerType m = TxSerializeOnlyWitness"
      | "SerType m = TxSerializeFull"
      using e by (auto simp: decode_body_def split: if_splits)
    then show False
    proof cases
      case 1
      then show False
        using e P scripts_no_witness
        by (fastforce simp: decode_body_def bindR_def bindE_eq_Inl_iff)
    next
      case 2
      then show False
        using e P scripts_only_witness
        by (fastforce simp: decode_body_def bindR_def bindE_eq_Inl_iff)
    next
      case 3
      then show False
        using e P scripts_full
        by (fastforce simp: decode_body_def bindR_def bindE_eq_Inl_iff)
    qed
  qed
  then show ?thesis by (simp add: never_panics_def)
qed

lemma never_panics_tx: "never_panics (MsgTx_BtcDecode msg)"
  unfolding MsgTx_BtcDecode_def by (intro never_panics_bind never_panics_body) simp

section \<open>Properties\<close>

text \<open>
  C24: A transaction within the limits of the decoder is written, for each of the
  three serialization types, as the number of bytes that \<open>SerializeSize\<close>
  announces, and decoding them yields the part of the transaction that the type
  keeps: everything for a full serialization, no witness for a prefix, only the
  witness otherwise.
\<close>

theorem tx_roundtrip:
  assumes "tx_ok msg"
  shows "\<exists>bs. MsgTx_Bytes msg = Inr bs \<and> length bs = MsgTx_SerializeSize msg \<and>
           MsgTx_FromBytes msg0 bs = Inr (tx_view msg0 msg)"
proof -
  have "length (tx_bytes msg) = MsgTx_SerializeSize msg"
    using assms by (intro length_tx_bytes) (auto simp: tx_ok_def hashes_typed_def prefix_ok_def)
  then show ?thesis
    using assms MsgTx_BtcDecode_bytes [OF assms, of msg0 "[]"]
    by (simp add: MsgTx_Bytes_eq tx_ok_def MsgTx_FromBytes_def MsgTx_Deserialize_def)
qed

definition ex_tx :: MsgTx where
  "ex_tx = AddTxOut (AddTxIn NewMsgTx (NewTxIn (NewOutPoint (replicate 32 7) 1 0) 5000 [0x51, 0x52]))
     (NewTxOut 4000 [0x76, 0xa9, 0x14])"

lemma ex_tx_ok: "tx_ok ex_tx"
  by (simp add: ex_tx_def AddTxOut_def AddTxIn_def NewMsgTx_def NewTxIn_def NewOutPoint_def NewTxOut_def
      zero_MsgTx_def tx_ok_def ser_ok_def prefix_ok_def witness_ok_def script_ok_def is_hash_def
      HashSize_def max_counts)

theorem tx_roundtrip_witness:
  "\<exists>bs. MsgTx_Bytes ex_tx = Inr bs \<and> length bs = 89 \<and> MsgTx_FromBytes zero_MsgTx bs = Inr ex_tx"
proof -
  have "MsgTx_SerializeSize ex_tx = 89" "tx_view zero_MsgTx ex_tx = ex_tx" by code_simp+
  with tx_roundtrip [OF ex_tx_ok, of zero_MsgTx] show ?thesis by simp
qed

text \<open>
  C23: The transaction encoding is canonical.  Whatever bytes are decoded into a
  transaction, serializing that transaction gives those bytes back, up to the
  unread rest of the input, so no two inputs stand for the same transaction.
\<close>

theorem tx_canonical:
  assumes "MsgTx_FromBytes msg0 b = Inr msg"
  shows "\<exists>bs rest. MsgTx_Bytes msg = Inr bs \<and> b = bs @ rest"
proof -
  from assms obtain r where "MsgTx_BtcDecode msg0 b = Inr (msg, r)"
    by (auto simp: MsgTx_FromBytes_def MsgTx_Deserialize_def bindE_eq_Inr_iff)
  from MsgTx_BtcDecode_inv [OF this] show ?thesis by (simp add: MsgTx_Bytes_eq tx_ok_def)
qed

theorem tx_canonical_witness:
  "\<exists>bs rest. MsgTx_Bytes ex_tx = Inr bs \<and> tx_bytes ex_tx @ [1, 2] = bs @ rest"
proof (rule tx_canonical)
  have "tx_view zero_MsgTx ex_tx = ex_tx" by code_simp
  with MsgTx_BtcDecode_bytes [OF ex_tx_ok, of zero_MsgTx "[1, 2]"]
  show "MsgTx_FromBytes zero_MsgTx (tx_bytes ex_tx @ [1, 2]) = Inr ex_tx"
    by (simp add: MsgTx_FromBytes_def MsgTx_Deserialize_def)
qed

text \<open>
  C25: No input makes the transaction decoder panic.  The slice expressions of
  \<open>writeTxScriptsToMsgTx\<close> stay within the buffer for every transaction that
  has been decoded, because the buffer has the total size of the scripts and
  that total does not wrap around.
\<close>

theorem tx_decode_never_panics: "MsgTx_BtcDecode msg0 b \<noteq> Inl SlicePanic"
  using never_panics_tx by (simp add: never_panics_def)

text \<open>
  \<open>PkScriptLocs\<close> gives, for each output of a transaction serialized
  with its prefix, the offset at which its public key script starts in the
  serialized bytes.
\<close>

theorem pk_script_locs:
  assumes "hashes_typed msg" and "SerType msg = TxSerializeFull \<or> SerType msg = TxSerializeNoWitness"
    and "i < length (tx_TxOut msg)"
  shows "\<exists>bs before post. MsgTx_Bytes msg = Inr bs \<and> bs = before @ PkScript (tx_TxOut msg ! i) @ post \<and>
           length before = PkScriptLocs msg ! i"
proof -
  let ?pre = "le_bytes 4 (unat (serializedVersion msg)) @
      varint_bytes (word_of_nat (length (tx_TxIn msg))) @
      concat (map prefix_in_bytes (tx_TxIn msg)) @ varint_bytes (word_of_nat (length (tx_TxOut msg)))"
  have "tx_bytes msg = ?pre @ concat (map out_bytes (tx_TxOut msg)) @
      le_bytes 4 (unat (LockTime msg)) @ le_bytes 4 (unat (Expiry msg)) @
      (if SerType msg \<noteq> TxSerializeNoWitness then witness_bytes msg else [])"
    using assms(2) by (auto simp: tx_bytes_def prefix_bytes_def)
  moreover have "PkScriptLocs msg = script_locs (length ?pre) (tx_TxOut msg)"
    using assms(1,3) by (auto simp: PkScriptLocs_def Let_def hashes_typed_def length_prefix_ins ac_simps)
  moreover have "MsgTx_Bytes msg = Inr (tx_bytes msg)"
    using assms(2) by (auto simp: MsgTx_Bytes_eq ser_ok_def)
  ultimately show ?thesis using script_locs_point [OF assms(3) refl] by metis
qed

theorem pk_script_locs_witness:
  "\<exists>bs before post. MsgTx_Bytes ex_tx = Inr bs \<and> bs = before @ [0x76, 0xa9, 0x14] @ post \<and>
     length before = PkScriptLocs ex_tx ! 0"
proof -
  have "hashes_typed ex_tx" "SerType ex_tx = TxSerializeFull" "0 < length (tx_TxOut ex_tx)"
    "PkScript (tx_TxOut ex_tx ! 0) = [0x76, 0xa9, 0x14]"
    by code_simp+
  with pk_script_locs [of ex_tx 0] show ?thesis by simp
qed

text \<open>The fields of a transaction that its prefix holds.\<close>

definition tx_prefix :: "MsgTx \<Rightarrow> uint16 \<times> TxIn list \<times> TxOut list \<times> uint32 \<times> uint32" where
  "tx_prefix msg = (tx_Version msg, map only_prefix (tx_TxIn msg), tx_TxOut msg, LockTime msg, Expiry msg)"

lemma tx_prefix_bytes:
  assumes "prefix_ok m1" and "prefix_ok m2"
  shows "tx_bytes (m1\<lparr>SerType := TxSerializeNoWitness\<rparr>) = tx_bytes (m2\<lparr>SerType := TxSerializeNoWitness\<rparr>) \<longleftrightarrow>
    tx_prefix m1 = tx_prefix m2" (is "?b m1 = ?b m2 \<longleftrightarrow> _")
proof
  define view where "view m = m\<lparr>SerType := TxSerializeNoWitness, CachedHash := None,
      tx_TxIn := map only_prefix (tx_TxIn m)\<rparr>" for m :: MsgTx
  have dec: "MsgTx_BtcDecode zero_MsgTx (?b m) = Inr (view m, [])" if "prefix_ok m" for m
    using MsgTx_BtcDecode_bytes [of "m\<lparr>SerType := TxSerializeNoWitness\<rparr>" zero_MsgTx "[]"] that
    by (simp add: tx_ok_def ser_ok_def tx_view_def prefix_ok_def zero_MsgTx_def view_def)
  have prefix: "tx_prefix (view m) = tx_prefix m" for m
    by (simp add: tx_prefix_def view_def)
  assume "?b m1 = ?b m2"
  then have "view m1 = view m2" using dec [OF assms(1)] dec [OF assms(2)] by simp
  then show "tx_prefix m1 = tx_prefix m2" using prefix by metis
next
  assume eq: "tx_prefix m1 = tx_prefix m2"
  then have p: "map only_prefix (tx_TxIn m1) = map only_prefix (tx_TxIn m2)" by (simp add: tx_prefix_def)
  have "map prefix_in_bytes (tx_TxIn m1) = map prefix_in_bytes (tx_TxIn m2)"
    using arg_cong [OF p, of "map prefix_in_bytes"] by (simp add: comp_def)
  then show "?b m1 = ?b m2"
    using eq map_eq_imp_length_eq [OF p]
    by (simp add: tx_prefix_def tx_bytes_def prefix_bytes_def serializedVersion_def)
qed

text \<open>
  C26: The transaction hash commits to the prefix and to nothing else: the bytes
  that are hashed for two transactions are equal if and only if their versions,
  outpoints, sequence numbers, outputs, lock times and expiries are equal.
  Changing a witness does not change the hash.
\<close>

theorem tx_hash_commits:
  assumes "prefix_ok m1" and "prefix_ok m2"
  shows "\<exists>b1 b2. TxHash HashH m1 = Inr (HashH b1) \<and> TxHash HashH m2 = Inr (HashH b2) \<and>
    (b1 = b2 \<longleftrightarrow> tx_prefix m1 = tx_prefix m2)"
proof -
  have "TxHash HashH m = Inr (HashH (tx_bytes (m\<lparr>SerType := TxSerializeNoWitness\<rparr>)))" for m
    by (simp add: TxHash_def mustSerialize_def tx_serialize_eq ser_ok_def)
  then show ?thesis using tx_prefix_bytes [OF assms] by blast
qed

theorem tx_hash_commits_witness:
  "\<exists>b1 b2. TxHash (\<lambda>b. b) ex_tx = Inr b1 \<and> TxHash (\<lambda>b. b) (ex_tx\<lparr>LockTime := 1\<rparr>) = Inr b2 \<and> b1 \<noteq> b2"
proof -
  have "prefix_ok ex_tx" using ex_tx_ok by (simp add: tx_ok_def ex_tx_def AddTxOut_def AddTxIn_def
        NewMsgTx_def ser_type_defs)
  moreover have "tx_prefix ex_tx \<noteq> tx_prefix (ex_tx\<lparr>LockTime := 1\<rparr>)" by code_simp
  ultimately show ?thesis
    using tx_hash_commits [of ex_tx "ex_tx\<lparr>LockTime := 1\<rparr>" "\<lambda>b. b"] by (simp add: prefix_ok_def)
qed

section \<open>A write error that is lost\<close>

text \<open>A writer whose \<open>k\<close>-th call fails and writes nothing.\<close>

definition failing_write :: "nat \<Rightarrow> (byte list \<times> nat) writer" where
  "failing_write k w bs =
     (if snd w = k then ((fst w, Suc k), Some WriteError) else ((fst w @ bs, Suc (snd w)), None))"

text \<open>
  C30: An error of the underlying writer can be lost.  When the write of the block
  index fails, \<open>writeTxInWitness\<close> goes on and returns no error, and the
  four bytes are missing from the output.
\<close>

theorem block_index_error_lost:
  assumes "length (SignatureScript ti) < 0xfd"
  shows "\<exists>n. writeTxInWitness (failing_write 2) ti ([], 0) =
    ((le_bytes 8 (unat (ValueIn ti)) @ le_bytes 4 (unat (BlockHeight ti)) @
      counted_bytes (SignatureScript ti), n), None)"
proof -
  have "(word_of_nat (length (SignatureScript ti)) :: uint64) < 0xfd"
    using assms by (simp add: word_less_nat_alt unat_of_nat)
  then show ?thesis
    by (simp add: writeTxInWitness_def seqW_def ignoreW_def PutUint64_def PutUint32_def PutUint8_def
        failing_write_def WriteVarBytes_def WriteVarInt_def counted_bytes_def varint_bytes_def)
qed

theorem block_index_error_lost_witness:
  "\<exists>n. writeTxInWitness (failing_write 2) (NewTxIn zero_OutPoint 5 [0x51]) ([], 0) =
     (([5, 0, 0, 0, 0, 0, 0, 0, 0, 0, 0, 0, 1, 0x51], n), None)"
proof -
  have "le_bytes 8 (unat (5 :: uint64)) @ le_bytes 4 (unat (0 :: uint32)) @ counted_bytes [0x51] =
      [5, 0, 0, 0, 0, 0, 0, 0, 0, 0, 0, 0, 1, 0x51]" by code_simp
  then show ?thesis
    using block_index_error_lost [of "NewTxIn zero_OutPoint 5 [0x51]"]
    by (simp add: NewTxIn_def NullBlockHeight_def)
qed

end
