(* ===== verification/MsgBlock.thy ===== *)
theory MsgBlock
  imports BlockHeader MsgTx
begin

text \<open>
  Blocks, after \<open>src/wire/msgblock.go\<close>: the header followed by the
  regular and the stake transactions, the locations of the transactions in the
  serialized block, sizes and hashes.
\<close>

record MsgBlock =
  Header :: BlockHeader
  Transactions :: "MsgTx list"
  STransactions :: "MsgTx list"

record TxLoc =
  TxStart :: nat
  TxLen :: nat

definition MaxBlockPayloadV3 :: nat where
  "MaxBlockPayloadV3 = 1000000"

definition MaxBlockPayload :: nat where
  "MaxBlockPayload = 1310720"

definition ProtocolVersion :: uint32 where
  "ProtocolVersion = 6"

definition MaxTxPerTxTree :: "uint32 \<Rightarrow> nat" where
  "MaxTxPerTxTree pver =
     (if pver \<le> 3 then (MaxBlockPayloadV3 div minTxPayload) div 2 + 1
      else (MaxBlockPayload div minTxPayload) div 2 + 1)"

definition AddTransaction :: "MsgBlock \<Rightarrow> MsgTx \<Rightarrow> MsgBlock" where
  "AddTransaction msg tx = msg\<lparr>Transactions := Transactions msg @ [tx]\<rparr>"

definition AddSTransaction :: "MsgBlock \<Rightarrow> MsgTx \<Rightarrow> MsgBlock" where
  "AddSTransaction msg tx = msg\<lparr>STransactions := STransactions msg @ [tx]\<rparr>"

definition ClearTransactions :: "MsgBlock \<Rightarrow> MsgBlock" where
  "ClearTransactions msg = msg\<lparr>Transactions := []\<rparr>"

definition ClearSTransactions :: "MsgBlock \<Rightarrow> MsgBlock" where
  "ClearSTransactions msg = msg\<lparr>STransactions := []\<rparr>"

definition NewMsgBlock :: "BlockHeader \<Rightarrow> MsgBlock" where
  "NewMsgBlock blockHeader = \<lparr>Header = blockHeader, Transactions = [], STransactions = []\<rparr>"

text \<open>Each transaction is decoded into a new variable.\<close>

definition MsgBlock_BtcDecode :: "uint32 \<Rightarrow> MsgBlock \<Rightarrow> MsgBlock reader" where
  "MsgBlock_BtcDecode pver msg =
     bindR (readBlockHeader (Header msg)) (\<lambda>header.
       bindR ReadVarInt (\<lambda>txCount.
         if unat txCount > MaxTxPerTxTree pver
         then failR (MessageError ''MsgBlock.BtcDecode'' ''too many transactions to fit into a block'')
         else bindR (repeatR (unat txCount) (MsgTx_BtcDecode zero_MsgTx)) (\<lambda>txs.
           bindR ReadVarInt (\<lambda>stakeTxCount.
             if unat stakeTxCount > MaxTxPerTxTree pver
             then failR (MessageError ''MsgBlock.BtcDecode'' ''too many stransactions to fit into a block'')
             else bindR (repeatR (unat stakeTxCount) (MsgTx_BtcDecode zero_MsgTx)) (\<lambda>stxs.
               returnR (msg\<lparr>Header := header, Transactions := txs, STransactions := stxs\<rparr>))))))"

definition MsgBlock_Deserialize :: "MsgBlock \<Rightarrow> MsgBlock reader" where
  "MsgBlock_Deserialize msg = MsgBlock_BtcDecode 0 msg"

definition MsgBlock_FromBytes :: "MsgBlock \<Rightarrow> byte list \<Rightarrow> io_error + MsgBlock" where
  "MsgBlock_FromBytes msg b = bindE (MsgBlock_Deserialize msg b) (\<lambda>(msg', r). Inr msg')"

text \<open>
  The loop of \<open>DeserializeTxLoc\<close>: \<open>fullLen - r.Len()\<close> is the
  offset of the next byte to read.
\<close>

fun read_located :: "nat \<Rightarrow> nat \<Rightarrow> (MsgTx \<times> TxLoc) list reader" where
  "read_located fullLen 0 r = Inr ([], r)"
| "read_located fullLen (Suc n) r =
     (let start = fullLen - length r in
      bindE (MsgTx_Deserialize zero_MsgTx r) (\<lambda>(tx, r').
        bindE (read_located fullLen n r') (\<lambda>(rest, r'').
          Inr ((tx, \<lparr>TxStart = start, TxLen = (fullLen - length r') - start\<rparr>) # rest, r''))))"

definition DeserializeTxLoc :: "MsgBlock \<Rightarrow> byte list \<Rightarrow> io_error + MsgBlock \<times> TxLoc list \<times> TxLoc list" where
  "DeserializeTxLoc msg r =
     (let fullLen = length r; maxTxPerTree = MaxTxPerTxTree ProtocolVersion in
      bindE (readBlockHeader (Header msg) r) (\<lambda>(header, r).
        bindE (ReadVarInt r) (\<lambda>(txCount, r).
          if unat txCount > maxTxPerTree
          then Inl (MessageError ''MsgBlock.DeserializeTxLoc'' ''too many transactions to fit into a block'')
          else bindE (read_located fullLen (unat txCount) r) (\<lambda>(txs, r).
            bindE (ReadVarInt r) (\<lambda>(stakeTxCount, r).
              if unat stakeTxCount > maxTxPerTree
              then Inl (MessageError ''MsgBlock.DeserializeTxLoc'' ''too many transactions to fit into a stake tx tree'')
              else bindE (read_located fullLen (unat stakeTxCount) r) (\<lambda>(stxs, r).
                Inr (msg\<lparr>Header := header, Transactions := map fst txs, STransactions := map fst stxs\<rparr>,
                  map snd txs, map snd stxs)))))))"

definition MsgBlock_BtcEncode :: "'w writer \<Rightarrow> MsgBlock \<Rightarrow> 'w action" where
  "MsgBlock_BtcEncode wr msg =
     seqW (writeBlockHeader wr (Header msg))
      (seqW (WriteVarInt wr (word_of_nat (length (Transactions msg))))
        (seqW (forW (MsgTx_BtcEncode wr) (Transactions msg))
          (seqW (WriteVarInt wr (word_of_nat (length (STransactions msg))))
            (forW (MsgTx_BtcEncode wr) (STransactions msg)))))"

definition MsgBlock_Serialize :: "'w writer \<Rightarrow> MsgBlock \<Rightarrow> 'w action" where
  "MsgBlock_Serialize wr msg = MsgBlock_BtcEncode wr msg"

definition MsgBlock_Bytes :: "MsgBlock \<Rightarrow> io_error + byte list" where
  "MsgBlock_Bytes msg =
     (case MsgBlock_Serialize Buffer_Write msg [] of
        (buf, None) \<Rightarrow> Inr buf
      | (buf, Some err) \<Rightarrow> Inl err)"

definition MsgBlock_SerializeSize :: "MsgBlock \<Rightarrow> nat" where
  "MsgBlock_SerializeSize msg =
     blockHeaderLen + VarIntSerializeSize (word_of_nat (length (Transactions msg))) +
     VarIntSerializeSize (word_of_nat (length (STransactions msg))) +
     sum_list (map MsgTx_SerializeSize (Transactions msg)) +
     sum_list (map MsgTx_SerializeSize (STransactions msg))"

definition MsgBlock_MaxPayloadLength :: "uint32 \<Rightarrow> nat" where
  "MsgBlock_MaxPayloadLength pver = (if pver \<le> 3 then MaxBlockPayloadV3 else MaxBlockPayload)"

definition MsgBlock_BlockHash :: "(byte list \<Rightarrow> hash) \<Rightarrow> MsgBlock \<Rightarrow> hash" where
  "MsgBlock_BlockHash HashH msg = BlockHash HashH (Header msg)"

fun tx_hashes :: "(byte list \<Rightarrow> hash) \<Rightarrow> MsgTx list \<Rightarrow> io_error + hash list" where
  "tx_hashes HashH [] = Inr []"
| "tx_hashes HashH (tx # txs) =
     bindE (TxHash HashH tx) (\<lambda>h. bindE (tx_hashes HashH txs) (\<lambda>hs. Inr (h # hs)))"

definition TxHashes :: "(byte list \<Rightarrow> hash) \<Rightarrow> MsgBlock \<Rightarrow> io_error + hash list" where
  "TxHashes HashH msg = tx_hashes HashH (Transactions msg)"

definition STxHashes :: "(byte list \<Rightarrow> hash) \<Rightarrow> MsgBlock \<Rightarrow> io_error + hash list" where
  "STxHashes HashH msg = tx_hashes HashH (STransactions msg)"

section \<open>The block encoding is canonical\<close>

definition block_bytes :: "MsgBlock \<Rightarrow> byte list" where
  "block_bytes msg = header_bytes (Header msg) @
     varint_bytes (word_of_nat (length (Transactions msg))) @
     concat (map tx_bytes (Transactions msg)) @
     varint_bytes (word_of_nat (length (STransactions msg))) @
     concat (map tx_bytes (STransactions msg))"

text \<open>A transaction as it is decoded into a new variable.\<close>

definition fresh_tx :: "MsgTx \<Rightarrow> bool" where
  "fresh_tx tx \<longleftrightarrow> tx_ok tx \<and> tx_view zero_MsgTx tx = tx"

definition block_ok :: "uint32 \<Rightarrow> MsgBlock \<Rightarrow> MsgBlock \<Rightarrow> bool" where
  "block_ok pver msg0 msg \<longleftrightarrow>
     header_ok (Header msg0) (Header msg) \<and>
     length (Transactions msg) \<le> MaxTxPerTxTree pver \<and>
     length (STransactions msg) \<le> MaxTxPerTxTree pver \<and>
     list_all fresh_tx (Transactions msg) \<and> list_all fresh_tx (STransactions msg)"

lemma tree_limits: "MaxTxPerTxTree pver = (if pver \<le> 3 then 33334 else 43691)"
  by (simp add: MaxTxPerTxTree_def MaxBlockPayloadV3_def MaxBlockPayload_def minTxPayload_def)

lemma tree_count: "n \<le> MaxTxPerTxTree pver \<Longrightarrow> unat (word_of_nat n :: uint64) = n"
  by (auto simp: tree_limits unat_of_nat split: if_splits)

lemma MsgTx_fresh_enc: "fresh_tx tx \<Longrightarrow> MsgTx_BtcDecode zero_MsgTx (tx_bytes tx @ r) = Inr (tx, r)"
  by (rule tx.dec_enc) (simp add: fresh_tx_def)

lemma MsgTx_fresh_inv:
  "MsgTx_BtcDecode zero_MsgTx b = Inr (tx, r) \<Longrightarrow> fresh_tx tx \<and> b = tx_bytes tx @ r"
  using tx.dec_inv [of zero_MsgTx b tx r] by (simp add: fresh_tx_def)

interpretation fresh: canonical_codec tx_bytes "MsgTx_BtcDecode zero_MsgTx" fresh_tx
  by unfold_locales (simp_all add: MsgTx_fresh_enc MsgTx_fresh_inv)

lemma MsgBlock_decode_bytes:
  assumes "block_ok pver msg0 msg"
  shows "MsgBlock_BtcDecode pver msg0 (block_bytes msg @ r) = Inr (msg, r)"
proof -
  have h: "header_ok (Header msg0) (Header msg)" using assms by (simp add: block_ok_def)
  show ?thesis
    using assms
    by (simp add: MsgBlock_BtcDecode_def block_bytes_def bindR_def header.dec_enc [OF h]
        block_ok_def tree_count [of _ pver] fresh.repeat_enc)
qed

lemma MsgBlock_decode_inv:
  assumes "MsgBlock_BtcDecode pver msg0 b = Inr (msg, r)"
  shows "block_ok pver msg0 msg \<and> b = block_bytes msg @ r"
proof -
  from assms obtain header b1 c b2 txs b3 c' b4 stxs where
    p: "readBlockHeader (Header msg0) b = Inr (header, b1)"
      "ReadVarInt b1 = Inr (c, b2)" "\<not> unat c > MaxTxPerTxTree pver"
      "repeatR (unat c) (MsgTx_BtcDecode zero_MsgTx) b2 = Inr (txs, b3)"
      "ReadVarInt b3 = Inr (c', b4)" "\<not> unat c' > MaxTxPerTxTree pver"
      "repeatR (unat c') (MsgTx_BtcDecode zero_MsgTx) b4 = Inr (stxs, r)"
      "msg = msg0\<lparr>Header := header, Transactions := txs, STransactions := stxs\<rparr>"
    by (auto simp: MsgBlock_BtcDecode_def bindR_eq_Inr_iff split: if_splits)
  note i = fresh.repeat_inv [OF p(4)] and j = fresh.repeat_inv [OF p(7)]
  have "word_of_nat (length txs) = c" "word_of_nat (length stxs) = c'" using i j by simp_all
  then show ?thesis
    using p(3,6,8) i j header.dec_inv [OF p(1)] varint_bytes_inv [OF p(2)] varint_bytes_inv [OF p(5)]
    by (simp add: block_ok_def block_bytes_def)
qed

interpretation block: canonical_codec block_bytes "MsgBlock_BtcDecode pver msg0" "block_ok pver msg0"
  for pver msg0
  by unfold_locales (simp_all add: MsgBlock_decode_bytes MsgBlock_decode_inv)

definition sers_ok :: "MsgBlock \<Rightarrow> bool" where
  "sers_ok msg \<longleftrightarrow> list_all ser_ok (Transactions msg) \<and> list_all ser_ok (STransactions msg)"

lemma MsgBlock_Bytes_eq:
  assumes "sers_ok msg"
  shows "MsgBlock_Bytes msg = Inr (block_bytes msg)"
proof -
  have "writes id (MsgBlock_BtcEncode Buffer_Write msg) (block_bytes msg)"
    unfolding MsgBlock_BtcEncode_def block_bytes_def
    by (intro writes_seqW writes_header buffer.writes_WriteVarInt writes_forW buffer.writes_BtcEncode)
      (use assms in \<open>auto simp: sers_ok_def list_all_iff\<close>)
  from writes_buffer [OF this, of "[]"] show ?thesis
    by (simp add: MsgBlock_Bytes_def MsgBlock_Serialize_def)
qed

lemma fresh_ser_ok: "list_all fresh_tx txs \<Longrightarrow> list_all ser_ok txs"
  by (auto simp: list_all_iff fresh_tx_def tx_ok_def)

lemma length_fresh_txs:
  assumes "list_all fresh_tx txs"
  shows "length (concat (map tx_bytes txs)) = sum_list (map MsgTx_SerializeSize txs)"
proof -
  have "length (tx_bytes tx) = MsgTx_SerializeSize tx" if "fresh_tx tx" for tx
    using that by (intro length_tx_bytes) (auto simp: fresh_tx_def tx_ok_def hashes_typed_def prefix_ok_def)
  then show ?thesis using assms by (induction txs) simp_all
qed

lemma length_block_bytes: "block_ok pver msg0 msg \<Longrightarrow> length (block_bytes msg) = MsgBlock_SerializeSize msg"
  by (simp add: block_ok_def block_bytes_def MsgBlock_SerializeSize_def header_ok_def
      length_header_bytes length_fresh_txs)

section \<open>Locations of the transactions\<close>

definition at_loc :: "byte list \<Rightarrow> MsgTx \<Rightarrow> TxLoc \<Rightarrow> bool" where
  "at_loc b tx loc \<longleftrightarrow> TxStart loc + TxLen loc \<le> length b \<and>
     take (TxLen loc) (drop (TxStart loc) b) = tx_bytes tx"

text \<open>
  The located reads are the plain ones, and each location holds the bytes of
  its transaction.
\<close>

lemma read_located_plain:
  assumes "repeatR n (MsgTx_BtcDecode zero_MsgTx) r = Inr (txs, r')"
  shows "\<exists>locs. length locs = length txs \<and> read_located fullLen n r = Inr (zip txs locs, r')"
  using assms
proof (induction n arbitrary: r txs)
  case (Suc n)
  from Suc.prems obtain tx r1 rest where t: "MsgTx_BtcDecode zero_MsgTx r = Inr (tx, r1)"
      "repeatR n (MsgTx_BtcDecode zero_MsgTx) r1 = Inr (rest, r')" "txs = tx # rest"
    by (auto simp: bindR_eq_Inr_iff)
  from Suc.IH [OF t(2)] obtain locs where
    "length locs = length rest" "read_located fullLen n r1 = Inr (zip rest locs, r')" by blast
  with t show ?case
    by (intro exI [of _ "\<lparr>TxStart = fullLen - length r,
        TxLen = fullLen - length r1 - (fullLen - length r)\<rparr> # locs"])
      (simp add: MsgTx_Deserialize_def Let_def)
qed auto

lemma read_located_inv:
  assumes "read_located fullLen n r = Inr (ls, r')" and "b = pre @ r" and "fullLen = length b"
  shows "repeatR n (MsgTx_BtcDecode zero_MsgTx) r = Inr (map fst ls, r') \<and>
    (\<exists>mid. r = mid @ r') \<and> list_all (\<lambda>(tx, loc). at_loc b tx loc) ls"
  using assms
proof (induction n arbitrary: r pre ls)
  case (Suc n)
  from Suc.prems(1) obtain tx r1 rest where t: "MsgTx_BtcDecode zero_MsgTx r = Inr (tx, r1)"
      "read_located fullLen n r1 = Inr (rest, r')"
      "ls = (tx, \<lparr>TxStart = fullLen - length r, TxLen = fullLen - length r1 - (fullLen - length r)\<rparr>) # rest"
    by (auto simp: bindE_eq_Inr_iff MsgTx_Deserialize_def Let_def)
  have r: "r = tx_bytes tx @ r1" using MsgTx_fresh_inv [OF t(1)] by simp
  have "at_loc b tx \<lparr>TxStart = fullLen - length r, TxLen = fullLen - length r1 - (fullLen - length r)\<rparr>"
    using Suc.prems(2,3) r by (simp add: at_loc_def)
  moreover have "b = (pre @ tx_bytes tx) @ r1" using Suc.prems(2) r by simp
  ultimately show ?case
    using Suc.IH [OF t(2) _ Suc.prems(3), of "pre @ tx_bytes tx"] t(1,3) r
    by (auto simp: bindR_def)
qed auto

lemma DeserializeTxLoc_decodes:
  assumes "MsgBlock_BtcDecode ProtocolVersion msg0 b = Inr (msg, r)"
  shows "\<exists>locs slocs. DeserializeTxLoc msg0 b = Inr (msg, locs, slocs)"
proof -
  from assms obtain header b1 c b2 txs b3 c' b4 stxs where
    p: "readBlockHeader (Header msg0) b = Inr (header, b1)"
      "ReadVarInt b1 = Inr (c, b2)" "\<not> unat c > MaxTxPerTxTree ProtocolVersion"
      "repeatR (unat c) (MsgTx_BtcDecode zero_MsgTx) b2 = Inr (txs, b3)"
      "ReadVarInt b3 = Inr (c', b4)" "\<not> unat c' > MaxTxPerTxTree ProtocolVersion"
      "repeatR (unat c') (MsgTx_BtcDecode zero_MsgTx) b4 = Inr (stxs, r)"
      "msg = msg0\<lparr>Header := header, Transactions := txs, STransactions := stxs\<rparr>"
    by (auto simp: MsgBlock_BtcDecode_def bindR_eq_Inr_iff split: if_splits)
  obtain locs slocs where l: "length locs = length txs" "read_located (length b) (unat c) b2 = Inr (zip txs locs, b3)"
      "length slocs = length stxs" "read_located (length b) (unat c') b4 = Inr (zip stxs slocs, r)"
    using read_located_plain [OF p(4)] read_located_plain [OF p(7)] by blast
  with p show ?thesis by (simp add: DeserializeTxLoc_def Let_def)
qed

lemma DeserializeTxLoc_inv:
  assumes "DeserializeTxLoc msg0 b = Inr (msg, locs, slocs)"
  shows "(\<exists>r. MsgBlock_BtcDecode ProtocolVersion msg0 b = Inr (msg, r)) \<and>
    list_all2 (at_loc b) (Transactions msg) locs \<and> list_all2 (at_loc b) (STransactions msg) slocs"
proof -
  from assms obtain header b1 c b2 ls b3 c' b4 sls r where
    p: "readBlockHeader (Header msg0) b = Inr (header, b1)"
      "ReadVarInt b1 = Inr (c, b2)" "\<not> unat c > MaxTxPerTxTree ProtocolVersion"
      "read_located (length b) (unat c) b2 = Inr (ls, b3)"
      "ReadVarInt b3 = Inr (c', b4)" "\<not> unat c' > MaxTxPerTxTree ProtocolVersion"
      "read_located (length b) (unat c') b4 = Inr (sls, r)"
      "msg = msg0\<lparr>Header := header, Transactions := map fst ls, STransactions := map fst sls\<rparr>"
      "locs = map snd ls" "slocs = map snd sls"
    by (auto simp: DeserializeTxLoc_def Let_def bindE_eq_Inr_iff split: if_splits)
  have b2: "b = (header_bytes header @ varint_bytes c) @ b2"
    using header.dec_inv [OF p(1)] varint_bytes_inv [OF p(2)] by simp
  note i = read_located_inv [OF p(4) b2 refl]
  then obtain mid where "b2 = mid @ b3" by blast
  then have b4: "b = (header_bytes header @ varint_bytes c @ mid @ varint_bytes c') @ b4"
    using b2 varint_bytes_inv [OF p(5)] by simp
  note j = read_located_inv [OF p(7) b4 refl]
  have "list_all2 P (map fst zs) (map snd zs) \<longleftrightarrow> list_all (\<lambda>(x, y). P x y) zs" for P :: "MsgTx \<Rightarrow> TxLoc \<Rightarrow> bool" and zs
    by (induction zs) auto
  with i j p show ?thesis by (simp add: MsgBlock_BtcDecode_def bindR_def)
qed

section \<open>Properties\<close>

text \<open>
  C27: Decoding a block succeeds with a given result if and only if the input
  starts with the bytes that serializing the result gives, as many as
  \<open>SerializeSize\<close> announces, and the block is one the decoder admits: a
  header with a 32-bit time, at most \<open>MaxTxPerTxTree\<close> transactions in
  each tree, every transaction within its limits.
\<close>

theorem block_codec:
  "MsgBlock_BtcDecode pver msg0 b = Inr (msg, r) \<longleftrightarrow>
     block_ok pver msg0 msg \<and>
     (\<exists>bs. MsgBlock_Bytes msg = Inr bs \<and> length bs = MsgBlock_SerializeSize msg \<and> b = bs @ r)"
proof -
  have "MsgBlock_Bytes msg = Inr (block_bytes msg)" if "block_ok pver msg0 msg"
    using that by (intro MsgBlock_Bytes_eq) (simp add: sers_ok_def block_ok_def fresh_ser_ok)
  then show ?thesis
    using MsgBlock_decode_inv [of pver msg0 b msg r] MsgBlock_decode_bytes [of pver msg0 msg r]
      length_block_bytes [of pver msg0 msg] by auto
qed

text \<open>
  C28: The locations that \<open>DeserializeTxLoc\<close> returns are right: there is
  one for every transaction of each tree, it lies within the input, and the
  bytes it delimits are the serialization of that transaction.
\<close>

theorem block_tx_locations:
  assumes "DeserializeTxLoc msg0 b = Inr (msg, locs, slocs)"
  shows "list_all2 (\<lambda>tx loc. TxStart loc + TxLen loc \<le> length b \<and>
           MsgTx_Bytes tx = Inr (take (TxLen loc) (drop (TxStart loc) b)))
         (Transactions msg @ STransactions msg) (locs @ slocs)"
proof -
  note inv = DeserializeTxLoc_inv [OF assms]
  then obtain r where "MsgBlock_BtcDecode ProtocolVersion msg0 b = Inr (msg, r)" by blast
  then have "list_all ser_ok (Transactions msg @ STransactions msg)"
    using MsgBlock_decode_inv [of ProtocolVersion msg0 b msg r] by (simp add: block_ok_def fresh_ser_ok)
  then have ser: "ser_ok ((Transactions msg @ STransactions msg) ! i)"
    if "i < length (Transactions msg @ STransactions msg)" for i
    using that unfolding list_all_length by blast
  have "list_all2 (at_loc b) (Transactions msg @ STransactions msg) (locs @ slocs)"
    using inv by (blast intro: list_all2_appendI)
  then show ?thesis
    unfolding list_all2_conv_all_nth at_loc_def by (metis MsgTx_Bytes_eq ser)
qed

definition ex_block :: "nat \<Rightarrow> MsgBlock" where
  "ex_block n = \<lparr>Header = ex_header, Transactions = replicate n ex_tx, STransactions = [ex_tx]\<rparr>"

lemma ex_block_ok: "n \<le> MaxTxPerTxTree pver \<Longrightarrow> block_ok pver (NewMsgBlock ex_header) (ex_block n)"
proof -
  have "header_ok ex_header ex_header"
    by (simp add: header_ok_def ex_header_def NewBlockHeader_def header_typed_def is_hash_def HashSize_def)
  moreover have "tx_view zero_MsgTx ex_tx = ex_tx" by code_simp
  then have "fresh_tx ex_tx" by (simp add: fresh_tx_def ex_tx_ok)
  ultimately show "n \<le> MaxTxPerTxTree pver \<Longrightarrow> ?thesis"
    by (simp add: block_ok_def ex_block_def NewMsgBlock_def list_all_iff tree_limits)
qed

theorem block_tx_locations_witness:
  "\<exists>locs slocs. DeserializeTxLoc (NewMsgBlock ex_header) (block_bytes (ex_block 2)) =
      Inr (ex_block 2, locs, slocs) \<and>
    list_all2 (\<lambda>tx loc. TxStart loc + TxLen loc \<le> length (block_bytes (ex_block 2)) \<and>
        MsgTx_Bytes tx = Inr (take (TxLen loc) (drop (TxStart loc) (block_bytes (ex_block 2)))))
      [ex_tx, ex_tx, ex_tx] (locs @ slocs)"
proof -
  have "block_ok ProtocolVersion (NewMsgBlock ex_header) (ex_block 2)"
    by (rule ex_block_ok) (simp add: tree_limits)
  from MsgBlock_decode_bytes [OF this, of "[]"] obtain locs slocs where
    l: "DeserializeTxLoc (NewMsgBlock ex_header) (block_bytes (ex_block 2)) = Inr (ex_block 2, locs, slocs)"
    using DeserializeTxLoc_decodes by fastforce
  then show ?thesis
    using block_tx_locations [OF l] by (auto simp: ex_block_def numeral_2_eq_2)
qed

text \<open>
  C29: \<open>DeserializeTxLoc\<close> and \<open>Deserialize\<close> differ.  A block with
  more transactions in its regular tree than protocol version 3 allows, and no
  more than the current version allows, is accepted by the first and refused by
  the second, which decodes with protocol version 0.
\<close>

theorem tx_loc_accepts_more:
  assumes "block_ok ProtocolVersion msg0 msg" and "length (Transactions msg) > MaxTxPerTxTree 0"
  shows "(\<exists>bs locs slocs. MsgBlock_Bytes msg = Inr bs \<and> DeserializeTxLoc msg0 bs = Inr (msg, locs, slocs) \<and>
      MsgBlock_FromBytes msg0 bs =
        Inl (MessageError ''MsgBlock.BtcDecode'' ''too many transactions to fit into a block''))"
proof -
  have "MsgBlock_Bytes msg = Inr (block_bytes msg)"
    using assms(1) by (intro MsgBlock_Bytes_eq) (simp add: sers_ok_def block_ok_def fresh_ser_ok)
  moreover obtain locs slocs where "DeserializeTxLoc msg0 (block_bytes msg) = Inr (msg, locs, slocs)"
    using DeserializeTxLoc_decodes [of msg0 "block_bytes msg" msg "[]"]
      MsgBlock_decode_bytes [OF assms(1), of "[]"] by auto
  moreover have h: "header_ok (Header msg0) (Header msg)" using assms(1) by (simp add: block_ok_def)
  moreover have "unat (word_of_nat (length (Transactions msg)) :: uint64) = length (Transactions msg)"
    using assms(1) by (intro tree_count [of _ ProtocolVersion]) (simp add: block_ok_def)
  ultimately show ?thesis
    using assms(2)
    by (simp add: MsgBlock_FromBytes_def MsgBlock_Deserialize_def MsgBlock_BtcDecode_def bindR_def
        block_bytes_def header.dec_enc [OF h])
qed

theorem tx_loc_accepts_more_witness:
  "\<exists>bs locs slocs. MsgBlock_Bytes (ex_block 40000) = Inr bs \<and>
     DeserializeTxLoc (NewMsgBlock ex_header) bs = Inr (ex_block 40000, locs, slocs) \<and>
     MsgBlock_FromBytes (NewMsgBlock ex_header) bs =
       Inl (MessageError ''MsgBlock.BtcDecode'' ''too many transactions to fit into a block'')"
proof (rule tx_loc_accepts_more)
  show "block_ok ProtocolVersion (NewMsgBlock ex_header) (ex_block 40000)"
    by (rule ex_block_ok) (simp add: tree_limits ProtocolVersion_def)
  show "length (Transactions (ex_block 40000)) > MaxTxPerTxTree 0"
    by (simp add: ex_block_def tree_limits)
qed

end
