(* ===== verification/ScriptNum.thy ===== *)
theory ScriptNum
  imports Prelude
begin

text \<open>
  Numbers of the script language, after \<open>src/txscript/scriptnum.go\<close>, and
  the errors of \<open>src/txscript/error.go\<close>, grouped as they are there.  A
  \<open>scriptNum\<close> is an \<open>int64\<close>; it is an integer here, with the
  wrap-around of its negation written out.  Numbers are encoded in little-endian
  sign and magnitude, and only the shortest encoding is accepted.
\<close>

unbundle bit_operations_syntax

section \<open>Errors\<close>

datatype api_error =
    ErrInvalidIndex | ErrInvalidSigHashSingleIndex | ErrUnsupportedAddress | ErrNotMultisigScript
  | ErrTooManyRequiredSigs | ErrMalformedCoinbaseNullData | ErrTooMuchNullData

datatype final_error =
    ErrEarlyReturn | ErrEmptyStack | ErrEvalFalse | ErrScriptUnfinished | ErrInvalidProgramCounter

datatype limit_error =
    ErrScriptTooBig | ErrElementTooBig | ErrTooManyOperations | ErrStackOverflow
  | ErrInvalidPubKeyCount | ErrInvalidSignatureCount | ErrNumOutOfRange

datatype verify_error =
    ErrVerify | ErrEqualVerify | ErrNumEqualVerify | ErrCheckSigVerify | ErrCheckMultiSigVerify

datatype opcode_error =
    ErrP2SHStakeOpCodes | ErrDisabledOpcode | ErrReservedOpcode | ErrMalformedPush
  | ErrInvalidStackOperation | ErrUnbalancedConditional | ErrNegativeSubstrIdx
  | ErrOverflowSubstrIdx | ErrNegativeRotation | ErrOverflowRotation | ErrDivideByZero
  | ErrNegativeShift | ErrOverflowShift

datatype malleability_error =
    ErrMinimalData | ErrInvalidSigHashType | ErrSigTooShort | ErrSigTooLong | ErrSigInvalidSeqID
  | ErrSigInvalidDataLen | ErrSigMissingSTypeID | ErrSigMissingSLen | ErrSigInvalidSLen
  | ErrSigInvalidRIntID | ErrSigZeroRLen | ErrSigNegativeR | ErrSigTooMuchRPadding
  | ErrSigInvalidSIntID | ErrSigZeroSLen | ErrSigNegativeS | ErrSigTooMuchSPadding | ErrSigHighS
  | ErrNotPushOnly | ErrPubKeyType | ErrCleanStack

datatype softfork_error =
    ErrDiscourageUpgradableNOPs | ErrNegativeLockTime | ErrUnsatisfiedLockTime

text \<open>
  \<open>PlainErr\<close> stands for an error made by \<open>fmt.Errorf\<close> or handed on from another
  package, which has no code of this package; \<open>IndexPanic\<close> for a run-time panic of
  an index or slice expression.
\<close>

datatype script_error =
    ErrInternal
  | ApiErr api_error
  | FinalErr final_error
  | LimitErr limit_error
  | VerifyErr verify_error
  | OpcodeErr opcode_error
  | MalleabilityErr malleability_error
  | SoftForkErr softfork_error
  | PlainErr
  | IndexPanic

section \<open>Numbers\<close>

type_synonym scriptNum = int

definition maxInt32 :: int where
  "maxInt32 = 2 ^ 31 - 1"

definition minInt32 :: int where
  "minInt32 = - (2 ^ 31)"

definition mathOpCodeMaxScriptNumLen :: nat where
  "mathOpCodeMaxScriptNumLen = 4"

definition altSigSuitesMaxscriptNumLen :: nat where
  "altSigSuitesMaxscriptNumLen = 1"

text \<open>Arithmetic of \<open>int64\<close> wraps around.\<close>

definition wrap64 :: "int \<Rightarrow> int" where
  "wrap64 n = signed_take_bit 63 n"

definition checkMinimalDataEncoding :: "byte list \<Rightarrow> script_error + unit" where
  "checkMinimalDataEncoding v =
     (if length v = 0 then Inr ()
      else if v ! (length v - 1) AND 0x7f = 0 then
        if length v = 1 \<or> v ! (length v - 2) AND 0x80 = 0
        then Inl (MalleabilityErr ErrMinimalData)
        else Inr ()
      else Inr ())"

text \<open>\<open>for n > 0 { result = append(result, byte(n&0xff)); n >>= 8 }\<close>\<close>

function num_digits :: "int \<Rightarrow> byte list" where
  "num_digits n = (if n > 0 then word_of_int (n AND 0xff) # num_digits (drop_bit 8 n) else [])"
  by auto

termination
proof (relation "measure nat")
  fix n :: int
  assume "0 < n"
  then have "n div 256 < n" by simp
  with \<open>0 < n\<close> show "(drop_bit 8 n, n) \<in> measure nat" by (simp add: drop_bit_eq_div)
qed simp

declare num_digits.simps [simp del]

definition scriptNum_Bytes :: "scriptNum \<Rightarrow> script_error + byte list" where
  "scriptNum_Bytes n =
     (if n = 0 then Inr []
      else
        let isNegative = n < 0;
            m = (if isNegative then wrap64 (- n) else n);
            result = num_digits m
        in
        if result = [] then Inl IndexPanic
        else if result ! (length result - 1) AND 0x80 \<noteq> 0
        then Inr (result @ [if isNegative then 0x80 else 0x00])
        else if isNegative
        then Inr (result[length result - 1 := result ! (length result - 1) OR 0x80])
        else Inr result)"

definition scriptNum_Int32 :: "scriptNum \<Rightarrow> int" where
  "scriptNum_Int32 n = (if n > maxInt32 then maxInt32 else if n < minInt32 then minInt32 else n)"

text \<open>\<open>for i, val := range v { result |= int64(val) << uint8(8*i) }\<close>\<close>

fun num_bits :: "nat \<Rightarrow> byte list \<Rightarrow> uint64" where
  "num_bits i [] = 0"
| "num_bits i (val # v) = push_bit (8 * i mod 256) (ucast val) OR num_bits (Suc i) v"

definition makeScriptNum :: "byte list \<Rightarrow> nat \<Rightarrow> script_error + scriptNum" where
  "makeScriptNum v scriptNumLen =
     (if length v > scriptNumLen then Inl (LimitErr ErrNumOutOfRange)
      else bindE (checkMinimalDataEncoding v) (\<lambda>_.
        if length v = 0 then Inr 0
        else
          let result = num_bits 0 v in
          if v ! (length v - 1) AND 0x80 \<noteq> 0
          then Inr (sint (- (result AND NOT (push_bit (8 * (length v - 1) mod 256) 0x80))))
          else Inr (sint result)))"

section \<open>The value of an encoding\<close>

lemma of_le_bytes_snoc: "of_le_bytes (u @ [b]) = of_le_bytes u + 256 ^ length u * unat b"
  by (induction u) (simp_all add: algebra_simps)

lemma byte_less: "unat (b :: byte) < 256"
  using unsigned_less [of b, where 'a = nat] by simp

lemma bit7: "bit (b :: byte) 7 \<longleftrightarrow> 128 \<le> unat b"
proof -
  have "bit b 7 \<longleftrightarrow> bit (unat b) 7" by (simp add: bit_unsigned_iff)
  also have "\<dots> \<longleftrightarrow> odd (unat b div 128)" by (simp add: bit_iff_odd)
  also have "\<dots> \<longleftrightarrow> 128 \<le> unat b"
  proof (cases "128 \<le> unat b")
    case True
    then have "unat b div 128 = 1" using byte_less [of b] by (intro div_nat_eqI) simp_all
    with True show ?thesis by simp
  qed simp
  finally show ?thesis .
qed

lemma byte_sign: "(b :: byte) AND 0x80 = 0 \<longleftrightarrow> unat b < 128"
proof -
  have "b AND 2 ^ 7 = 0 \<longleftrightarrow> \<not> bit b 7" by (rule and_exp_eq_0_iff_not_bit)
  then show ?thesis by (simp add: bit7 not_le)
qed

lemma byte_magnitude: "(b :: byte) AND 0x7f = 0 \<longleftrightarrow> unat b = 0 \<or> unat b = 128"
proof -
  have m: "b AND 0x7f = take_bit 7 b" by (simp add: take_bit_eq_mask mask_eq_exp_minus_1)
  have "unat (take_bit 7 b) = unat b mod 128"
    by (simp only: unsigned_take_bit_eq) (simp add: take_bit_eq_mod)
  moreover have "unat b mod 128 = 0 \<longleftrightarrow> unat b = 0 \<or> unat b = 128"
  proof (cases "128 \<le> unat b")
    case True
    then have "unat b mod 128 = unat b - 128" using byte_less [of b] by (simp add: le_mod_geq)
    with True show ?thesis by auto
  qed simp
  moreover have "take_bit 7 b = 0 \<longleftrightarrow> unat (take_bit 7 b) = 0" by (rule unsigned_eq_0_iff [symmetric])
  ultimately show ?thesis unfolding m by (simp only:)
qed

lemma byte_set_sign:
  assumes "unat (b :: byte) < 128"
  shows "unat (b OR 0x80) = unat b + 128"
proof -
  have "b AND 0x80 = 0" using assms by (simp add: byte_sign)
  then have "b OR 0x80 = b + 0x80" by (simp add: disjunctive_add_eq_or)
  then show ?thesis using assms by (simp add: unat_word_ariths)
qed

lemma num_digits_0 [simp]: "num_digits 0 = []"
  by (simp add: num_digits.simps)

lemma num_digits_pos:
  assumes "0 < n"
  shows "num_digits (int n) = word_of_nat (n mod 256) # num_digits (int (n div 256))"
proof -
  have "int n AND mask 8 = int (n mod 256)"
    by (simp only: take_bit_eq_mask [symmetric] take_bit_eq_mod zmod_int) simp
  then have "int n AND 0xff = int (n mod 256)" by (simp add: mask_eq_exp_minus_1)
  moreover have "drop_bit 8 (int n) = int (n div 256)" by (simp add: drop_bit_eq_div zdiv_int)
  ultimately show ?thesis using assms by (subst num_digits.simps) simp
qed

lemma num_digits_of_le_bytes:
  assumes "b \<noteq> 0"
  shows "num_digits (int (of_le_bytes (u @ [b]))) = u @ [b]"
proof (induction u)
  case Nil
  have "0 < unat b" using assms by (simp add: unat_gt_0)
  then show ?case using byte_less [of b] num_digits_pos [of "unat b"] by simp
next
  case (Cons a u)
  have "0 < of_le_bytes (u @ [b])"
    using assms by (simp add: of_le_bytes_snoc unat_gt_0)
  then show ?case
    using Cons byte_less [of a] num_digits_pos [of "unat a + 256 * of_le_bytes (u @ [b])"] by simp
qed

lemma num_digits_snoc:
  assumes "0 < n"
  obtains u b where "num_digits (int n) = u @ [b]" and "b \<noteq> 0" and "of_le_bytes (u @ [b]) = n"
  using assms
proof (induction n arbitrary: thesis rule: less_induct)
  case (less n)
  note digits = num_digits_pos [OF less.prems(2)]
  show ?case
  proof (cases "n div 256 = 0")
    case True
    then have "n < 256" by (simp add: div_eq_0_iff)
    moreover from this have "(word_of_nat n :: byte) \<noteq> 0"
      using less.prems(2) by (simp add: word_of_nat_eq_0_iff dvd_imp_le nat_dvd_not_less)
    ultimately show ?thesis
      using less.prems(1) [of "[]" "word_of_nat n"] digits True by (simp add: unat_of_nat)
  next
    case False
    then have "0 < n div 256" "n div 256 < n" using less.prems(2) by simp_all
    then obtain u b where "num_digits (int (n div 256)) = u @ [b]" "b \<noteq> 0"
        "of_le_bytes (u @ [b]) = n div 256"
      using less.IH by blast
    then show ?thesis
      using less.prems(1) [of "word_of_nat (n mod 256) # u" b] digits by simp
  qed
qed

lemma byte_or_high:
  "(ucast (b :: byte) :: uint64) OR push_bit 8 w = ucast b + 256 * w"
proof -
  have "(ucast b :: uint64) AND push_bit 8 w = 0"
    by (rule bit_eqI) (auto simp: bit_simps dest: bit_imp_le_length)
  then have "(ucast b :: uint64) OR push_bit 8 w = ucast b + push_bit 8 w"
    by (rule disjunctive_add_eq_or [symmetric])
  then show ?thesis by (simp add: push_bit_eq_mult mult.commute)
qed

lemma num_bits_shift:
  "i + length v \<le> 32 \<Longrightarrow> num_bits i v = push_bit (8 * i) (word_of_nat (of_le_bytes v))"
proof (induction v arbitrary: i)
  case (Cons b v)
  have "8 * i mod 256 = 8 * i" using Cons.prems by simp
  then have "num_bits i (b # v) =
      push_bit (8 * i) (ucast b OR push_bit 8 (word_of_nat (of_le_bytes v)))"
    using Cons.IH [of "Suc i"] Cons.prems by (simp add: push_bit_or push_bit_push_bit ac_simps)
  also have "\<dots> = push_bit (8 * i) (word_of_nat (of_le_bytes (b # v)))"
    by (simp only: byte_or_high) simp
  finally show ?case .
qed simp

text \<open>Sign and magnitude of an encoding whose last byte is \<open>b\<close>.\<close>

definition magnitude :: "byte list \<Rightarrow> byte \<Rightarrow> nat" where
  "magnitude u b = of_le_bytes u + 256 ^ length u * (unat b mod 128)"

definition sm_value :: "byte list \<Rightarrow> byte \<Rightarrow> int" where
  "sm_value u b = (if 128 \<le> unat b then - int (magnitude u b) else int (magnitude u b))"

lemma magnitude_bound: "magnitude u b < 2 ^ (8 * length u + 7)"
proof -
  have "of_le_bytes u < 256 ^ length u" by (rule of_le_bytes_bound)
  moreover have "256 ^ length u * (unat b mod 128) \<le> 256 ^ length u * 127"
    by (intro mult_left_mono) (use mod_less_divisor [of 128 "unat b"] in simp_all)
  ultimately have "magnitude u b < 256 ^ length u * 128"
    unfolding magnitude_def by linarith
  also have "\<dots> = 2 ^ (8 * length u + 7)" by (simp add: power_add power_mult)
  finally show ?thesis .
qed

lemma byte_mod: "unat (b :: byte) mod 128 = (if 128 \<le> unat b then unat b - 128 else unat b)"
  using byte_less [of b] by (simp add: le_mod_geq)

lemma sint_small: "m < 2 ^ 63 \<Longrightarrow> sint (word_of_nat m :: uint64) = int m"
    "m < 2 ^ 63 \<Longrightarrow> sint (- word_of_nat m :: uint64) = - int m"
proof -
  assume m: "m < 2 ^ 63"
  have "sint (word_of_int k :: uint64) = k" if "- (2 ^ 63) \<le> k" "k < 2 ^ 63" for k
    using that by (simp add: signed_of_int signed_take_bit_int_eq_self)
  from this [of "int m"] this [of "- int m"] m
  show "sint (word_of_nat m :: uint64) = int m" "sint (- word_of_nat m :: uint64) = - int m"
    by simp_all
qed

lemma clear_sign:
  assumes "m < 2 ^ k" and "k < 64"
  shows "(word_of_nat m + 2 ^ k) AND NOT (2 ^ k) = (word_of_nat m :: uint64)"
proof -
  let ?x = "word_of_nat m :: uint64"
  have "unat ?x = m"
    using assms(1) power_increasing [of k 64 "2 :: nat"] assms(2) by (simp add: unat_of_nat)
  moreover have "\<not> bit m k" using assms(1) by (simp add: bit_iff_odd)
  ultimately have "\<not> bit ?x k" using bit_unsigned_iff [of ?x k, where 'a = nat] by simp
  then have d: "?x AND 2 ^ k = 0" using and_exp_eq_0_iff_not_bit [of ?x k] by blast
  then have "?x + 2 ^ k = ?x OR 2 ^ k" by (rule disjunctive_add_eq_or)
  moreover have "(?x OR 2 ^ k) AND NOT (2 ^ k) = ?x"
  proof (rule bit_eqI)
    fix n
    have "\<not> (bit ?x n \<and> bit (2 ^ k :: uint64) n)" using d by (metis bit_0_eq bit_and_iff bot_apply bot_bool_def)
    then show "bit ((?x OR 2 ^ k) AND NOT (2 ^ k)) n = bit ?x n"
      by (auto simp only: bit_and_iff bit_or_iff bit_not_iff dest: bit_imp_possible_bit)
  qed
  ultimately show ?thesis by simp
qed

lemma makeScriptNum_snoc:
  assumes "length u < 8"
  shows "makeScriptNum (u @ [b]) n =
    (if length u \<ge> n then Inl (LimitErr ErrNumOutOfRange)
     else bindE (checkMinimalDataEncoding (u @ [b])) (\<lambda>_. Inr (sm_value u b)))"
proof -
  define k where "k = 8 * length u + 7"
  have k: "k < 64" "magnitude u b < 2 ^ k" "magnitude u b < 2 ^ 63"
    using assms magnitude_bound [of u b] power_increasing [of k 63 "2 :: nat"]
    by (simp_all add: k_def)
  have p: "push_bit (8 * length u mod 256) 0x80 = (2 ^ k :: uint64)"
    using assms by (simp add: k_def push_bit_eq_mult power_add)
  have w: "num_bits 0 (u @ [b]) = word_of_nat (of_le_bytes (u @ [b]))"
    using assms by (simp add: num_bits_shift)
  show ?thesis
  proof (cases "128 \<le> unat b")
    case True
    have "(256 :: nat) ^ length u * unat b = 256 ^ length u * (unat b - 128) + 256 ^ length u * 128"
      using True by (simp add: algebra_simps flip: distrib_left)
    then have "of_le_bytes (u @ [b]) = magnitude u b + 2 ^ k"
      using True by (simp add: of_le_bytes_snoc magnitude_def byte_mod k_def power_add power_mult)
    then have "num_bits 0 (u @ [b]) AND NOT (2 ^ k) = word_of_nat (magnitude u b)"
      using clear_sign [OF k(2,1)] by (simp add: w)
    then show ?thesis
      using True k by (simp add: makeScriptNum_def byte_sign p sint_small sm_value_def)
  next
    case False
    then have "of_le_bytes (u @ [b]) = magnitude u b"
      by (simp add: of_le_bytes_snoc magnitude_def byte_mod)
    then show ?thesis
      using False k by (simp add: makeScriptNum_def byte_sign w sint_small sm_value_def)
  qed
qed

section \<open>Shortest encodings\<close>

definition minimal :: "byte list \<Rightarrow> byte \<Rightarrow> bool" where
  "minimal u b \<longleftrightarrow> unat b mod 128 \<noteq> 0 \<or> (u \<noteq> [] \<and> 128 \<le> unat (last u))"

lemma checkMinimal_snoc:
  "checkMinimalDataEncoding (u @ [b]) =
     (if minimal u b then Inr () else Inl (MalleabilityErr ErrMinimalData))"
proof -
  have "unat b mod 128 = 0 \<longleftrightarrow> unat b = 0 \<or> unat b = 128"
    using byte_mod [of b] byte_less [of b] by auto
  moreover have "(u @ [b]) ! (length u - 1) = last u" if "u \<noteq> []"
    using that by (simp add: nth_append last_conv_nth)
  ultimately show ?thesis
    by (cases "u = []")
      (auto simp: checkMinimalDataEncoding_def minimal_def byte_magnitude byte_sign not_le)
qed

lemma wrap64_small: "\<bar>n\<bar> < 2 ^ 63 \<Longrightarrow> wrap64 n = n"
  by (simp add: wrap64_def signed_take_bit_int_eq_self)

text \<open>The two forms of the encoder: a separate sign byte, or the sign in the last digit.\<close>

lemma Bytes_sign_byte:
  assumes "num_digits (int m) = u @ [b]" and "0 < m" and "m < 2 ^ 63" and "128 \<le> unat b"
  shows "scriptNum_Bytes (int m) = Inr (u @ [b, 0])" "scriptNum_Bytes (- int m) = Inr (u @ [b, 0x80])"
  using assms by (simp_all add: scriptNum_Bytes_def wrap64_small byte_sign)

lemma Bytes_sign_bit:
  assumes "num_digits (int m) = u @ [b]" and "0 < m" and "m < 2 ^ 63" and "unat b < 128"
  shows "scriptNum_Bytes (int m) = Inr (u @ [b])" "scriptNum_Bytes (- int m) = Inr (u @ [b OR 0x80])"
  using assms by (simp_all add: scriptNum_Bytes_def wrap64_small byte_sign)

lemma magnitude_small: "length u < 8 \<Longrightarrow> magnitude u b < 2 ^ 63"
  using magnitude_bound [of u b] power_increasing [of "8 * length u + 7" 63 "2 :: nat"] by simp

lemma sm_value_small:
  assumes "length u < 8"
  shows "\<bar>sm_value u b\<bar> < 2 ^ 63"
proof -
  have "int (magnitude u b) < int (2 ^ 63)"
    unfolding of_nat_less_iff by (rule magnitude_small [OF assms])
  then show ?thesis by (simp add: sm_value_def)
qed

lemma Bytes_of_value:
  assumes "minimal u b" and "length u < 8"
  shows "scriptNum_Bytes (sm_value u b) = Inr (u @ [b])"
proof -
  note small = magnitude_small [OF assms(2), of b]
  show ?thesis
  proof (cases "unat b mod 128 = 0")
    case False
    define c :: byte where "c = word_of_nat (unat b mod 128)"
    have c: "unat c = unat b mod 128" using byte_less [of b] by (simp add: c_def unat_of_nat)
    then have c0: "c \<noteq> 0" "unat c < 128" "magnitude u b = of_le_bytes (u @ [c])"
      using False by (auto simp: magnitude_def of_le_bytes_snoc)
    then have d: "num_digits (int (magnitude u b)) = u @ [c]"
      using num_digits_of_le_bytes by simp
    have "0 < magnitude u b" using False by (simp add: magnitude_def)
    note B = Bytes_sign_bit [OF d this small c0(2)]
    have "b = c OR 0x80" if "128 \<le> unat b"
      using that c byte_set_sign [OF c0(2)] by (simp add: word_unat_eq_iff byte_mod)
    moreover have "b = c" if "unat b < 128" using that c by (simp add: word_unat_eq_iff)
    ultimately show ?thesis using B by (simp add: sm_value_def)
  next
    case True
    with assms(1) have "u \<noteq> []" "128 \<le> unat (last u)" by (simp_all add: minimal_def)
    then obtain w a where u: "u = w @ [a]" "128 \<le> unat a"
      by (metis append_butlast_last_id)
    have m: "magnitude u b = of_le_bytes u" using True by (simp add: magnitude_def)
    have "a \<noteq> 0" using u(2) by auto
    then have d: "num_digits (int (magnitude u b)) = w @ [a]"
      using m u num_digits_of_le_bytes by simp
    have "0 < of_le_bytes u" unfolding u(1) of_le_bytes_snoc using u(2) by simp
    then have "0 < magnitude u b" using m by simp
    note B = Bytes_sign_byte [OF d this small u(2)]
    have "b = 0x80" if "128 \<le> unat b" using that True byte_less [of b] byte_mod [of b] by (simp add: word_unat_eq_iff)
    moreover have "b = 0" if "unat b < 128" using that True by (simp add: unsigned_eq_0_iff)
    ultimately show ?thesis using B u(1) by (simp add: sm_value_def)
  qed
qed

lemma digits_length:
  assumes "of_le_bytes (u @ [b]) = m" and "b \<noteq> 0" and "m < 2 ^ 63"
  shows "length u < 8" and "128 \<le> unat b \<Longrightarrow> length u < 7"
proof -
  have b: "1 \<le> unat b" using assms(2) by (simp add: Suc_le_eq unat_gt_0)
  have m: "256 ^ length u * unat b \<le> m" using assms(1) by (simp add: of_le_bytes_snoc)
  have e: "(256 :: nat) ^ length u = 2 ^ (8 * length u)" by (simp add: power_mult)
  have "(2 :: nat) ^ (8 * length u) * 1 \<le> 256 ^ length u * unat b"
    unfolding e by (rule mult_left_mono [OF b]) simp
  then have "(2 :: nat) ^ (8 * length u) < 2 ^ 63" using m assms(3) by linarith
  then have "8 * length u < 63" using power_less_imp_less_exp [of "2 :: nat" "8 * length u" 63] by simp
  then show "length u < 8" by simp
  assume "128 \<le> unat b"
  then have "(2 :: nat) ^ (8 * length u) * 128 \<le> 256 ^ length u * unat b"
    unfolding e by (rule mult_left_mono) simp
  then have "(2 :: nat) ^ (8 * length u + 7) < 2 ^ 63"
    using m assms(3) by (simp add: power_add)
  then have "8 * length u + 7 < 63"
    using power_less_imp_less_exp [of "2 :: nat" "8 * length u + 7" 63] by simp
  then show "length u < 7" by simp
qed

lemma value_of_Bytes:
  assumes "scriptNum_Bytes n = Inr v" and "n \<noteq> 0" and "\<bar>n\<bar> < 2 ^ 63"
  shows "\<exists>u b. v = u @ [b] \<and> minimal u b \<and> sm_value u b = n \<and> length u < 8"
proof -
  define m where "m = nat \<bar>n\<bar>"
  have m: "0 < m" "m < 2 ^ 63" "n = int m \<or> n = - int m"
    using assms(2,3) by (auto simp: m_def)
  obtain u b where d: "num_digits (int m) = u @ [b]" "b \<noteq> 0" "of_le_bytes (u @ [b]) = m"
    using num_digits_snoc [OF m(1)] by blast
  note len = digits_length [OF d(3,2) m(2)]
  show ?thesis
  proof (cases "128 \<le> unat b")
    case True
    have "minimal (u @ [b]) s" for s using True by (simp add: minimal_def)
    moreover have "sm_value (u @ [b]) 0 = int m" "sm_value (u @ [b]) 0x80 = - int m"
      using d(3) by (simp_all add: sm_value_def magnitude_def)
    ultimately show ?thesis
      using Bytes_sign_byte [OF d(1) m(1,2) True] m(3) assms(1) len(2) [OF True]
      by (auto intro: exI [of _ "u @ [b]"])
  next
    case False
    then have b: "unat b < 128" by simp
    have "unat b \<noteq> 0" using d(2) by (simp add: unsigned_eq_0_iff)
    then have "minimal u b" "minimal u (b OR 0x80)"
      using b byte_set_sign [OF b] by (simp_all add: minimal_def)
    moreover have "sm_value u b = int m" "sm_value u (b OR 0x80) = - int m"
      using b d(3) byte_set_sign [OF b] by (simp_all add: sm_value_def magnitude_def of_le_bytes_snoc)
    ultimately show ?thesis
      using Bytes_sign_bit [OF d(1) m(1,2) b] m(3) assms(1) len(1) by auto
  qed
qed

lemma Bytes_zero: "scriptNum_Bytes 0 = Inr []"
  by (simp add: scriptNum_Bytes_def)

lemma Bytes_0: "scriptNum_Bytes n = Inr [] \<Longrightarrow> n = 0"
  by (auto simp: scriptNum_Bytes_def Let_def split: if_splits)

lemma Bytes_total: "\<bar>n\<bar> < 2 ^ 63 \<Longrightarrow> \<exists>v. scriptNum_Bytes n = Inr v"
proof (cases "n = 0")
  case False
  assume n: "\<bar>n\<bar> < 2 ^ 63"
  have "num_digits (if n < 0 then - n else n) \<noteq> []"
    using False by (subst num_digits.simps) auto
  then show ?thesis using False n by (auto simp: scriptNum_Bytes_def wrap64_small Let_def)
qed (simp add: scriptNum_Bytes_def)

section \<open>Properties\<close>

text \<open>
  C22: Script numbers have exactly one encoding.  For every length limit up to the
  width of an \<open>int64\<close>, \<open>makeScriptNum\<close> decodes a byte string to a
  number if and only if the string is within the limit and is what
  \<open>Bytes\<close> gives for that number; numbers of magnitude below
  \<open>2 ^ 63\<close> are all encoded.
\<close>

theorem scriptNum_canonical:
  assumes "k \<le> 8"
  shows "makeScriptNum v k = Inr n \<longleftrightarrow>
    length v \<le> k \<and> \<bar>n\<bar> < 2 ^ 63 \<and> scriptNum_Bytes n = Inr v"
proof (cases v rule: rev_cases)
  case Nil
  have "makeScriptNum v k = Inr n \<longleftrightarrow> n = 0"
    by (auto simp: Nil makeScriptNum_def checkMinimalDataEncoding_def)
  moreover have "scriptNum_Bytes n = Inr v \<longleftrightarrow> n = 0"
    using Bytes_0 [of n] by (auto simp: Nil Bytes_zero)
  ultimately show ?thesis by (auto simp: Nil)
next
  case (snoc u b)
  have iff: "scriptNum_Bytes n = Inr v \<and> \<bar>n\<bar> < 2 ^ 63 \<longleftrightarrow> minimal u b \<and> sm_value u b = n"
    if l: "length u < 8"
  proof
    assume n: "scriptNum_Bytes n = Inr v \<and> \<bar>n\<bar> < 2 ^ 63"
    then have "n \<noteq> 0" using snoc by (auto simp: Bytes_zero)
    with n value_of_Bytes [of n v] snoc show "minimal u b \<and> sm_value u b = n" by simp
  next
    assume "minimal u b \<and> sm_value u b = n"
    with Bytes_of_value [of u b] sm_value_small [OF l, of b] l snoc
    show "scriptNum_Bytes n = Inr v \<and> \<bar>n\<bar> < 2 ^ 63" by simp
  qed
  show ?thesis
  proof (cases "length u < k")
    case True
    then have "length u < 8" using assms by simp
    from iff [OF this] True show ?thesis
      unfolding snoc makeScriptNum_snoc [OF \<open>length u < 8\<close>] checkMinimal_snoc by simp blast
  next
    case False
    then show ?thesis unfolding snoc by (simp add: makeScriptNum_def)
  qed
qed

theorem scriptNum_canonical_witness:
  "makeScriptNum [0xff, 0x80] 4 = Inr (- 255) \<and> scriptNum_Bytes (- 255) = Inr [0xff, 0x80]"
proof -
  have "scriptNum_Bytes (- 255) = Inr [0xff, 0x80]" by code_simp
  then show ?thesis using scriptNum_canonical [of 4 "[0xff, 0x80]" "- 255"] by simp
qed

end
