(* ===== verification/ScriptStack.thy ===== *)
theory ScriptStack
  imports ScriptNum
begin

text \<open>
  The data stack of the script engine, after \<open>src/txscript/stack.go\<close>.  A
  stack is the list of its items with the top of the stack last, as in the slice
  \<open>stk\<close>.  Indexes count from the top; they are integers here, since the
  source compares them with the depth before it uses them.  An operation
  returns the new stack or the error of the source; what an operation that fails
  leaves behind is not observed, as the engine stops at the first error.
\<close>

unbundle bit_operations_syntax

named_theorems stack_simps \<open>what the stack operations do to a stack of known shape\<close>

type_synonym stack = "byte list list"

section \<open>Operations\<close>

text \<open>The loop of \<open>asBool\<close>: a negative zero is false.\<close>

fun asBool :: "byte list \<Rightarrow> bool" where
  "asBool [] = False"
| "asBool (b # t) =
     (if b \<noteq> 0 then (if t = [] \<and> b = 0x80 then False else True) else asBool t)"

definition fromBool :: "bool \<Rightarrow> byte list" where
  "fromBool v = (if v then [1] else [])"

definition Depth :: "stack \<Rightarrow> int" where
  "Depth s = int (length s)"

definition PushByteArray :: "byte list \<Rightarrow> stack \<Rightarrow> stack" where
  "PushByteArray so s = s @ [so]"

definition PushInt :: "scriptNum \<Rightarrow> stack \<Rightarrow> script_error + stack" where
  "PushInt val s = bindE (scriptNum_Bytes val) (\<lambda>so. Inr (PushByteArray so s))"

definition PushBool :: "bool \<Rightarrow> stack \<Rightarrow> stack" where
  "PushBool val s = PushByteArray (fromBool val) s"

definition nipN :: "int \<Rightarrow> stack \<Rightarrow> script_error + byte list \<times> stack" where
  "nipN idx s =
     (let sz = int (length s) in
      if idx < 0 \<or> idx > sz - 1 then Inl (OpcodeErr ErrInvalidStackOperation)
      else
        let so = s ! nat (sz - idx - 1) in
        if idx = 0 then Inr (so, take (nat (sz - 1)) s)
        else if idx = sz - 1 then Inr (so, drop 1 s)
        else Inr (so, take (nat (sz - idx - 1)) s @ drop (nat (sz - idx)) s))"

definition PopByteArray :: "stack \<Rightarrow> script_error + byte list \<times> stack" where
  "PopByteArray s = nipN 0 s"

definition PopInt :: "nat \<Rightarrow> stack \<Rightarrow> script_error + scriptNum \<times> stack" where
  "PopInt maxScriptNumLen s =
     bindE (PopByteArray s) (\<lambda>(so, s').
     bindE (makeScriptNum so maxScriptNumLen) (\<lambda>n. Inr (n, s')))"

definition PopBool :: "stack \<Rightarrow> script_error + bool \<times> stack" where
  "PopBool s = bindE (PopByteArray s) (\<lambda>(so, s'). Inr (asBool so, s'))"

definition PeekByteArray :: "int \<Rightarrow> stack \<Rightarrow> script_error + byte list" where
  "PeekByteArray idx s =
     (let sz = int (length s) in
      if idx < 0 \<or> idx \<ge> sz then Inl (OpcodeErr ErrInvalidStackOperation)
      else Inr (s ! nat (sz - idx - 1)))"

definition PeekInt :: "int \<Rightarrow> nat \<Rightarrow> stack \<Rightarrow> script_error + scriptNum" where
  "PeekInt idx maxScriptNumLen s =
     bindE (PeekByteArray idx s) (\<lambda>so. makeScriptNum so maxScriptNumLen)"

definition PeekBool :: "int \<Rightarrow> stack \<Rightarrow> script_error + bool" where
  "PeekBool idx s = bindE (PeekByteArray idx s) (\<lambda>so. Inr (asBool so))"

definition NipN :: "int \<Rightarrow> stack \<Rightarrow> script_error + stack" where
  "NipN idx s = bindE (nipN idx s) (\<lambda>(_, s'). Inr s')"

definition Tuck :: "stack \<Rightarrow> script_error + stack" where
  "Tuck s =
     bindE (PopByteArray s) (\<lambda>(so2, s1).
     bindE (PopByteArray s1) (\<lambda>(so1, s2).
     Inr (PushByteArray so2 (PushByteArray so1 (PushByteArray so2 s2)))))"

text \<open>The loop of \<open>DropN\<close>, and the one that \<open>RotN\<close> and \<open>SwapN\<close>
  share: an item is removed from below and pushed, \<open>n\<close> times.  \<open>DupN\<close> and
  \<open>OverN\<close> push a copy instead.\<close>

primrec drop_times :: "nat \<Rightarrow> stack \<Rightarrow> script_error + stack" where
  "drop_times 0 s = Inr s"
| "drop_times (Suc n) s = bindE (PopByteArray s) (\<lambda>(_, s'). drop_times n s')"

primrec nip_times :: "nat \<Rightarrow> int \<Rightarrow> stack \<Rightarrow> script_error + stack" where
  "nip_times 0 entry s = Inr s"
| "nip_times (Suc n) entry s =
     bindE (nipN entry s) (\<lambda>(so, s'). nip_times n entry (PushByteArray so s'))"

primrec peek_times :: "nat \<Rightarrow> int \<Rightarrow> stack \<Rightarrow> script_error + stack" where
  "peek_times 0 entry s = Inr s"
| "peek_times (Suc n) entry s =
     bindE (PeekByteArray entry s) (\<lambda>so. peek_times n entry (PushByteArray so s))"

definition DropN :: "int \<Rightarrow> stack \<Rightarrow> script_error + stack" where
  "DropN n s =
     (if n < 1 then Inl (OpcodeErr ErrInvalidStackOperation) else drop_times (nat n) s)"

definition DupN :: "int \<Rightarrow> stack \<Rightarrow> script_error + stack" where
  "DupN n s =
     (if n < 1 then Inl (OpcodeErr ErrInvalidStackOperation) else peek_times (nat n) (n - 1) s)"

definition RotN :: "int \<Rightarrow> stack \<Rightarrow> script_error + stack" where
  "RotN n s =
     (if n < 1 then Inl (OpcodeErr ErrInvalidStackOperation) else nip_times (nat n) (3 * n - 1) s)"

definition SwapN :: "int \<Rightarrow> stack \<Rightarrow> script_error + stack" where
  "SwapN n s =
     (if n < 1 then Inl (OpcodeErr ErrInvalidStackOperation) else nip_times (nat n) (2 * n - 1) s)"

definition OverN :: "int \<Rightarrow> stack \<Rightarrow> script_error + stack" where
  "OverN n s =
     (if n < 1 then Inl (OpcodeErr ErrInvalidStackOperation) else peek_times (nat n) (2 * n - 1) s)"

definition PickN :: "int \<Rightarrow> stack \<Rightarrow> script_error + stack" where
  "PickN n s = bindE (PeekByteArray n s) (\<lambda>so. Inr (PushByteArray so s))"

definition RollN :: "int \<Rightarrow> stack \<Rightarrow> script_error + stack" where
  "RollN n s = bindE (nipN n s) (\<lambda>(so, s'). Inr (PushByteArray so s'))"

section \<open>Single items\<close>

lemma asBool_fromBool [simp]: "asBool (fromBool b) = b"
  by (simp add: fromBool_def)

text \<open>False is a string of zero bytes, or one that ends in a sign bit.\<close>

lemma asBool_iff: "asBool v \<longleftrightarrow> \<not> (set v \<subseteq> {0} \<or> (\<exists>u. v = u @ [0x80] \<and> set u \<subseteq> {0}))"
proof (induction v)
  case (Cons b t)
  have "(\<exists>u. b # t = u @ [0x80] \<and> set u \<subseteq> {0}) \<longleftrightarrow>
      t = [] \<and> b = 0x80 \<or> b = 0 \<and> (\<exists>u. t = u @ [0x80] \<and> set u \<subseteq> {0})"
    by (auto simp: Cons_eq_append_conv)
  with Cons show ?case by auto
qed simp

text \<open>An item with \<open>length ys\<close> items above it.\<close>

lemma nipN_at [stack_simps]: "nipN (int (length ys)) (xs @ x # ys) = Inr (x, xs @ ys)"
proof -
  have "nat (1 + int (length xs + length ys) - int (length ys) - 1) = length xs"
    "nat (1 + int (length xs + length ys) - int (length ys)) = Suc (length xs)"
    "nat (1 + int (length xs + length ys) - 1) = length xs + length ys"
    by auto
  then show ?thesis
    by (cases xs; cases ys rule: rev_cases) (auto simp: nipN_def Let_def algebra_simps nth_append)
qed

lemma PeekByteArray_at [stack_simps]: "PeekByteArray (int (length ys)) (xs @ x # ys) = Inr x"
proof -
  have "nat (1 + int (length xs + length ys) - int (length ys) - 1) = length xs" by auto
  then show ?thesis by (simp add: PeekByteArray_def Let_def algebra_simps)
qed

lemma nipN_fails [stack_simps]:
  "idx < 0 \<or> int (length s) \<le> idx \<Longrightarrow> nipN idx s = Inl (OpcodeErr ErrInvalidStackOperation)"
  by (auto simp: nipN_def)

lemma PeekByteArray_fails [stack_simps]:
  "idx < 0 \<or> int (length s) \<le> idx \<Longrightarrow>
    PeekByteArray idx s = Inl (OpcodeErr ErrInvalidStackOperation)"
  by (auto simp: PeekByteArray_def)

text \<open>Every valid index is of that form.\<close>

lemma index_split:
  assumes "0 \<le> idx" "idx < int (length s)"
  obtains xs x ys where "s = xs @ x # ys" "idx = int (length ys)"
proof -
  let ?k = "length s - Suc (nat idx)"
  have "?k < length s" using assms by auto
  then have "s = take ?k s @ s ! ?k # drop (Suc ?k) s" by (simp add: id_take_nth_drop)
  moreover have "idx = int (length (drop (Suc ?k) s))" using assms by auto
  ultimately show ?thesis using that by blast
qed

lemma PopByteArray_snoc [simp]: "PopByteArray (s @ [x]) = Inr (x, s)"
  using nipN_at [of "[]" s x] by (simp add: PopByteArray_def)

lemma PopByteArray_Nil [simp]: "PopByteArray [] = Inl (OpcodeErr ErrInvalidStackOperation)"
  by (simp add: PopByteArray_def stack_simps)

section \<open>Loops\<close>

lemma drop_times_append [stack_simps]: "drop_times (length xs) (r @ xs) = Inr r"
proof (induction xs rule: rev_induct)
  case (snoc x xs)
  then show ?case using PopByteArray_snoc [of "r @ xs" x] by simp
qed simp

lemma drop_times_short [stack_simps]:
  "length s < n \<Longrightarrow> drop_times n s = Inl (OpcodeErr ErrInvalidStackOperation)"
proof (induction n arbitrary: s)
  case (Suc n)
  then show ?case by (cases s rule: rev_cases) simp_all
qed simp

lemma nip_times_append [stack_simps]:
  "nip_times (length xs) (int (length xs + length ys) - 1) (r @ xs @ ys) = Inr (r @ ys @ xs)"
proof (induction xs arbitrary: ys)
  case (Cons x xs)
  have "nipN (int (length (x # xs) + length ys) - 1) (r @ (x # xs) @ ys) = Inr (x, r @ xs @ ys)"
    using nipN_at [of "xs @ ys" r x] by simp
  with Cons [of "ys @ [x]"] show ?case by (simp add: PushByteArray_def)
qed simp

lemma peek_times_append [stack_simps]:
  "peek_times (length xs) (int (length xs + length ys) - 1) (r @ xs @ ys) =
    Inr (r @ xs @ ys @ xs)"
proof (induction xs arbitrary: r ys)
  case (Cons x xs)
  have "PeekByteArray (int (length (x # xs) + length ys) - 1) (r @ (x # xs) @ ys) = Inr x"
    using PeekByteArray_at [of "xs @ ys" r x] by simp
  with Cons [of "ys @ [x]" "r @ [x]"] show ?case by (simp add: PushByteArray_def)
qed simp

lemma nip_times_fails [stack_simps]:
  "0 < n \<Longrightarrow> int (length s) \<le> entry \<Longrightarrow>
    nip_times n entry s = Inl (OpcodeErr ErrInvalidStackOperation)"
  by (cases n) (simp_all add: stack_simps)

lemma peek_times_fails [stack_simps]:
  "0 < n \<Longrightarrow> int (length s) \<le> entry \<Longrightarrow>
    peek_times n entry s = Inl (OpcodeErr ErrInvalidStackOperation)"
  by (cases n) (simp_all add: stack_simps)

section \<open>Operations on a stack of any depth\<close>

text \<open>A list that is long enough ends in a block of given length.\<close>

lemma split_top:
  assumes "k \<le> length s"
  obtains r a where "s = r @ a" "length a = k"
proof
  show "s = take (length s - k) s @ drop (length s - k) s" by simp
  show "length (drop (length s - k) s) = k" using assms by simp
qed

lemma DropN_eq [stack_simps]:
  "0 < length a \<Longrightarrow> DropN (int (length a)) (r @ a) = Inr r"
  by (simp add: DropN_def drop_times_append)

lemma DupN_eq [stack_simps]:
  "0 < length a \<Longrightarrow> DupN (int (length a)) (r @ a) = Inr (r @ a @ a)"
  using peek_times_append [of a "[]" r] by (simp add: DupN_def)

lemma SwapN_eq [stack_simps]:
  "0 < length a \<Longrightarrow> length b = length a \<Longrightarrow> SwapN (int (length a)) (r @ a @ b) = Inr (r @ b @ a)"
  using nip_times_append [of a b r] by (simp add: SwapN_def)

lemma OverN_eq [stack_simps]:
  "0 < length a \<Longrightarrow> length b = length a \<Longrightarrow>
    OverN (int (length a)) (r @ a @ b) = Inr (r @ a @ b @ a)"
  using peek_times_append [of a b r] by (simp add: OverN_def)

lemma RotN_eq [stack_simps]:
  "0 < length a \<Longrightarrow> length b = length a \<Longrightarrow> length c = length a \<Longrightarrow>
    RotN (int (length a)) (r @ a @ b @ c) = Inr (r @ b @ c @ a)"
  using nip_times_append [of a "b @ c" r] by (simp add: RotN_def)

lemma PickN_eq [stack_simps]: "PickN (int (length a)) (r @ x # a) = Inr (r @ x # a @ [x])"
  by (simp add: PickN_def PeekByteArray_at PushByteArray_def)

lemma RollN_eq [stack_simps]: "RollN (int (length a)) (r @ x # a) = Inr (r @ a @ [x])"
  by (simp add: RollN_def nipN_at PushByteArray_def)

lemma NipN_eq [stack_simps]: "NipN (int (length a)) (r @ x # a) = Inr (r @ a)"
  by (simp add: NipN_def nipN_at)

lemma Tuck_eq [stack_simps]: "Tuck (r @ [x, y]) = Inr (r @ [y, x, y])"
  using PopByteArray_snoc [of "r @ [x]" y] by (simp add: Tuck_def PushByteArray_def)

text \<open>A stack that is too short for the operation.\<close>

lemma short_fails [stack_simps]:
  "0 < n \<Longrightarrow> int (length s) < n \<Longrightarrow> DropN n s = Inl (OpcodeErr ErrInvalidStackOperation)"
  "0 < n \<Longrightarrow> int (length s) < n \<Longrightarrow> DupN n s = Inl (OpcodeErr ErrInvalidStackOperation)"
  "0 < n \<Longrightarrow> int (length s) < 2 * n \<Longrightarrow> SwapN n s = Inl (OpcodeErr ErrInvalidStackOperation)"
  "0 < n \<Longrightarrow> int (length s) < 2 * n \<Longrightarrow> OverN n s = Inl (OpcodeErr ErrInvalidStackOperation)"
  "0 < n \<Longrightarrow> int (length s) < 3 * n \<Longrightarrow> RotN n s = Inl (OpcodeErr ErrInvalidStackOperation)"
  by (simp_all add: DropN_def DupN_def SwapN_def OverN_def RotN_def drop_times_short
      peek_times_fails nip_times_fails)

text \<open>Each operation either has its stack transformation or fails.\<close>

lemma DropN_iff:
  assumes "0 < n"
  shows "DropN n s = Inr s' \<longleftrightarrow> (\<exists>a. s = s' @ a \<and> int (length a) = n)"
proof (cases "nat n \<le> length s")
  case True
  with split_top obtain r a where "s = r @ a" "length a = nat n" .
  with DropN_eq [of a r] assms show ?thesis by auto
next
  case False
  with assms show ?thesis by (auto simp: short_fails)
qed

lemma DupN_iff:
  assumes "0 < n"
  shows "DupN n s = Inr s' \<longleftrightarrow> (\<exists>r a. s = r @ a \<and> int (length a) = n \<and> s' = r @ a @ a)"
proof (cases "nat n \<le> length s")
  case True
  with split_top obtain r a where "s = r @ a" "length a = nat n" .
  then have "s = r @ a" "int (length a) = n" using assms by simp_all
  with DupN_eq [of a r] assms show ?thesis by (auto; blast)
next
  case False
  with assms show ?thesis by (auto simp: short_fails)
qed

lemma split_top2:
  assumes "2 * k \<le> length s"
  obtains r a b where "s = r @ a @ b" "length a = k" "length b = k"
proof -
  obtain u b where u: "s = u @ b" "length b = k" using assms split_top [of k s] by auto
  then have "k \<le> length u" using assms by auto
  then obtain r a where "u = r @ a" "length a = k" by (rule split_top)
  with u that show ?thesis by simp
qed

lemma SwapN_iff:
  assumes "0 < n"
  shows "SwapN n s = Inr s' \<longleftrightarrow>
    (\<exists>r a b. s = r @ a @ b \<and> int (length a) = n \<and> length b = length a \<and> s' = r @ b @ a)"
proof (cases "2 * nat n \<le> length s")
  case True
  with split_top2 obtain r a b where "s = r @ a @ b" "length a = nat n" "length b = nat n" .
  then have "s = r @ a @ b" "int (length a) = n" "length b = length a" using assms by simp_all
  with SwapN_eq [of a b r] assms show ?thesis by (auto; blast)
next
  case False
  with assms show ?thesis by (auto simp: short_fails)
qed

lemma OverN_iff:
  assumes "0 < n"
  shows "OverN n s = Inr s' \<longleftrightarrow>
    (\<exists>r a b. s = r @ a @ b \<and> int (length a) = n \<and> length b = length a \<and> s' = r @ a @ b @ a)"
proof (cases "2 * nat n \<le> length s")
  case True
  with split_top2 obtain r a b where "s = r @ a @ b" "length a = nat n" "length b = nat n" .
  then have "s = r @ a @ b" "int (length a) = n" "length b = length a" using assms by simp_all
  with OverN_eq [of a b r] assms show ?thesis by (auto; blast)
next
  case False
  with assms show ?thesis by (auto simp: short_fails)
qed

lemma RotN_iff:
  assumes "0 < n"
  shows "RotN n s = Inr s' \<longleftrightarrow>
    (\<exists>r a b c. s = r @ a @ b @ c \<and> int (length a) = n \<and> length b = length a \<and>
      length c = length a \<and> s' = r @ b @ c @ a)"
proof (cases "3 * nat n \<le> length s")
  case True
  then have "nat n \<le> length s" by simp
  then obtain u c where u: "s = u @ c" "length c = nat n" by (rule split_top)
  with True have "2 * nat n \<le> length u" by simp
  then obtain r a b where "u = r @ a @ b" "length a = nat n" "length b = nat n"
    by (rule split_top2)
  with u assms have "s = r @ a @ b @ c" "int (length a) = n" "length b = length a"
    "length c = length a" by simp_all
  with RotN_eq [of a b c r] assms show ?thesis by (auto; blast)
next
  case False
  with assms show ?thesis by (auto simp: short_fails)
qed

lemma nipN_iff:
  "nipN n s = Inr (x, s') \<longleftrightarrow> (\<exists>r a. s = r @ x # a \<and> int (length a) = n \<and> s' = r @ a)"
proof (cases "0 \<le> n \<and> n < int (length s)")
  case True
  with index_split [of n s] obtain r y a where "s = r @ y # a" "n = int (length a)" by blast
  with nipN_at [of a r y] show ?thesis by (auto; blast)
next
  case False
  then have "nipN n s = Inl (OpcodeErr ErrInvalidStackOperation)" by (auto simp: nipN_fails)
  with False show ?thesis by auto
qed

lemma PeekByteArray_iff:
  "PeekByteArray n s = Inr x \<longleftrightarrow> (\<exists>r a. s = r @ x # a \<and> int (length a) = n)"
proof (cases "0 \<le> n \<and> n < int (length s)")
  case True
  with index_split [of n s] obtain r y a where "s = r @ y # a" "n = int (length a)" by blast
  with PeekByteArray_at [of a r y] show ?thesis by (auto; blast)
next
  case False
  then have "PeekByteArray n s = Inl (OpcodeErr ErrInvalidStackOperation)"
    by (auto simp: PeekByteArray_fails)
  with False show ?thesis by auto
qed

lemma PickN_iff:
  "PickN n s = Inr s' \<longleftrightarrow>
    (\<exists>r x a. s = r @ x # a \<and> int (length a) = n \<and> s' = s @ [x])"
  by (auto simp: PickN_def bindE_eq_Inr_iff PeekByteArray_iff PushByteArray_def; blast)

lemma RollN_iff:
  "RollN n s = Inr s' \<longleftrightarrow>
    (\<exists>r x a. s = r @ x # a \<and> int (length a) = n \<and> s' = r @ a @ [x])"
  by (auto simp: RollN_def bindE_eq_Inr_iff nipN_iff PushByteArray_def; blast)

lemma NipN_iff:
  "NipN n s = Inr s' \<longleftrightarrow>
    (\<exists>r x a. s = r @ x # a \<and> int (length a) = n \<and> s' = r @ a)"
  by (auto simp: NipN_def bindE_eq_Inr_iff nipN_iff; blast)

lemma PopByteArray_iff: "PopByteArray s = Inr (x, s') \<longleftrightarrow> s = s' @ [x]"
  by (cases s rule: rev_cases) auto

lemma Tuck_iff: "Tuck s = Inr s' \<longleftrightarrow> (\<exists>r x y. s = r @ [x, y] \<and> s' = r @ [y, x, y])"
  by (auto simp: Tuck_def bindE_eq_Inr_iff PopByteArray_iff PushByteArray_def)

lemmas stack_iffs = PopByteArray_iff PeekByteArray_iff nipN_iff NipN_iff DropN_iff DupN_iff
  SwapN_iff OverN_iff RotN_iff PickN_iff RollN_iff Tuck_iff

text \<open>The only error of the stack itself.\<close>

lemma nip_error: "nipN n s = Inl e \<Longrightarrow> e = OpcodeErr ErrInvalidStackOperation"
  by (auto simp: nipN_def Let_def split: if_splits)

lemma peek_error: "PeekByteArray n s = Inl e \<Longrightarrow> e = OpcodeErr ErrInvalidStackOperation"
  by (auto simp: PeekByteArray_def Let_def split: if_splits)

lemma drop_times_error: "drop_times n s = Inl e \<Longrightarrow> e = OpcodeErr ErrInvalidStackOperation"
  by (induction n arbitrary: s) (auto simp: bindE_eq_Inl_iff PopByteArray_def nip_error)

lemma nip_times_error: "nip_times n i s = Inl e \<Longrightarrow> e = OpcodeErr ErrInvalidStackOperation"
  by (induction n arbitrary: s) (auto simp: bindE_eq_Inl_iff nip_error)

lemma peek_times_error: "peek_times n i s = Inl e \<Longrightarrow> e = OpcodeErr ErrInvalidStackOperation"
  by (induction n arbitrary: s) (auto simp: bindE_eq_Inl_iff peek_error)

lemmas stack_errors = nip_error peek_error drop_times_error nip_times_error peek_times_error

lemma stack_op_errors:
  "DropN n s = Inl e \<Longrightarrow> e = OpcodeErr ErrInvalidStackOperation"
  "DupN n s = Inl e \<Longrightarrow> e = OpcodeErr ErrInvalidStackOperation"
  "SwapN n s = Inl e \<Longrightarrow> e = OpcodeErr ErrInvalidStackOperation"
  "OverN n s = Inl e \<Longrightarrow> e = OpcodeErr ErrInvalidStackOperation"
  "RotN n s = Inl e \<Longrightarrow> e = OpcodeErr ErrInvalidStackOperation"
  "PickN n s = Inl e \<Longrightarrow> e = OpcodeErr ErrInvalidStackOperation"
  "RollN n s = Inl e \<Longrightarrow> e = OpcodeErr ErrInvalidStackOperation"
  "NipN n s = Inl e \<Longrightarrow> e = OpcodeErr ErrInvalidStackOperation"
  "PopByteArray s = Inl e \<Longrightarrow> e = OpcodeErr ErrInvalidStackOperation"
  "Tuck s = Inl e \<Longrightarrow> e = OpcodeErr ErrInvalidStackOperation"
  by (auto simp: DropN_def DupN_def SwapN_def OverN_def RotN_def PickN_def RollN_def NipN_def
      Tuck_def PopByteArray_def bindE_eq_Inl_iff dest: stack_errors split: if_splits)

section \<open>Properties\<close>

text \<open>
  The stack transformations.  For \<open>n \<ge> 1\<close>, writing the bottom of the
  stack to the left: \<open>DropN\<close> takes \<open>r a\<close> to \<open>r\<close>,
  \<open>DupN\<close> takes \<open>r a\<close> to \<open>r a a\<close>, \<open>SwapN\<close> takes
  \<open>r a b\<close> to \<open>r b a\<close>, \<open>OverN\<close> takes \<open>r a b\<close> to
  \<open>r a b a\<close> and \<open>RotN\<close> takes \<open>r a b c\<close> to
  \<open>r b c a\<close>, for blocks \<open>a\<close>, \<open>b\<close>, \<open>c\<close> of \<open>n\<close>
  items; \<open>PickN\<close> copies and \<open>RollN\<close> moves the item below the \<open>n\<close>
  top ones to the top.  They succeed exactly on the stacks of that shape.
\<close>

theorem stack_transformations:
  assumes "0 < n"
  shows "(DropN n s = Inr s' \<longleftrightarrow> (\<exists>a. s = s' @ a \<and> int (length a) = n)) \<and>
    (DupN n s = Inr s' \<longleftrightarrow> (\<exists>r a. s = r @ a \<and> int (length a) = n \<and> s' = r @ a @ a)) \<and>
    (SwapN n s = Inr s' \<longleftrightarrow> (\<exists>r a b. s = r @ a @ b \<and> int (length a) = n \<and>
      length b = length a \<and> s' = r @ b @ a)) \<and>
    (OverN n s = Inr s' \<longleftrightarrow> (\<exists>r a b. s = r @ a @ b \<and> int (length a) = n \<and>
      length b = length a \<and> s' = r @ a @ b @ a)) \<and>
    (RotN n s = Inr s' \<longleftrightarrow> (\<exists>r a b c. s = r @ a @ b @ c \<and> int (length a) = n \<and>
      length b = length a \<and> length c = length a \<and> s' = r @ b @ c @ a)) \<and>
    (PickN n s = Inr s' \<longleftrightarrow> (\<exists>r x a. s = r @ x # a \<and> int (length a) = n \<and> s' = s @ [x])) \<and>
    (RollN n s = Inr s' \<longleftrightarrow> (\<exists>r x a. s = r @ x # a \<and> int (length a) = n \<and>
      s' = r @ a @ [x]))"
  unfolding DropN_iff [OF assms] DupN_iff [OF assms] SwapN_iff [OF assms] OverN_iff [OF assms]
    RotN_iff [OF assms] PickN_iff RollN_iff
  by simp

theorem stack_transformations_witness:
  "RotN 1 [[], [1], [2], [3]] = Inr [[], [2], [3], [1]]"
proof -
  have "\<exists>r a b c. [[], [1], [2], [3]] = r @ a @ b @ c \<and> int (length a) = 1 \<and>
      length b = length a \<and> length c = length a \<and>
      [[], [2], [3], [1]] = r @ b @ c @ (a :: stack)"
    by (intro exI [of _ "[[]]"] exI [of _ "[[1]]"] exI [of _ "[[2]]"] exI [of _ "[[3]]"]) simp
  then show ?thesis
    using stack_transformations [of 1 "[[], [1], [2], [3]]" "[[], [2], [3], [1]]"] zero_less_one
    by blast
qed

end
