(* ===== verification/Script.thy ===== *)
theory Script
  imports ScriptStack
begin

text \<open>
  Opcodes and parsed scripts, after \<open>src/txscript/script.go\<close> and the table and
  the type \<open>parsedOpcode\<close> of \<open>src/txscript/opcode.go\<close>.  A script is a
  byte string; \<open>parseScript\<close> cuts it into opcodes with the data they push.
  The pointer of a parsed opcode into the opcode table is the table entry
  itself; the handler of an entry is given by the engine.  The data of a parsed
  opcode is nil in Go exactly for the entries of length 1.
\<close>

unbundle bit_operations_syntax

section \<open>Opcodes\<close>

abbreviation (input) OP_0 :: byte where "OP_0 \<equiv> 0x00"
abbreviation (input) OP_FALSE :: byte where "OP_FALSE \<equiv> 0x00"
abbreviation (input) OP_DATA_1 :: byte where "OP_DATA_1 \<equiv> 0x01"
abbreviation (input) OP_DATA_2 :: byte where "OP_DATA_2 \<equiv> 0x02"
abbreviation (input) OP_DATA_20 :: byte where "OP_DATA_20 \<equiv> 0x14"
abbreviation (input) OP_DATA_30 :: byte where "OP_DATA_30 \<equiv> 0x1e"
abbreviation (input) OP_DATA_32 :: byte where "OP_DATA_32 \<equiv> 0x20"
abbreviation (input) OP_DATA_40 :: byte where "OP_DATA_40 \<equiv> 0x28"
abbreviation (input) OP_DATA_75 :: byte where "OP_DATA_75 \<equiv> 0x4b"
abbreviation (input) OP_PUSHDATA1 :: byte where "OP_PUSHDATA1 \<equiv> 0x4c"
abbreviation (input) OP_PUSHDATA2 :: byte where "OP_PUSHDATA2 \<equiv> 0x4d"
abbreviation (input) OP_PUSHDATA4 :: byte where "OP_PUSHDATA4 \<equiv> 0x4e"
abbreviation (input) OP_1NEGATE :: byte where "OP_1NEGATE \<equiv> 0x4f"
abbreviation (input) OP_RESERVED :: byte where "OP_RESERVED \<equiv> 0x50"
abbreviation (input) OP_1 :: byte where "OP_1 \<equiv> 0x51"
abbreviation (input) OP_TRUE :: byte where "OP_TRUE \<equiv> 0x51"
abbreviation (input) OP_2 :: byte where "OP_2 \<equiv> 0x52"
abbreviation (input) OP_3 :: byte where "OP_3 \<equiv> 0x53"
abbreviation (input) OP_4 :: byte where "OP_4 \<equiv> 0x54"
abbreviation (input) OP_5 :: byte where "OP_5 \<equiv> 0x55"
abbreviation (input) OP_6 :: byte where "OP_6 \<equiv> 0x56"
abbreviation (input) OP_7 :: byte where "OP_7 \<equiv> 0x57"
abbreviation (input) OP_8 :: byte where "OP_8 \<equiv> 0x58"
abbreviation (input) OP_9 :: byte where "OP_9 \<equiv> 0x59"
abbreviation (input) OP_10 :: byte where "OP_10 \<equiv> 0x5a"
abbreviation (input) OP_11 :: byte where "OP_11 \<equiv> 0x5b"
abbreviation (input) OP_12 :: byte where "OP_12 \<equiv> 0x5c"
abbreviation (input) OP_13 :: byte where "OP_13 \<equiv> 0x5d"
abbreviation (input) OP_14 :: byte where "OP_14 \<equiv> 0x5e"
abbreviation (input) OP_15 :: byte where "OP_15 \<equiv> 0x5f"
abbreviation (input) OP_16 :: byte where "OP_16 \<equiv> 0x60"
abbreviation (input) OP_NOP :: byte where "OP_NOP \<equiv> 0x61"
abbreviation (input) OP_VER :: byte where "OP_VER \<equiv> 0x62"
abbreviation (input) OP_IF :: byte where "OP_IF \<equiv> 0x63"
abbreviation (input) OP_NOTIF :: byte where "OP_NOTIF \<equiv> 0x64"
abbreviation (input) OP_VERIF :: byte where "OP_VERIF \<equiv> 0x65"
abbreviation (input) OP_VERNOTIF :: byte where "OP_VERNOTIF \<equiv> 0x66"
abbreviation (input) OP_ELSE :: byte where "OP_ELSE \<equiv> 0x67"
abbreviation (input) OP_ENDIF :: byte where "OP_ENDIF \<equiv> 0x68"
abbreviation (input) OP_VERIFY :: byte where "OP_VERIFY \<equiv> 0x69"
abbreviation (input) OP_RETURN :: byte where "OP_RETURN \<equiv> 0x6a"
abbreviation (input) OP_TOALTSTACK :: byte where "OP_TOALTSTACK \<equiv> 0x6b"
abbreviation (input) OP_FROMALTSTACK :: byte where "OP_FROMALTSTACK \<equiv> 0x6c"
abbreviation (input) OP_2DROP :: byte where "OP_2DROP \<equiv> 0x6d"
abbreviation (input) OP_2DUP :: byte where "OP_2DUP \<equiv> 0x6e"
abbreviation (input) OP_3DUP :: byte where "OP_3DUP \<equiv> 0x6f"
abbreviation (input) OP_2OVER :: byte where "OP_2OVER \<equiv> 0x70"
abbreviation (input) OP_2ROT :: byte where "OP_2ROT \<equiv> 0x71"
abbreviation (input) OP_2SWAP :: byte where "OP_2SWAP \<equiv> 0x72"
abbreviation (input) OP_IFDUP :: byte where "OP_IFDUP \<equiv> 0x73"
abbreviation (input) OP_DEPTH :: byte where "OP_DEPTH \<equiv> 0x74"
abbreviation (input) OP_DROP :: byte where "OP_DROP \<equiv> 0x75"
abbreviation (input) OP_DUP :: byte where "OP_DUP \<equiv> 0x76"
abbreviation (input) OP_NIP :: byte where "OP_NIP \<equiv> 0x77"
abbreviation (input) OP_OVER :: byte where "OP_OVER \<equiv> 0x78"
abbreviation (input) OP_PICK :: byte where "OP_PICK \<equiv> 0x79"
abbreviation (input) OP_ROLL :: byte where "OP_ROLL \<equiv> 0x7a"
abbreviation (input) OP_ROT :: byte where "OP_ROT \<equiv> 0x7b"
abbreviation (input) OP_SWAP :: byte where "OP_SWAP \<equiv> 0x7c"
abbreviation (input) OP_TUCK :: byte where "OP_TUCK \<equiv> 0x7d"
abbreviation (input) OP_CAT :: byte where "OP_CAT \<equiv> 0x7e"
abbreviation (input) OP_SUBSTR :: byte where "OP_SUBSTR \<equiv> 0x7f"
abbreviation (input) OP_LEFT :: byte where "OP_LEFT \<equiv> 0x80"
abbreviation (input) OP_RIGHT :: byte where "OP_RIGHT \<equiv> 0x81"
abbreviation (input) OP_SIZE :: byte where "OP_SIZE \<equiv> 0x82"
abbreviation (input) OP_INVERT :: byte where "OP_INVERT \<equiv> 0x83"
abbreviation (input) OP_AND :: byte where "OP_AND \<equiv> 0x84"
abbreviation (input) OP_OR :: byte where "OP_OR \<equiv> 0x85"
abbreviation (input) OP_XOR :: byte where "OP_XOR \<equiv> 0x86"
abbreviation (input) OP_EQUAL :: byte where "OP_EQUAL \<equiv> 0x87"
abbreviation (input) OP_EQUALVERIFY :: byte where "OP_EQUALVERIFY \<equiv> 0x88"
abbreviation (input) OP_ROTR :: byte where "OP_ROTR \<equiv> 0x89"
abbreviation (input) OP_ROTL :: byte where "OP_ROTL \<equiv> 0x8a"
abbreviation (input) OP_1ADD :: byte where "OP_1ADD \<equiv> 0x8b"
abbreviation (input) OP_1SUB :: byte where "OP_1SUB \<equiv> 0x8c"
abbreviation (input) OP_2MUL :: byte where "OP_2MUL \<equiv> 0x8d"
abbreviation (input) OP_2DIV :: byte where "OP_2DIV \<equiv> 0x8e"
abbreviation (input) OP_NEGATE :: byte where "OP_NEGATE \<equiv> 0x8f"
abbreviation (input) OP_ABS :: byte where "OP_ABS \<equiv> 0x90"
abbreviation (input) OP_NOT :: byte where "OP_NOT \<equiv> 0x91"
abbreviation (input) OP_0NOTEQUAL :: byte where "OP_0NOTEQUAL \<equiv> 0x92"
abbreviation (input) OP_ADD :: byte where "OP_ADD \<equiv> 0x93"
abbreviation (input) OP_SUB :: byte where "OP_SUB \<equiv> 0x94"
abbreviation (input) OP_MUL :: byte where "OP_MUL \<equiv> 0x95"
abbreviation (input) OP_DIV :: byte where "OP_DIV \<equiv> 0x96"
abbreviation (input) OP_MOD :: byte where "OP_MOD \<equiv> 0x97"
abbreviation (input) OP_LSHIFT :: byte where "OP_LSHIFT \<equiv> 0x98"
abbreviation (input) OP_RSHIFT :: byte where "OP_RSHIFT \<equiv> 0x99"
abbreviation (input) OP_BOOLAND :: byte where "OP_BOOLAND \<equiv> 0x9a"
abbreviation (input) OP_BOOLOR :: byte where "OP_BOOLOR \<equiv> 0x9b"
abbreviation (input) OP_NUMEQUAL :: byte where "OP_NUMEQUAL \<equiv> 0x9c"
abbreviation (input) OP_NUMEQUALVERIFY :: byte where "OP_NUMEQUALVERIFY \<equiv> 0x9d"
abbreviation (input) OP_NUMNOTEQUAL :: byte where "OP_NUMNOTEQUAL \<equiv> 0x9e"
abbreviation (input) OP_LESSTHAN :: byte where "OP_LESSTHAN \<equiv> 0x9f"
abbreviation (input) OP_GREATERTHAN :: byte where "OP_GREATERTHAN \<equiv> 0xa0"
abbreviation (input) OP_LESSTHANOREQUAL :: byte where "OP_LESSTHANOREQUAL \<equiv> 0xa1"
abbreviation (input) OP_GREATERTHANOREQUAL :: byte where "OP_GREATERTHANOREQUAL \<equiv> 0xa2"
abbreviation (input) OP_MIN :: byte where "OP_MIN \<equiv> 0xa3"
abbreviation (input) OP_MAX :: byte where "OP_MAX \<equiv> 0xa4"
abbreviation (input) OP_WITHIN :: byte where "OP_WITHIN \<equiv> 0xa5"
abbreviation (input) OP_RIPEMD160 :: byte where "OP_RIPEMD160 \<equiv> 0xa6"
abbreviation (input) OP_SHA1 :: byte where "OP_SHA1 \<equiv> 0xa7"
abbreviation (input) OP_BLAKE256 :: byte where "OP_BLAKE256 \<equiv> 0xa8"
abbreviation (input) OP_HASH160 :: byte where "OP_HASH160 \<equiv> 0xa9"
abbreviation (input) OP_HASH256 :: byte where "OP_HASH256 \<equiv> 0xaa"
abbreviation (input) OP_CODESEPARATOR :: byte where "OP_CODESEPARATOR \<equiv> 0xab"
abbreviation (input) OP_CHECKSIG :: byte where "OP_CHECKSIG \<equiv> 0xac"
abbreviation (input) OP_CHECKSIGVERIFY :: byte where "OP_CHECKSIGVERIFY \<equiv> 0xad"
abbreviation (input) OP_CHECKMULTISIG :: byte where "OP_CHECKMULTISIG \<equiv> 0xae"
abbreviation (input) OP_CHECKMULTISIGVERIFY :: byte where "OP_CHECKMULTISIGVERIFY \<equiv> 0xaf"
abbreviation (input) OP_NOP1 :: byte where "OP_NOP1 \<equiv> 0xb0"
abbreviation (input) OP_NOP2 :: byte where "OP_NOP2 \<equiv> 0xb1"
abbreviation (input) OP_CHECKLOCKTIMEVERIFY :: byte where "OP_CHECKLOCKTIMEVERIFY \<equiv> 0xb1"
abbreviation (input) OP_NOP3 :: byte where "OP_NOP3 \<equiv> 0xb2"
abbreviation (input) OP_CHECKSEQUENCEVERIFY :: byte where "OP_CHECKSEQUENCEVERIFY \<equiv> 0xb2"
abbreviation (input) OP_NOP4 :: byte where "OP_NOP4 \<equiv> 0xb3"
abbreviation (input) OP_NOP5 :: byte where "OP_NOP5 \<equiv> 0xb4"
abbreviation (input) OP_NOP6 :: byte where "OP_NOP6 \<equiv> 0xb5"
abbreviation (input) OP_NOP7 :: byte where "OP_NOP7 \<equiv> 0xb6"
abbreviation (input) OP_NOP8 :: byte where "OP_NOP8 \<equiv> 0xb7"
abbreviation (input) OP_NOP9 :: byte where "OP_NOP9 \<equiv> 0xb8"
abbreviation (input) OP_NOP10 :: byte where "OP_NOP10 \<equiv> 0xb9"
abbreviation (input) OP_SSTX :: byte where "OP_SSTX \<equiv> 0xba"
abbreviation (input) OP_SSGEN :: byte where "OP_SSGEN \<equiv> 0xbb"
abbreviation (input) OP_SSRTX :: byte where "OP_SSRTX \<equiv> 0xbc"
abbreviation (input) OP_SSTXCHANGE :: byte where "OP_SSTXCHANGE \<equiv> 0xbd"
abbreviation (input) OP_CHECKSIGALT :: byte where "OP_CHECKSIGALT \<equiv> 0xbe"
abbreviation (input) OP_CHECKSIGALTVERIFY :: byte where "OP_CHECKSIGALTVERIFY \<equiv> 0xbf"
abbreviation (input) OP_SHA256 :: byte where "OP_SHA256 \<equiv> 0xc0"
abbreviation (input) OP_INVALIDOPCODE :: byte where "OP_INVALIDOPCODE \<equiv> 0xff"

record opcode =
  op_value :: byte
  op_length :: int

text \<open>The columns \<open>value\<close> and \<open>length\<close> of the opcode table.\<close>

definition opcodeArray :: "byte \<Rightarrow> opcode" where
  "opcodeArray v =
     \<lparr>op_value = v,
      op_length =
        (if OP_DATA_1 \<le> v \<and> v \<le> OP_DATA_75 then uint v + 1
         else if v = OP_PUSHDATA1 then -1
         else if v = OP_PUSHDATA2 then -2
         else if v = OP_PUSHDATA4 then -4
         else 1)\<rparr>"

record parsedOpcode =
  pop_opcode :: opcode
  pop_data :: "byte list"

abbreviation pvalue :: "parsedOpcode \<Rightarrow> byte" where
  "pvalue pop \<equiv> op_value (pop_opcode pop)"

definition isDisabled :: "parsedOpcode \<Rightarrow> bool" where
  "isDisabled pop \<longleftrightarrow> pvalue pop = OP_CODESEPARATOR"

definition alwaysIllegal :: "parsedOpcode \<Rightarrow> bool" where
  "alwaysIllegal pop \<longleftrightarrow> pvalue pop = OP_VERIF \<or> pvalue pop = OP_VERNOTIF"

definition isConditional :: "parsedOpcode \<Rightarrow> bool" where
  "isConditional pop \<longleftrightarrow> pvalue pop \<in> {OP_IF, OP_NOTIF, OP_ELSE, OP_ENDIF}"

definition checkMinimalDataPush :: "parsedOpcode \<Rightarrow> script_error + unit" where
  "checkMinimalDataPush pop =
     (let data = pop_data pop;
          dataLen = length data;
          opcode = pvalue pop;
          require = (\<lambda>ok. if ok then Inr () else Inl (MalleabilityErr ErrMinimalData))
      in
      if dataLen = 0 \<and> opcode \<noteq> OP_0 then Inl (MalleabilityErr ErrMinimalData)
      else if dataLen = 1 \<and> data ! 0 \<ge> 1 \<and> data ! 0 \<le> 16 then
        require (opcode = OP_1 + data ! 0 - 1)
      else if dataLen = 1 \<and> data ! 0 = 0x81 then require (opcode = OP_1NEGATE)
      else if dataLen \<le> 75 then require (unat opcode = dataLen)
      else if dataLen \<le> 255 then require (opcode = OP_PUSHDATA1)
      else if dataLen \<le> 65535 then require (opcode = OP_PUSHDATA2)
      else Inr ())"

text \<open>The header of a push and the total length it announces.\<close>

definition push_header :: "parsedOpcode \<Rightarrow> byte list \<times> int" where
  "push_header pop =
     (let v = pvalue pop; len = op_length (pop_opcode pop); l = length (pop_data pop) in
      if len = -1 then
        let retbytes = [v, word_of_nat l]
        in (retbytes, uint (retbytes ! 1) + int (length retbytes))
      else if len = -2 then
        let retbytes = v # le_bytes 2 l
        in (retbytes, int (of_le_bytes (drop 1 retbytes)) + int (length retbytes))
      else if len = -4 then
        let retbytes = v # le_bytes 4 l
        in (retbytes, int (of_le_bytes (drop 1 retbytes)) + int (length retbytes))
      else ([v], len))"

definition pop_bytes :: "parsedOpcode \<Rightarrow> script_error + byte list" where
  "pop_bytes pop =
     (if op_length (pop_opcode pop) = 1 then
        if length (pop_data pop) \<noteq> 0 then Inl ErrInternal else Inr [pvalue pop]
      else
        let (retbytes, nbytes) = push_header pop;
            retbytes = retbytes @ pop_data pop
        in if int (length retbytes) \<noteq> nbytes then Inl ErrInternal else Inr retbytes)"

section \<open>Parsing\<close>

definition DefaultScriptVersion :: uint16 where
  "DefaultScriptVersion = 0"

text \<open>The little-endian length of a push; \<open>None\<close> for an invalid opcode length.\<close>

definition push_length :: "int \<Rightarrow> byte list \<Rightarrow> uint64 option" where
  "push_length len s =
     (if len = -1 then Some (ucast (s ! 0))
      else if len = -2 then Some (push_bit 8 (ucast (s ! 1)) OR ucast (s ! 0))
      else if len = -4 then
        Some (push_bit 24 (ucast (s ! 3)) OR push_bit 16 (ucast (s ! 2)) OR
              push_bit 8 (ucast (s ! 1)) OR ucast (s ! 0))
      else None)"

type_synonym parsed = "parsedOpcode list \<times> script_error option"

definition add_pop :: "parsedOpcode \<Rightarrow> parsed option \<Rightarrow> parsed option" where
  "add_pop pop r = map_option (\<lambda>(pops, err). (pop # pops, err)) r"

abbreviation (input) malformed :: "parsed option" where
  "malformed \<equiv> Some ([], Some (OpcodeErr ErrMalformedPush))"

text \<open>
  The loop, on the part of the script from the index \<open>i\<close> on.  A table entry of
  length 0 would not advance the index: then the loop does not end, and
  the result is \<open>None\<close>.
\<close>

function parse_from :: "(byte \<Rightarrow> opcode) \<Rightarrow> byte list \<Rightarrow> parsed option" where
  "parse_from opcodes [] = Some ([], None)"
| "parse_from opcodes (instr # s) =
     (let opc = opcodes instr; len = op_length opc in
      if len = 1 then add_pop \<lparr>pop_opcode = opc, pop_data = []\<rparr> (parse_from opcodes s)
      else if len > 1 then
        if int (length (instr # s)) < len then malformed
        else add_pop \<lparr>pop_opcode = opc, pop_data = take (nat (len - 1)) s\<rparr>
               (parse_from opcodes (drop (nat (len - 1)) s))
      else if len < 0 then
        if int (length s) < - len then malformed
        else case push_length len s of
          None \<Rightarrow> malformed
        | Some l \<Rightarrow>
            let s' = drop (nat (- len)) s in
            if sint l > int (length s') \<or> sint l < 0 then malformed
            else add_pop \<lparr>pop_opcode = opc, pop_data = take (nat (sint l)) s'\<rparr>
                   (parse_from opcodes (drop (nat (sint l)) s'))
      else None)"
  by pat_completeness auto

termination by (relation "measure (length \<circ> snd)") (auto simp: add_pop_def)

declare parse_from.simps(2) [simp del]

definition parseScriptTemplate :: "byte list \<Rightarrow> (byte \<Rightarrow> opcode) \<Rightarrow> parsed option" where
  "parseScriptTemplate script opcodes = parse_from opcodes script"

text \<open>With the table of the package the loop ends (lemma \<open>parse_returns\<close>).\<close>

definition parseScript :: "byte list \<Rightarrow> parsed" where
  "parseScript script = the (parseScriptTemplate script opcodeArray)"

text \<open>\<open>pops, err := parseScript(script); if err != nil { return err }\<close>\<close>

definition parsed_ok :: "byte list \<Rightarrow> script_error + parsedOpcode list" where
  "parsed_ok script =
     (case parseScript script of (pops, None) \<Rightarrow> Inr pops | (_, Some err) \<Rightarrow> Inl err)"

fun unparseScript :: "parsedOpcode list \<Rightarrow> script_error + byte list" where
  "unparseScript [] = Inr []"
| "unparseScript (pop # pops) =
     bindE (pop_bytes pop) (\<lambda>b. bindE (unparseScript pops) (\<lambda>script. Inr (b @ script)))"

section \<open>Queries on parsed scripts\<close>

definition isSmallInt :: "opcode \<Rightarrow> bool" where
  "isSmallInt opc \<longleftrightarrow> op_value opc = OP_0 \<or> op_value opc \<ge> OP_1 \<and> op_value opc \<le> OP_16"

definition isPushOnly :: "parsedOpcode list \<Rightarrow> bool" where
  "isPushOnly pops \<longleftrightarrow> list_all (\<lambda>pop. \<not> pvalue pop > OP_16) pops"

definition isStakeOpcode :: "opcode \<Rightarrow> bool" where
  "isStakeOpcode opc \<longleftrightarrow> op_value opc \<ge> OP_SSTX \<and> op_value opc \<le> OP_SSTXCHANGE"

definition isScriptHash :: "parsedOpcode list \<Rightarrow> bool" where
  "isScriptHash pops \<longleftrightarrow>
     length pops = 3 \<and>
     pvalue (pops ! 0) = OP_HASH160 \<and>
     pvalue (pops ! 1) = OP_DATA_20 \<and>
     pvalue (pops ! 2) = OP_EQUAL"

definition isStakeScriptHash :: "parsedOpcode list \<Rightarrow> bool" where
  "isStakeScriptHash pops \<longleftrightarrow>
     length pops = 4 \<and>
     isStakeOpcode (pop_opcode (pops ! 0)) \<and>
     pvalue (pops ! 1) = OP_HASH160 \<and>
     pvalue (pops ! 2) = OP_DATA_20 \<and>
     pvalue (pops ! 3) = OP_EQUAL"

definition isAnyKindOfScriptHash :: "parsedOpcode list \<Rightarrow> bool" where
  "isAnyKindOfScriptHash pops \<longleftrightarrow> isScriptHash pops \<or> isStakeScriptHash pops"

definition IsPayToScriptHash :: "byte list \<Rightarrow> bool" where
  "IsPayToScriptHash script =
     (case parsed_ok script of Inl _ \<Rightarrow> False | Inr pops \<Rightarrow> isScriptHash pops)"

definition IsPushOnlyScript :: "byte list \<Rightarrow> bool" where
  "IsPushOnlyScript script =
     (case parsed_ok script of Inl _ \<Rightarrow> False | Inr pops \<Rightarrow> isPushOnly pops)"

definition removeOpcode :: "parsedOpcode list \<Rightarrow> byte \<Rightarrow> parsedOpcode list" where
  "removeOpcode pkscript opcode = filter (\<lambda>pop. pvalue pop \<noteq> opcode) pkscript"

definition canonicalPush :: "parsedOpcode \<Rightarrow> bool" where
  "canonicalPush pop =
     (let opcode = pvalue pop; data = pop_data pop; dataLen = length data in
      if opcode > OP_16 then True
      else if opcode < OP_PUSHDATA1 \<and> opcode > OP_0 \<and> dataLen = 1 \<and> data ! 0 \<le> 16 then False
      else if opcode = OP_PUSHDATA1 \<and> dataLen < unat OP_PUSHDATA1 then False
      else if opcode = OP_PUSHDATA2 \<and> dataLen \<le> 0xff then False
      else if opcode = OP_PUSHDATA4 \<and> dataLen \<le> 0xffff then False
      else True)"

text \<open>\<open>bytes.Contains\<close>\<close>

fun bytes_Contains :: "byte list \<Rightarrow> byte list \<Rightarrow> bool" where
  "bytes_Contains [] sub \<longleftrightarrow> sub = []"
| "bytes_Contains (b # bs) sub \<longleftrightarrow>
     take (length sub) (b # bs) = sub \<or> bytes_Contains bs sub"

definition removeOpcodeByData :: "parsedOpcode list \<Rightarrow> byte list \<Rightarrow> parsedOpcode list" where
  "removeOpcodeByData pkscript data =
     filter (\<lambda>pop. \<not> canonicalPush pop \<or> \<not> bytes_Contains (pop_data pop) data) pkscript"

definition asSmallInt :: "opcode \<Rightarrow> int" where
  "asSmallInt opc = (if op_value opc = OP_0 then 0 else uint (op_value opc - (OP_1 - 1)))"

definition MaxPubKeysPerMultiSig :: int where
  "MaxPubKeysPerMultiSig = 20"

text \<open>The loop of \<open>getSigOpCount\<close>; the first argument is the opcode before.\<close>

fun sig_ops :: "bool \<Rightarrow> opcode option \<Rightarrow> parsedOpcode list \<Rightarrow> int" where
  "sig_ops precise prev [] = 0"
| "sig_ops precise prev (pop # pops) =
     (let v = pvalue pop in
      if v \<in> {OP_CHECKSIG, OP_CHECKSIGVERIFY, OP_CHECKSIGALT, OP_CHECKSIGALTVERIFY} then 1
      else if v \<in> {OP_CHECKMULTISIG, OP_CHECKMULTISIGVERIFY} then
        (case prev of
           Some opc \<Rightarrow>
             if precise \<and> op_value opc \<ge> OP_1 \<and> op_value opc \<le> OP_16 then asSmallInt opc
             else MaxPubKeysPerMultiSig
         | None \<Rightarrow> MaxPubKeysPerMultiSig)
      else 0)
     + sig_ops precise (Some (pop_opcode pop)) pops"

definition getSigOpCount :: "parsedOpcode list \<Rightarrow> bool \<Rightarrow> int" where
  "getSigOpCount pops precise = sig_ops precise None pops"

definition GetSigOpCount :: "byte list \<Rightarrow> int" where
  "GetSigOpCount script = getSigOpCount (fst (parseScript script)) False"

definition GetPreciseSigOpCount :: "byte list \<Rightarrow> byte list \<Rightarrow> bool \<Rightarrow> int" where
  "GetPreciseSigOpCount scriptSig scriptPubKey bip16 =
     (let pops = fst (parseScript scriptPubKey) in
      if \<not> (bip16 \<and> isScriptHash pops) then getSigOpCount pops True
      else case parsed_ok scriptSig of
        Inl _ \<Rightarrow> 0
      | Inr sigPops \<Rightarrow>
          if \<not> isPushOnly sigPops \<or> length sigPops = 0 then 0
          else
            let shScript = pop_data (sigPops ! (length sigPops - 1)) in
            if length shScript = 0 then 0
            else getSigOpCount (fst (parseScript shScript)) True)"

definition IsUnspendable :: "int \<Rightarrow> byte list \<Rightarrow> bool" where
  "IsUnspendable amount pkScript =
     (if amount = 0 then True
      else case parsed_ok pkScript of
        Inl _ \<Rightarrow> True
      | Inr pops \<Rightarrow> length pops > 0 \<and> pvalue (pops ! 0) = OP_RETURN)"

text \<open>\<open>src/txscript/consensus.go\<close>; the nil slice is the empty list.\<close>

definition LockTimeThreshold :: int where
  "LockTimeThreshold = 500000000"

definition maxUniqueCoinbaseNullDataSize :: nat where
  "maxUniqueCoinbaseNullDataSize = 256"

definition ExtractCoinbaseNullData :: "byte list \<Rightarrow> script_error + byte list" where
  "ExtractCoinbaseNullData pkScript =
     bindE (parsed_ok pkScript) (\<lambda>pops.
       if length pops = 1 \<and> pvalue (pops ! 0) = OP_RETURN then Inr []
       else if length pops = 2 \<and> pvalue (pops ! 0) = OP_RETURN \<and>
         pvalue (pops ! 1) \<le> OP_PUSHDATA4 \<and>
         length (pop_data (pops ! 1)) \<le> maxUniqueCoinbaseNullDataSize
       then Inr (pop_data (pops ! 1))
       else Inl (ApiErr ErrMalformedCoinbaseNullData))"

section \<open>Parsing and unparsing\<close>

lemma opcodeArray_value [simp]: "op_value (opcodeArray v) = v"
  by (simp add: opcodeArray_def)

text \<open>The four kinds of table entries.\<close>

lemma opcodeArray_cases:
  obtains (plain) "op_length (opcodeArray v) = 1"
  | (data) "OP_DATA_1 \<le> v" "v \<le> OP_DATA_75" "op_length (opcodeArray v) = uint v + 1"
  | (push) k where "k \<in> {1, 2, 4}" "op_length (opcodeArray v) = - int k"
proof -
  consider "OP_DATA_1 \<le> v \<and> v \<le> OP_DATA_75" | "v = OP_PUSHDATA1" | "v = OP_PUSHDATA2"
    | "v = OP_PUSHDATA4"
    | "\<not> (OP_DATA_1 \<le> v \<and> v \<le> OP_DATA_75)" "v \<notin> {OP_PUSHDATA1, OP_PUSHDATA2, OP_PUSHDATA4}"
    by blast
  then show thesis
  proof cases
    case 1
    then show ?thesis using data by (simp add: opcodeArray_def)
  next
    case 2
    then show ?thesis using push [of 1] by (simp add: opcodeArray_def)
  next
    case 3
    then show ?thesis using push [of 2] by (simp add: opcodeArray_def)
  next
    case 4
    then show ?thesis using push [of 4] by (simp add: opcodeArray_def)
  next
    case 5
    then have "op_length (opcodeArray v) = 1" unfolding opcodeArray_def by auto
    then show ?thesis by (rule plain)
  qed
qed

lemma data_length:
  fixes v :: byte
  assumes "OP_DATA_1 \<le> v"
  shows "0 < unat v"
  using assms by (auto simp: word_le_nat_alt)

text \<open>The announced length, as a number.\<close>

lemma push_length_value:
  assumes "k \<in> {1, 2, 4}" "k \<le> length s"
  shows "\<exists>l. push_length (- int k) s = Some l \<and> sint l = int (of_le_bytes (take k s))"
proof -
  have "push_length (- int k) s = Some (num_bits 0 (take k s))"
  proof -
    have bits: "num_bits 0 [a] = ucast a"
      "num_bits 0 [a, b] = push_bit 8 (ucast b) OR ucast a"
      "num_bits 0 [a, b, c, d] =
        push_bit 24 (ucast d) OR push_bit 16 (ucast c) OR push_bit 8 (ucast b) OR ucast a"
      for a b c d
      by (simp_all add: or.commute or.left_commute)
    consider (one) a s' where "k = 1" "s = a # s'" | (two) a b s' where "k = 2" "s = a # b # s'"
      | (four) a b c d s' where "k = 4" "s = a # b # c # d # s'"
      using assms by (auto simp: numeral_eq_Suc Suc_le_length_iff)
    then show ?thesis
      by cases (simp_all add: push_length_def bits del: num_bits.simps)
  qed
  moreover have "of_le_bytes (take k s) < 2 ^ 63"
  proof -
    have "of_le_bytes (take k s) < 256 ^ length (take k s)" by (rule of_le_bytes_bound)
    also have "\<dots> \<le> 256 ^ 4" using assms by (intro power_increasing) auto
    finally show ?thesis by simp
  qed
  moreover have "num_bits 0 (take k s) = word_of_nat (of_le_bytes (take k s))"
    using num_bits_shift [of 0 "take k s"] assms by auto
  ultimately show ?thesis by (simp add: sint_small)
qed

text \<open>A parsed opcode that points into the table of the package.\<close>

definition valid_pop :: "parsedOpcode \<Rightarrow> bool" where
  "valid_pop pop \<longleftrightarrow> opcodeArray (pvalue pop) = pop_opcode pop"

lemma push_header_push:
  assumes "k \<in> {1, 2, 4}" "op_length (pop_opcode pop) = - int k"
  shows "push_header pop =
    (pvalue pop # le_bytes k (length (pop_data pop)),
     int (of_le_bytes (le_bytes k (length (pop_data pop)))) + int (Suc k))"
proof -
  let ?l = "length (pop_data pop)"
  have "(word_of_nat (?l mod 256) :: byte) = word_of_nat ?l"
    by (simp add: word_of_nat_eq_iff take_bit_eq_mod)
  then have one: "le_bytes 1 ?l = [word_of_nat ?l]" by simp
  have two: "of_le_bytes [word_of_nat ?l] = unat (word_of_nat ?l :: byte)" by simp
  consider "k = 1" | "k = 2" | "k = 4" using assms(1) by blast
  then show ?thesis
  proof cases
    case 1
    then have "op_length (pop_opcode pop) = -1" using assms(2) by simp
    then show ?thesis unfolding 1 one two by (simp add: push_header_def Let_def)
  qed (use assms(2) in \<open>simp_all add: push_header_def Let_def\<close>)
qed

text \<open>The bytes of a parsed opcode, by kind of table entry.\<close>

lemma pop_bytes_plain:
  "op_length (pop_opcode pop) = 1 \<Longrightarrow>
    pop_bytes pop = Inr bs \<longleftrightarrow> pop_data pop = [] \<and> bs = [pvalue pop]"
  by (auto simp: pop_bytes_def)

lemma pop_bytes_data:
  "op_length (pop_opcode pop) = int n + 1 \<Longrightarrow> 0 < n \<Longrightarrow>
    pop_bytes pop = Inr bs \<longleftrightarrow> length (pop_data pop) = n \<and> bs = pvalue pop # pop_data pop"
  by (auto simp: pop_bytes_def push_header_def Let_def)

lemma pop_bytes_push:
  "k \<in> {1, 2, 4} \<Longrightarrow> op_length (pop_opcode pop) = - int k \<Longrightarrow>
    pop_bytes pop = Inr bs \<longleftrightarrow>
      of_le_bytes (le_bytes k (length (pop_data pop))) = length (pop_data pop) \<and>
      bs = pvalue pop # le_bytes k (length (pop_data pop)) @ pop_data pop"
  by (auto simp: pop_bytes_def push_header_push)

lemma parse_plain:
  "op_length (opcodes v) = 1 \<Longrightarrow>
    parse_from opcodes (v # s) = add_pop \<lparr>pop_opcode = opcodes v, pop_data = []\<rparr> (parse_from opcodes s)"
  by (simp add: parse_from.simps(2) Let_def)

lemma parse_data:
  "op_length (opcodes v) = int n + 1 \<Longrightarrow> 0 < n \<Longrightarrow>
    parse_from opcodes (v # s) =
      (if length s < n then malformed
       else add_pop \<lparr>pop_opcode = opcodes v, pop_data = take n s\<rparr> (parse_from opcodes (drop n s)))"
  by (simp add: parse_from.simps(2) Let_def)

lemma parse_push:
  assumes "k \<in> {1, 2, 4}" "op_length (opcodes v) = - int k"
  shows "parse_from opcodes (v # s) =
    (let l = of_le_bytes (take k s); s' = drop k s in
     if length s < k \<or> length s' < l then malformed
     else add_pop \<lparr>pop_opcode = opcodes v, pop_data = take l s'\<rparr> (parse_from opcodes (drop l s')))"
proof (cases "length s < k")
  case False
  with push_length_value [of k s] assms(1) obtain l
    where "push_length (- int k) s = Some l" "sint l = int (of_le_bytes (take k s))" by auto
  moreover have "0 < k" using assms(1) by auto
  ultimately show ?thesis using assms(2) False by (simp add: parse_from.simps(2) Let_def)
qed (use assms in \<open>auto simp: parse_from.simps(2) Let_def\<close>)

text \<open>The bytes of an opcode parse back to it.\<close>

lemma parse_pop:
  assumes "valid_pop pop" and bytes: "pop_bytes pop = Inr bs"
  shows "parse_from opcodeArray (bs @ rest) = add_pop pop (parse_from opcodeArray rest)"
proof -
  define v where "v = pvalue pop"
  define d where "d = pop_data pop"
  have d: "pop_data pop = d" by (simp add: d_def)
  have opc: "pop_opcode pop = opcodeArray v" using assms(1) by (simp add: valid_pop_def v_def)
  have pop: "add_pop pop = add_pop \<lparr>pop_opcode = opcodeArray v, pop_data = d\<rparr>"
    unfolding opc [symmetric] d_def by (cases pop) simp
  show ?thesis
  proof (cases v rule: opcodeArray_cases)
    case plain
    with bytes have "d = []" "bs = [v]"
      using pop_bytes_plain [of pop bs] by (simp_all add: opc d)
    with parse_plain [of opcodeArray, OF plain, of rest] show ?thesis by (simp add: pop)
  next
    case data
    then have n: "op_length (opcodeArray v) = int (unat v) + 1" "0 < unat v"
      using data_length [of v] by simp_all
    with bytes have b: "length d = unat v" "bs = v # d"
      using pop_bytes_data [of pop "unat v" bs] by (simp_all add: opc d)
    with parse_data [of opcodeArray, OF n, of "d @ rest"] show ?thesis by (simp add: pop)
  next
    case (push k)
    with bytes have b: "of_le_bytes (le_bytes k (length d)) = length d"
      "bs = v # le_bytes k (length d) @ d"
      using pop_bytes_push [of k pop bs] by (simp_all add: opc d)
    with parse_push [of k opcodeArray, OF push, of "le_bytes k (length d) @ d @ rest"]
    show ?thesis by (simp add: pop)
  qed
qed

text \<open>The next opcode of a script: either it is malformed, or its bytes are cut off.\<close>

lemma parse_step:
  assumes "s \<noteq> []"
  shows "parse_from opcodeArray s = malformed \<or>
    (\<exists>pop bs rest. s = bs @ rest \<and> bs \<noteq> [] \<and> valid_pop pop \<and> pop_bytes pop = Inr bs \<and>
      parse_from opcodeArray s = add_pop pop (parse_from opcodeArray rest))"
proof -
  obtain v t where s: "s = v # t" using assms by (cases s) auto
  have cut: ?thesis
    if "bs \<noteq> []" "s = bs @ rest" "valid_pop pop" "pop_bytes pop = Inr bs" for bs rest pop
    using that parse_pop [of pop bs rest] by blast
  show ?thesis
  proof (cases v rule: opcodeArray_cases)
    case plain
    then show ?thesis
      by (intro cut [of "[v]" t "\<lparr>pop_opcode = opcodeArray v, pop_data = []\<rparr>"])
        (simp_all add: s valid_pop_def pop_bytes_plain)
  next
    case data
    then have n: "op_length (opcodeArray v) = int (unat v) + 1" "0 < unat v"
      using data_length [of v] by simp_all
    show ?thesis
    proof (cases "length t < unat v")
      case True
      with parse_data [of opcodeArray v "unat v" t] n s show ?thesis by simp
    next
      case False
      with n show ?thesis
        by (intro cut [of "v # take (unat v) t" "drop (unat v) t"
            "\<lparr>pop_opcode = opcodeArray v, pop_data = take (unat v) t\<rparr>"])
          (simp_all add: s valid_pop_def pop_bytes_data [of _ "unat v"])
    qed
  next
    case (push k)
    define l where "l = of_le_bytes (take k t)"
    show ?thesis
    proof (cases "length t < k \<or> length (drop k t) < l")
      case True
      with parse_push [of k opcodeArray v t] push s show ?thesis by (simp add: Let_def l_def)
    next
      case False
      then have "le_bytes k l = take k t"
        using le_bytes_of_le_bytes [of "take k t"] by (simp add: l_def min_absorb2)
      moreover have "t = take k t @ take l (drop k t) @ drop l (drop k t)"
        by (simp del: drop_drop)
      ultimately show ?thesis using False push
        by (intro cut [of "v # take k t @ take l (drop k t)" "drop l (drop k t)"
            "\<lparr>pop_opcode = opcodeArray v, pop_data = take l (drop k t)\<rparr>"])
          (simp_all add: s valid_pop_def pop_bytes_push min_absorb2 l_def [symmetric] del: drop_drop)
    qed
  qed
qed

text \<open>
  Parsing ends, and what it returns is the bytes it has consumed; it stops only
  at the end of the script or at a malformed push.
\<close>

lemma parse_sound:
  "\<exists>pops e. parse_from opcodeArray s = Some (pops, e) \<and> list_all valid_pop pops \<and>
    (\<exists>bs rest. unparseScript pops = Inr bs \<and> s = bs @ rest \<and>
      (e = None \<and> rest = [] \<or>
       e = Some (OpcodeErr ErrMalformedPush) \<and> rest \<noteq> [] \<and> parse_from opcodeArray rest = malformed))"
proof (induction "length s" arbitrary: s rule: less_induct)
  case less
  consider "s = []" | "s \<noteq> []" "parse_from opcodeArray s = malformed"
    | pop b t where "s = b @ t" "b \<noteq> []" "valid_pop pop" "pop_bytes pop = Inr b"
        "parse_from opcodeArray s = add_pop pop (parse_from opcodeArray t)"
    using parse_step [of s] by blast
  then show ?case
  proof cases
    case 3
    then have "length t < length s" by simp
    then obtain pops e bs rest where "parse_from opcodeArray t = Some (pops, e)"
      "list_all valid_pop pops" "unparseScript pops = Inr bs" "t = bs @ rest"
      "e = None \<and> rest = [] \<or>
       e = Some (OpcodeErr ErrMalformedPush) \<and> rest \<noteq> [] \<and> parse_from opcodeArray rest = malformed"
      using less by blast
    with 3 show ?thesis
      by (intro exI [of _ "pop # pops"] exI [of _ e]) (auto simp: add_pop_def)
  qed auto
qed

lemma parse_returns: "parse_from opcodeArray s = Some (parseScript s)"
  using parse_sound [of s] by (auto simp: parseScript_def parseScriptTemplate_def)

lemma parseScript_Nil [simp]: "parseScript [] = ([], None)"
  using parse_returns [of "[]"] by simp

lemma parseScript_pop:
  "valid_pop pop \<Longrightarrow> pop_bytes pop = Inr bs \<Longrightarrow>
    parseScript (bs @ rest) = (pop # fst (parseScript rest), snd (parseScript rest))"
  using parse_pop [of pop bs rest]
  by (simp add: parse_returns add_pop_def case_prod_beta)

lemma parseScript_unparse:
  "list_all valid_pop pops \<Longrightarrow> unparseScript pops = Inr bs \<Longrightarrow>
    parseScript (bs @ rest) = (pops @ fst (parseScript rest), snd (parseScript rest))"
  by (induction pops arbitrary: bs) (auto simp: bindE_eq_Inr_iff parseScript_pop)

lemma parseScript_error:
  "snd (parseScript s) = Some e \<Longrightarrow> e = OpcodeErr ErrMalformedPush"
  using parse_sound [of s] by (auto simp: parse_returns)

lemma parsed_ok_iff: "parsed_ok s = Inr pops \<longleftrightarrow> parseScript s = (pops, None)"
  by (auto simp: parsed_ok_def split: prod.splits option.splits)

lemma parsed_ok_error: "parsed_ok s = Inl e \<Longrightarrow> e = OpcodeErr ErrMalformedPush"
  using parseScript_error [of s e]
  by (auto simp: parsed_ok_def split: prod.splits option.splits)

lemma parseScript_ok_iff:
  "parseScript s = (pops, None) \<longleftrightarrow> list_all valid_pop pops \<and> unparseScript pops = Inr s"
  using parse_sound [of s] parseScript_unparse [of pops s "[]"] by (auto simp: parse_returns)

section \<open>Properties\<close>

text \<open>
  C21: Parsing inverts unparsing.  \<open>parseScript\<close> always returns; it succeeds
  with \<open>pops\<close> exactly on the bytes that \<open>unparseScript\<close> gives for
  \<open>pops\<close>, for opcodes of the table; and in every case the opcodes it returns
  unparse to a prefix of the script, which is the whole script exactly if
  there is no error.
\<close>

theorem parse_unparse:
  "parseScriptTemplate s opcodeArray = Some (parseScript s) \<and>
   (parseScript s = (pops, None) \<longleftrightarrow> list_all valid_pop pops \<and> unparseScript pops = Inr s) \<and>
   (\<exists>bs rest. unparseScript (fst (parseScript s)) = Inr bs \<and> s = bs @ rest \<and>
     (snd (parseScript s) = None \<longleftrightarrow> rest = []))"
proof (intro conjI)
  show "parseScriptTemplate s opcodeArray = Some (parseScript s)"
    by (simp add: parseScriptTemplate_def parse_returns)
  show "parseScript s = (pops, None) \<longleftrightarrow> list_all valid_pop pops \<and> unparseScript pops = Inr s"
    by (rule parseScript_ok_iff)
  show "\<exists>bs rest. unparseScript (fst (parseScript s)) = Inr bs \<and> s = bs @ rest \<and>
      (snd (parseScript s) = None \<longleftrightarrow> rest = [])"
    using parse_sound [of s] by (auto simp: parse_returns)
qed

end
