(* ===== verification/Standard.thy ===== *)
theory Standard
  imports Script
begin

text \<open>
  Standard script classes, after \<open>src/txscript/standard.go\<close>: the recognition of
  the payment forms and of the stake forms among parsed scripts, and the
  queries on the scripts of a transaction that rest on it.
\<close>

unbundle bit_operations_syntax

section \<open>Classes\<close>

datatype ScriptClass =
    NonStandardTy | PubKeyTy | PubKeyHashTy | ScriptHashTy | MultiSigTy | NullDataTy
  | StakeSubmissionTy | StakeGenTy | StakeRevocationTy | StakeSubChangeTy | PubkeyAltTy
  | PubkeyHashAltTy

definition MaxDataCarrierSize :: nat where
  "MaxDataCarrierSize = 256"

definition isPubkey :: "parsedOpcode list \<Rightarrow> bool" where
  "isPubkey pops \<longleftrightarrow>
     length pops = 2 \<and>
     (length (pop_data (pops ! 0)) = 33 \<or> length (pop_data (pops ! 0)) = 65) \<and>
     pvalue (pops ! 1) = OP_CHECKSIG"

definition isOneByteMaxDataPush :: "parsedOpcode \<Rightarrow> bool" where
  "isOneByteMaxDataPush po \<longleftrightarrow>
     pvalue po \<in> {OP_1, OP_2, OP_3, OP_4, OP_5, OP_6, OP_7, OP_8, OP_9, OP_10, OP_11, OP_12, OP_13,
       OP_14, OP_15, OP_16, OP_DATA_1}"

definition isPubkeyAlt :: "parsedOpcode list \<Rightarrow> bool" where
  "isPubkeyAlt pops \<longleftrightarrow>
     length pops = 3 \<and>
     length (pop_data (pops ! 0)) < 512 \<and>
     isOneByteMaxDataPush (pops ! 1) \<and>
     pvalue (pops ! 2) = OP_CHECKSIGALT"

definition isPubkeyHash :: "parsedOpcode list \<Rightarrow> bool" where
  "isPubkeyHash pops \<longleftrightarrow>
     length pops = 5 \<and>
     pvalue (pops ! 0) = OP_DUP \<and>
     pvalue (pops ! 1) = OP_HASH160 \<and>
     pvalue (pops ! 2) = OP_DATA_20 \<and>
     pvalue (pops ! 3) = OP_EQUALVERIFY \<and>
     pvalue (pops ! 4) = OP_CHECKSIG"

definition isPubkeyHashAlt :: "parsedOpcode list \<Rightarrow> bool" where
  "isPubkeyHashAlt pops \<longleftrightarrow>
     length pops = 6 \<and>
     pvalue (pops ! 0) = OP_DUP \<and>
     pvalue (pops ! 1) = OP_HASH160 \<and>
     pvalue (pops ! 2) = OP_DATA_20 \<and>
     pvalue (pops ! 3) = OP_EQUALVERIFY \<and>
     isOneByteMaxDataPush (pops ! 4) \<and>
     pvalue (pops ! 5) = OP_CHECKSIGALT"

definition isMultiSig :: "parsedOpcode list \<Rightarrow> bool" where
  "isMultiSig pops =
     (let l = length pops in
      if l < 4 then False
      else if \<not> isSmallInt (pop_opcode (pops ! 0)) then False
      else if \<not> isSmallInt (pop_opcode (pops ! (l - 2))) then False
      else if pvalue (pops ! (l - 1)) \<noteq> OP_CHECKMULTISIG then False
      else if int l - 2 - 1 \<noteq> asSmallInt (pop_opcode (pops ! (l - 2))) then False
      else list_all (\<lambda>pop. \<not> (length (pop_data pop) \<noteq> 33 \<and> length (pop_data pop) \<noteq> 65))
             (drop 1 (take (l - 2) pops)))"

definition isNullData :: "parsedOpcode list \<Rightarrow> bool" where
  "isNullData pops =
     (let l = length pops in
      if l = 1 \<and> pvalue (pops ! 0) = OP_RETURN then True
      else l = 2 \<and>
        pvalue (pops ! 0) = OP_RETURN \<and>
        (isSmallInt (pop_opcode (pops ! 1)) \<or> pvalue (pops ! 1) \<le> OP_PUSHDATA4) \<and>
        length (pop_data (pops ! 1)) \<le> MaxDataCarrierSize)"

text \<open>
  The four stake forms differ in their first opcode only; this is the body
  that they share.
\<close>

definition stake_form :: "byte \<Rightarrow> parsedOpcode list \<Rightarrow> bool" where
  "stake_form tag pops =
     (if length pops = 6 \<and>
         pvalue (pops ! 0) = tag \<and>
         pvalue (pops ! 1) = OP_DUP \<and>
         pvalue (pops ! 2) = OP_HASH160 \<and>
         pvalue (pops ! 3) = OP_DATA_20 \<and>
         pvalue (pops ! 4) = OP_EQUALVERIFY \<and>
         pvalue (pops ! 5) = OP_CHECKSIG then True
      else
        length pops = 4 \<and>
        pvalue (pops ! 0) = tag \<and>
        pvalue (pops ! 1) = OP_HASH160 \<and>
        pvalue (pops ! 2) = OP_DATA_20 \<and>
        pvalue (pops ! 3) = OP_EQUAL)"

definition isStakeSubmission :: "parsedOpcode list \<Rightarrow> bool" where
  "isStakeSubmission pops = stake_form OP_SSTX pops"

definition isStakeGen :: "parsedOpcode list \<Rightarrow> bool" where
  "isStakeGen pops = stake_form OP_SSGEN pops"

definition isStakeRevocation :: "parsedOpcode list \<Rightarrow> bool" where
  "isStakeRevocation pops = stake_form OP_SSRTX pops"

definition isSStxChange :: "parsedOpcode list \<Rightarrow> bool" where
  "isSStxChange pops = stake_form OP_SSTXCHANGE pops"

definition typeOfScript :: "parsedOpcode list \<Rightarrow> ScriptClass" where
  "typeOfScript pops =
     (if isPubkey pops then PubKeyTy
      else if isPubkeyAlt pops then PubkeyAltTy
      else if isPubkeyHash pops then PubKeyHashTy
      else if isPubkeyHashAlt pops then PubkeyHashAltTy
      else if isScriptHash pops then ScriptHashTy
      else if isMultiSig pops then MultiSigTy
      else if isNullData pops then NullDataTy
      else if isStakeSubmission pops then StakeSubmissionTy
      else if isStakeGen pops then StakeGenTy
      else if isStakeRevocation pops then StakeRevocationTy
      else if isSStxChange pops then StakeSubChangeTy
      else NonStandardTy)"

definition GetScriptClass :: "uint16 \<Rightarrow> byte list \<Rightarrow> ScriptClass" where
  "GetScriptClass version script =
     (if version \<noteq> DefaultScriptVersion then NonStandardTy
      else case parsed_ok script of Inl _ \<Rightarrow> NonStandardTy | Inr pops \<Rightarrow> typeOfScript pops)"

definition stake_class :: "ScriptClass \<Rightarrow> bool" where
  "stake_class class \<longleftrightarrow>
     class = StakeSubmissionTy \<or> class = StakeGenTy \<or> class = StakeRevocationTy \<or>
     class = StakeSubChangeTy"

definition expectedInputs :: "parsedOpcode list \<Rightarrow> ScriptClass \<Rightarrow> ScriptClass \<Rightarrow> int" where
  "expectedInputs pops class subclass =
     (case class of
        PubKeyTy \<Rightarrow> 1
      | PubKeyHashTy \<Rightarrow> 2
      | StakeSubmissionTy \<Rightarrow> (if subclass = PubKeyHashTy then 2 else 1)
      | StakeGenTy \<Rightarrow> (if subclass = PubKeyHashTy then 2 else 1)
      | StakeRevocationTy \<Rightarrow> (if subclass = PubKeyHashTy then 2 else 1)
      | StakeSubChangeTy \<Rightarrow> (if subclass = PubKeyHashTy then 2 else 1)
      | ScriptHashTy \<Rightarrow> 1
      | MultiSigTy \<Rightarrow> asSmallInt (pop_opcode (pops ! 0))
      | _ \<Rightarrow> -1)"

section \<open>Queries on scripts\<close>

definition IsMultisigScript :: "byte list \<Rightarrow> script_error + bool" where
  "IsMultisigScript script = bindE (parsed_ok script) (\<lambda>pops. Inr (isMultiSig pops))"

definition IsMultisigSigScript :: "byte list \<Rightarrow> script_error + bool" where
  "IsMultisigSigScript script =
     (if length script = 0 then Inr False
      else case parsed_ok script of
        Inl _ \<Rightarrow> Inr False
      | Inr pops \<Rightarrow>
          if length pops = 0 then Inl IndexPanic
          else case parsed_ok (pop_data (pops ! (length pops - 1))) of
            Inl _ \<Rightarrow> Inr False
          | Inr subPops \<Rightarrow> Inr (isMultiSig subPops))"

definition IsStakeOutput :: "byte list \<Rightarrow> bool" where
  "IsStakeOutput pkScript =
     (case parsed_ok pkScript of Inl _ \<Rightarrow> False | Inr pkPops \<Rightarrow> stake_class (typeOfScript pkPops))"

definition GetStakeOutSubclass :: "byte list \<Rightarrow> script_error + ScriptClass" where
  "GetStakeOutSubclass pkScript =
     bindE (parsed_ok pkScript) (\<lambda>pkPops.
       if stake_class (typeOfScript pkPops) then
         Inr (typeOfScript (filter (\<lambda>pop. \<not> isStakeOpcode (pop_opcode pop)) pkPops))
       else Inl PlainErr)"

definition getStakeOutSubscript :: "byte list \<Rightarrow> script_error + byte list" where
  "getStakeOutSubscript pkScript =
     (if length pkScript < 1 then Inl IndexPanic else Inr (drop 1 pkScript))"

definition ContainsStakeOpCodes :: "byte list \<Rightarrow> script_error + bool" where
  "ContainsStakeOpCodes pkScript =
     bindE (parsed_ok pkScript) (\<lambda>shPops.
       Inr (list_ex (\<lambda>pop. isStakeOpcode (pop_opcode pop)) shPops))"

text \<open>\<open>pop.data != nil\<close> holds for the entries that push data from the script.\<close>

definition data_nil :: "parsedOpcode \<Rightarrow> bool" where
  "data_nil pop \<longleftrightarrow> op_length (pop_opcode pop) = 1"

fun pushed :: "parsedOpcode list \<Rightarrow> byte list list" where
  "pushed [] = []"
| "pushed (pop # pops) =
     (if \<not> data_nil pop then pop_data pop # pushed pops
      else if pvalue pop = OP_0 then [] # pushed pops
      else pushed pops)"

definition PushedData :: "byte list \<Rightarrow> script_error + byte list list" where
  "PushedData script = bindE (parsed_ok script) (\<lambda>pops. Inr (pushed pops))"

text \<open>\<open>HasP2SHScriptSigStakeOpCodes\<close> of \<open>script.go\<close>\<close>

definition HasP2SHScriptSigStakeOpCodes :: "uint16 \<Rightarrow> byte list \<Rightarrow> byte list \<Rightarrow> script_error + unit" where
  "HasP2SHScriptSigStakeOpCodes version scriptSig scriptPubKey =
     (let class = GetScriptClass version scriptPubKey;
          class = (if IsStakeOutput scriptPubKey then
                     case GetStakeOutSubclass scriptPubKey of Inl _ \<Rightarrow> NonStandardTy | Inr c \<Rightarrow> c
                   else class)
      in
      if class = ScriptHashTy then
        bindE (PushedData scriptSig) (\<lambda>pData.
        if length pData = 0 then Inl (MalleabilityErr ErrNotPushOnly)
        else
          let shScript = pData ! (length pData - 1) in
          bindE (ContainsStakeOpCodes shScript) (\<lambda>hasStakeOpCodes.
          if hasStakeOpCodes then Inl (OpcodeErr ErrP2SHStakeOpCodes) else Inr ()))
      else Inr ())"

record ScriptInfo =
  PkScriptClass :: ScriptClass
  NumInputs :: int
  ExpectedInputs :: int
  SigOps :: int

definition CalcScriptInfo :: "byte list \<Rightarrow> byte list \<Rightarrow> bool \<Rightarrow> script_error + ScriptInfo" where
  "CalcScriptInfo sigScript pkScript bip16 =
     bindE (parsed_ok sigScript) (\<lambda>sigPops.
     bindE (parsed_ok pkScript) (\<lambda>pkPops.
       let class = typeOfScript pkPops in
       if \<not> isPushOnly sigPops then Inl (MalleabilityErr ErrNotPushOnly)
       else
         bindE (if stake_class class then GetStakeOutSubclass pkScript else Inr NonStandardTy)
           (\<lambda>subClass.
         let expected = expectedInputs pkPops class subClass;
             inputs = int (length sigPops)
         in
         if (class = ScriptHashTy \<or> subClass = ScriptHashTy) \<and> bip16 then
           if length sigPops = 0 then Inl IndexPanic
           else
             bindE (parsed_ok (pop_data (sigPops ! (length sigPops - 1)))) (\<lambda>shPops.
             let shInputs = expectedInputs shPops (typeOfScript shPops) NonStandardTy in
             Inr \<lparr>PkScriptClass = class, NumInputs = inputs,
                  ExpectedInputs = (if shInputs = -1 then -1 else expected + shInputs),
                  SigOps = getSigOpCount shPops True\<rparr>)
         else
           Inr \<lparr>PkScriptClass = class, NumInputs = inputs, ExpectedInputs = expected,
                SigOps = getSigOpCount pkPops True\<rparr>)))"

definition CalcMultiSigStats :: "byte list \<Rightarrow> script_error + int \<times> int" where
  "CalcMultiSigStats script =
     bindE (parsed_ok script) (\<lambda>pops.
       if length pops < 4 then Inl (ApiErr ErrNotMultisigScript)
       else
         let numSigs = asSmallInt (pop_opcode (pops ! 0));
             numPubKeys = asSmallInt (pop_opcode (pops ! (length pops - 2)))
         in Inr (numPubKeys, numSigs))"

definition MultisigRedeemScriptFromScriptSig :: "byte list \<Rightarrow> script_error + byte list" where
  "MultisigRedeemScriptFromScriptSig script =
     bindE (parsed_ok script) (\<lambda>pops.
       if length pops = 0 then Inl IndexPanic
       else Inr (pop_data (pops ! (length pops - 1))))"

text \<open>The loop of \<open>GetScriptHashFromP2SHScript\<close>; \<open>None\<close> is the nil slice.\<close>

fun hash_push :: "bool \<Rightarrow> parsedOpcode list \<Rightarrow> byte list option" where
  "hash_push reached [] = None"
| "hash_push reached (p # pops) =
     (if pvalue p = OP_HASH160 then hash_push True pops
      else if reached then (if data_nil p then None else Some (pop_data p))
      else hash_push reached pops)"

definition GetScriptHashFromP2SHScript :: "byte list \<Rightarrow> script_error + byte list option" where
  "GetScriptHashFromP2SHScript pkScript =
     bindE (parsed_ok pkScript) (\<lambda>pops. Inr (hash_push False pops))"

definition GetMultisigMandN :: "byte list \<Rightarrow> script_error + byte \<times> byte" where
  "GetMultisigMandN script =
     bindE (parsed_ok script) (\<lambda>pops.
       if length pops < 2 then Inl IndexPanic
       else Inr (word_of_int (asSmallInt (pop_opcode (pops ! 0))),
                 word_of_int (asSmallInt (pop_opcode (pops ! (length pops - 2))))))"

section \<open>Alternative signatures and atomic swaps\<close>

definition STEcdsaSecp256k1 :: int where "STEcdsaSecp256k1 = 0"
definition STEd25519 :: int where "STEd25519 = 1"
definition STSchnorrSecp256k1 :: int where "STSchnorrSecp256k1 = 2"

definition extractOneBytePush :: "parsedOpcode \<Rightarrow> script_error + int" where
  "extractOneBytePush po =
     (if \<not> isOneByteMaxDataPush po then Inr (-1)
      else if pvalue po \<in> {OP_1, OP_2, OP_3, OP_4, OP_5, OP_6, OP_7, OP_8, OP_9, OP_10, OP_11, OP_12,
        OP_13, OP_14, OP_15, OP_16} then Inr (uint (pvalue po - 80))
      else if length (pop_data po) = 0 then Inl IndexPanic
      else Inr (uint (pop_data po ! 0)))"

definition ExtractPkScriptAltSigType :: "byte list \<Rightarrow> script_error + int" where
  "ExtractPkScriptAltSigType pkScript =
     bindE (parsed_ok pkScript) (\<lambda>pops.
       let isPKA = isPubkeyAlt pops; isPKHA = isPubkeyHashAlt pops in
       if \<not> (isPKA \<or> isPKHA) then Inl PlainErr
       else
         bindE (extractOneBytePush (pops ! (if isPKHA then 4 else 1))) (\<lambda>valInt.
         if valInt < 0 then Inl PlainErr
         else if valInt = STEd25519 \<or> valInt = STSchnorrSecp256k1 then Inr valInt
         else Inl PlainErr))"

record AtomicSwapDataPushes =
  RecipientHash160 :: "byte list"
  RefundHash160 :: "byte list"
  SecretHash :: "byte list"
  SecretSize :: int
  swap_LockTime :: int

text \<open>\<open>copy(a[:], data)\<close> into a zeroed array of \<open>n\<close> bytes\<close>

definition copy_array :: "nat \<Rightarrow> byte list \<Rightarrow> byte list" where
  "copy_array n data = take n (data @ replicate n 0)"

text \<open>The number that a push of an atomic swap gives; \<open>None\<close> rejects the contract.\<close>

definition swap_number :: "parsedOpcode \<Rightarrow> int option" where
  "swap_number pop =
     (if \<not> data_nil pop then
        case makeScriptNum (pop_data pop) 5 of Inl _ \<Rightarrow> None | Inr n \<Rightarrow> Some n
      else if isSmallInt (pop_opcode pop) then Some (asSmallInt (pop_opcode pop))
      else None)"

definition is_atomic_swap :: "parsedOpcode list \<Rightarrow> bool" where
  "is_atomic_swap pops \<longleftrightarrow>
     pvalue (pops ! 0) = OP_IF \<and>
     pvalue (pops ! 1) = OP_SIZE \<and>
     canonicalPush (pops ! 2) \<and>
     pvalue (pops ! 3) = OP_EQUALVERIFY \<and>
     pvalue (pops ! 4) = OP_SHA256 \<and>
     pvalue (pops ! 5) = OP_DATA_32 \<and>
     pvalue (pops ! 6) = OP_EQUALVERIFY \<and>
     pvalue (pops ! 7) = OP_DUP \<and>
     pvalue (pops ! 8) = OP_HASH160 \<and>
     pvalue (pops ! 9) = OP_DATA_20 \<and>
     pvalue (pops ! 10) = OP_ELSE \<and>
     canonicalPush (pops ! 11) \<and>
     pvalue (pops ! 12) = OP_CHECKLOCKTIMEVERIFY \<and>
     pvalue (pops ! 13) = OP_DROP \<and>
     pvalue (pops ! 14) = OP_DUP \<and>
     pvalue (pops ! 15) = OP_HASH160 \<and>
     pvalue (pops ! 16) = OP_DATA_20 \<and>
     pvalue (pops ! 17) = OP_ENDIF \<and>
     pvalue (pops ! 18) = OP_EQUALVERIFY \<and>
     pvalue (pops ! 19) = OP_CHECKSIG"

definition ExtractAtomicSwapDataPushes ::
  "uint16 \<Rightarrow> byte list \<Rightarrow> script_error + AtomicSwapDataPushes option" where
  "ExtractAtomicSwapDataPushes version pkScript =
     bindE (parsed_ok pkScript) (\<lambda>pops.
       if length pops \<noteq> 20 then Inr None
       else if \<not> is_atomic_swap pops then Inr None
       else case swap_number (pops ! 2) of
         None \<Rightarrow> Inr None
       | Some secretSize \<Rightarrow>
           (case swap_number (pops ! 11) of
              None \<Rightarrow> Inr None
            | Some lockTime \<Rightarrow>
                Inr (Some
                  \<lparr>RecipientHash160 = copy_array 20 (pop_data (pops ! 9)),
                   RefundHash160 = copy_array 20 (pop_data (pops ! 16)),
                   SecretHash = copy_array 32 (pop_data (pops ! 5)),
                   SecretSize = secretSize,
                   swap_LockTime = lockTime\<rparr>)))"

end
