(* ===== verification/SigHash.thy ===== *)
theory SigHash
  imports Script MsgTx
begin

text \<open>
  The message that a signature of a transaction input signs, after
  \<open>src/txscript/sighash.go\<close>.  The hash function is the parameter
  \<open>HashH\<close>; \<open>optimize\<close> is the variable \<open>chaincfg.SigHashOptimization\<close>.
  Bytes that the source writes into a buffer of a size computed beforehand are
  written by \<open>fill_buf\<close>, which panics if the buffer is too small and leaves zero
  bytes if it is too large.
\<close>

unbundle bit_operations_syntax

section \<open>Serialization\<close>

type_synonym SigHashType = byte

definition SigHashAll :: SigHashType where "SigHashAll = 0x1"
definition SigHashNone :: SigHashType where "SigHashNone = 0x2"
definition SigHashSingle :: SigHashType where "SigHashSingle = 0x3"
definition SigHashAnyOneCanPay :: SigHashType where "SigHashAnyOneCanPay = 0x80"
definition sigHashMask :: SigHashType where "sigHashMask = 0x1f"

definition SigHashSerializePrefix :: uint32 where "SigHashSerializePrefix = 1"
definition SigHashSerializeWitness :: uint32 where "SigHashSerializeWitness = 3"

lemmas sig_hash_types = SigHashAll_def SigHashNone_def SigHashSingle_def SigHashAnyOneCanPay_def
  sigHashMask_def

definition varIntSerializeSize :: "uint64 \<Rightarrow> nat" where
  "varIntSerializeSize val =
     (if val < 0xfd then 1
      else if val \<le> 0xffff then 3
      else if val \<le> 0xffffffff then 5
      else 9)"

definition putVarInt :: "uint64 \<Rightarrow> byte list" where
  "putVarInt val =
     (if val < 0xfd then [ucast val]
      else if val \<le> 0xffff then 0xfd # le_bytes 2 (unat (ucast val :: uint16))
      else if val \<le> 0xffffffff then 0xfe # le_bytes 4 (unat (ucast val :: uint32))
      else 0xff # le_bytes 8 (unat val))"

definition putByte :: "byte \<Rightarrow> byte list" where
  "putByte val = [val]"

definition putUint16LE :: "uint16 \<Rightarrow> byte list" where
  "putUint16LE val = le_bytes 2 (unat val)"

definition putUint32LE :: "uint32 \<Rightarrow> byte list" where
  "putUint32LE val = le_bytes 4 (unat val)"

definition putUint64LE :: "uint64 \<Rightarrow> byte list" where
  "putUint64LE val = le_bytes 8 (unat val)"

definition fill_buf :: "int \<Rightarrow> byte list \<Rightarrow> script_error + byte list" where
  "fill_buf n bs =
     (if int (length bs) > n then Inl IndexPanic
      else Inr (bs @ replicate (nat n - length bs) 0))"

text \<open>\<open>xs[i:j]\<close>\<close>

definition sub_slice :: "'a list \<Rightarrow> int \<Rightarrow> int \<Rightarrow> script_error + 'a list" where
  "sub_slice xs i j =
     (if 0 \<le> i \<and> i \<le> j \<and> j \<le> int (length xs) then Inr (take (nat (j - i)) (drop (nat i) xs))
      else Inl IndexPanic)"

text \<open>The script of an output as it is committed to.\<close>

definition committed_script :: "SigHashType \<Rightarrow> int \<Rightarrow> nat \<Rightarrow> TxOut \<Rightarrow> byte list" where
  "committed_script hashType signIdx txOutIdx txOut =
     (if hashType AND sigHashMask = SigHashSingle \<and> int txOutIdx \<noteq> signIdx then []
      else PkScript txOut)"

definition sigHashPrefixSerializeSize ::
  "SigHashType \<Rightarrow> TxIn list \<Rightarrow> TxOut list \<Rightarrow> int \<Rightarrow> int" where
  "sigHashPrefixSerializeSize hashType txIns txOuts signIdx =
     (let numTxIns = length txIns; numTxOuts = length txOuts in
      int (4 + varIntSerializeSize (word_of_nat numTxIns) +
      numTxIns * (HashSize + 4 + 1 + 4) +
      varIntSerializeSize (word_of_nat numTxOuts) +
      numTxOuts * (8 + 2) + 4 + 4 +
      sum_list (map (\<lambda>(txOutIdx, txOut).
        let pkScript = committed_script hashType signIdx txOutIdx txOut in
        varIntSerializeSize (word_of_nat (length pkScript)) + length pkScript)
        (enumerate 0 txOuts))))"

definition sigHashWitnessSerializeSize :: "SigHashType \<Rightarrow> TxIn list \<Rightarrow> byte list \<Rightarrow> int" where
  "sigHashWitnessSerializeSize hashType txIns signScript =
     (let numTxIns = length txIns in
      4 + int (varIntSerializeSize (word_of_nat numTxIns)) + (int numTxIns - 1) +
      int (varIntSerializeSize (word_of_nat (length signScript))) + int (length signScript))"

text \<open>The bodies of the two loops over the inputs and outputs of the prefix.\<close>

definition commit_in :: "SigHashType \<Rightarrow> int \<Rightarrow> nat \<times> TxIn \<Rightarrow> byte list" where
  "commit_in hashType signTxInIdx = (\<lambda>(txInIdx, txIn).
     let prevOut = PreviousOutPoint txIn;
         sequence = (if (hashType AND sigHashMask = SigHashNone \<or>
                         hashType AND sigHashMask = SigHashSingle) \<and> int txInIdx \<noteq> signTxInIdx
                     then 0 else Sequence txIn)
     in op_Hash prevOut @ putUint32LE (op_Index prevOut) @ putByte (op_Tree prevOut) @
        putUint32LE sequence)"

definition commit_out :: "SigHashType \<Rightarrow> int \<Rightarrow> nat \<times> TxOut \<Rightarrow> byte list" where
  "commit_out hashType idx = (\<lambda>(txOutIdx, txOut).
     let out = (if hashType AND sigHashMask = SigHashSingle \<and> int txOutIdx \<noteq> idx
                then -1 else out_Value txOut);
         pkScript = committed_script hashType idx txOutIdx txOut
     in putUint64LE out @ putUint16LE (out_Version txOut) @
        putVarInt (word_of_nat (length pkScript)) @ pkScript)"

definition prefix_content :: "SigHashType \<Rightarrow> MsgTx \<Rightarrow> TxIn list \<Rightarrow> TxOut list \<Rightarrow> int \<Rightarrow> int \<Rightarrow> byte list" where
  "prefix_content hashType tx txIns txOuts signTxInIdx idx =
     putUint32LE (ucast (tx_Version tx) OR push_bit 16 SigHashSerializePrefix) @
     putVarInt (word_of_nat (length txIns)) @
     concat (map (commit_in hashType signTxInIdx) (enumerate 0 txIns)) @
     putVarInt (word_of_nat (length txOuts)) @
     concat (map (commit_out hashType idx) (enumerate 0 txOuts)) @
     putUint32LE (LockTime tx) @ putUint32LE (Expiry tx)"

definition commit_script :: "byte list \<Rightarrow> int \<Rightarrow> nat \<times> TxIn \<Rightarrow> byte list" where
  "commit_script signScript signTxInIdx = (\<lambda>(txInIdx, _).
     let commitScript = (if int txInIdx \<noteq> signTxInIdx then [] else signScript)
     in putVarInt (word_of_nat (length commitScript)) @ commitScript)"

definition witness_content :: "MsgTx \<Rightarrow> TxIn list \<Rightarrow> byte list \<Rightarrow> int \<Rightarrow> byte list" where
  "witness_content tx txIns signScript signTxInIdx =
     putUint32LE (ucast (tx_Version tx) OR push_bit 16 SigHashSerializeWitness) @
     putVarInt (word_of_nat (length txIns)) @
     concat (map (commit_script signScript signTxInIdx) (enumerate 0 txIns))"

section \<open>The signature hash\<close>

text \<open>The outputs that are committed to.\<close>

definition committed_outs :: "SigHashType \<Rightarrow> MsgTx \<Rightarrow> int \<Rightarrow> script_error + TxOut list" where
  "committed_outs hashType tx idx =
     (if hashType AND sigHashMask = SigHashNone then Inr []
      else if hashType AND sigHashMask = SigHashSingle then sub_slice (tx_TxOut tx) 0 (idx + 1)
      else Inr (tx_TxOut tx))"

definition sign_script :: "parsedOpcode list \<Rightarrow> byte list" where
  "sign_script prevOutScript =
     (case unparseScript (removeOpcode prevOutScript OP_CODESEPARATOR) of
        Inl _ \<Rightarrow> [] | Inr s \<Rightarrow> s)"

definition prefix_hash ::
  "bool \<Rightarrow> (byte list \<Rightarrow> hash) \<Rightarrow> SigHashType \<Rightarrow> MsgTx \<Rightarrow> TxIn list \<Rightarrow> int \<Rightarrow> int \<Rightarrow> hash option \<Rightarrow>
   script_error + hash" where
  "prefix_hash optimize HashH hashType tx txIns signTxInIdx idx cachedPrefix =
     (if optimize \<and> cachedPrefix \<noteq> None \<and> hashType AND sigHashMask = SigHashAll \<and>
         hashType AND SigHashAnyOneCanPay = 0
      then Inr (the cachedPrefix)
      else
        bindE (committed_outs hashType tx idx) (\<lambda>txOuts.
        bindE (fill_buf (sigHashPrefixSerializeSize hashType txIns txOuts idx)
                 (prefix_content hashType tx txIns txOuts signTxInIdx idx)) (\<lambda>prefixBuf.
        Inr (HashH prefixBuf))))"

definition calcSignatureHash ::
  "bool \<Rightarrow> (byte list \<Rightarrow> hash) \<Rightarrow> parsedOpcode list \<Rightarrow> SigHashType \<Rightarrow> MsgTx \<Rightarrow> int \<Rightarrow> hash option \<Rightarrow>
   script_error + hash" where
  "calcSignatureHash optimize HashH prevOutScript hashType tx idx cachedPrefix =
     (if hashType AND sigHashMask = SigHashSingle \<and> idx \<ge> int (length (tx_TxOut tx))
      then Inl (ApiErr ErrInvalidSigHashSingleIndex)
      else
        let signScript = sign_script prevOutScript in
        bindE (if hashType AND SigHashAnyOneCanPay \<noteq> 0
               then bindE (sub_slice (tx_TxIn tx) idx (idx + 1)) (\<lambda>txIns. Inr (txIns, 0))
               else Inr (tx_TxIn tx, idx)) (\<lambda>(txIns, signTxInIdx).
        bindE (prefix_hash optimize HashH hashType tx txIns signTxInIdx idx cachedPrefix)
          (\<lambda>prefixHash.
        bindE (fill_buf (sigHashWitnessSerializeSize hashType txIns signScript)
                 (witness_content tx txIns signScript signTxInIdx)) (\<lambda>witnessBuf.
        Inr (HashH (putUint32LE (ucast hashType) @ prefixHash @ HashH witnessBuf))))))"

definition CalcSignatureHash ::
  "bool \<Rightarrow> (byte list \<Rightarrow> hash) \<Rightarrow> byte list \<Rightarrow> SigHashType \<Rightarrow> MsgTx \<Rightarrow> int \<Rightarrow> hash option \<Rightarrow>
   script_error + hash" where
  "CalcSignatureHash optimize HashH script hashType tx idx cachedPrefix =
     bindE (parsed_ok script) (\<lambda>pops.
       calcSignatureHash optimize HashH pops hashType tx idx cachedPrefix)"

section \<open>Sizes and contents of the buffers\<close>

lemma varIntSerializeSize_wire [simp]: "varIntSerializeSize val = VarIntSerializeSize val"
  by (simp add: varIntSerializeSize_def VarIntSerializeSize_def)

lemma putVarInt_wire [simp]: "putVarInt val = varint_bytes val"
  by (simp add: putVarInt_def varint_bytes_def unat_ucast_small)

lemmas put_defs = putByte_def putUint16LE_def putUint32LE_def putUint64LE_def

lemma fill_buf_exact: "n = int (length bs) \<Longrightarrow> fill_buf n bs = Inr bs"
  by (simp add: fill_buf_def)

lemma length_commit_in:
  "is_hash (op_Hash (PreviousOutPoint (snd x))) \<Longrightarrow>
    length (commit_in hashType i x) = HashSize + 4 + 1 + 4"
  by (simp add: commit_in_def case_prod_beta Let_def put_defs is_hash_def)

lemma length_commit_out:
  "length (commit_out hashType idx (j, out)) =
    10 + (let pkScript = committed_script hashType idx j out in
      VarIntSerializeSize (word_of_nat (length pkScript)) + length pkScript)"
  by (simp add: commit_out_def Let_def put_defs)

lemma length_concat_const:
  "(\<And>x. x \<in> set xs \<Longrightarrow> length (f x) = k) \<Longrightarrow> length (concat (map f xs)) = length xs * k"
  by (induction xs) auto

lemma length_commit_outs:
  "length (concat (map (commit_out hashType idx) ps)) =
    length ps * 10 + sum_list (map (\<lambda>(j, out).
      let pkScript = committed_script hashType idx j out in
      VarIntSerializeSize (word_of_nat (length pkScript)) + length pkScript) ps)"
proof (induction ps)
  case (Cons p ps)
  obtain j out where "p = (j, out)" by (cases p)
  with Cons show ?case by (simp add: length_commit_out)
qed simp

lemma prefix_size:
  assumes "list_all (\<lambda>ti. is_hash (op_Hash (PreviousOutPoint ti))) txIns"
  shows "sigHashPrefixSerializeSize hashType txIns txOuts idx =
    int (length (prefix_content hashType tx txIns txOuts i idx))"
proof -
  have "length (commit_in hashType i x) = HashSize + 4 + 1 + 4" if "x \<in> set (enumerate 0 txIns)" for x
    using that assms
    by (intro length_commit_in) (auto simp: in_set_enumerate_eq list_all_iff dest: nth_mem)
  then have "length (concat (map (commit_in hashType i) (enumerate 0 txIns))) =
      length txIns * (HashSize + 4 + 1 + 4)"
    using length_concat_const [of "enumerate 0 txIns" "commit_in hashType i"] by simp
  moreover have "length (concat (map (commit_out hashType idx) (enumerate 0 txOuts))) =
      length txOuts * 10 + sum_list (map (\<lambda>(j, out).
        let pkScript = committed_script hashType idx j out in
        VarIntSerializeSize (word_of_nat (length pkScript)) + length pkScript) (enumerate 0 txOuts))"
    by (simp add: length_commit_outs)
  ultimately show ?thesis
    by (simp add: sigHashPrefixSerializeSize_def prefix_content_def Let_def put_defs
        del: length_concat)
qed

lemma length_commit_scripts:
  "length (concat (map (commit_script sc k) (enumerate n ins))) =
    length ins + (if int n \<le> k \<and> k < int (n + length ins)
      then VarIntSerializeSize (word_of_nat (length sc)) + length sc - 1 else 0)"
proof (induction ins arbitrary: n)
  case (Cons ti ins)
  have "0 < VarIntSerializeSize w" for w by (simp add: VarIntSerializeSize_def)
  then have "length (commit_script sc k (n, ti)) =
      1 + (if int n = k then VarIntSerializeSize (word_of_nat (length sc)) + length sc - 1 else 0)"
    by (simp add: commit_script_def VarIntSerializeSize_def)
  with Cons [of "Suc n"] show ?case by auto
qed simp

lemma witness_size:
  assumes "0 \<le> k" "k < int (length txIns)"
  shows "sigHashWitnessSerializeSize hashType txIns sc = int (length (witness_content tx txIns sc k))"
proof -
  have "0 < VarIntSerializeSize (word_of_nat (length sc))" by (simp add: VarIntSerializeSize_def)
  moreover from assms have "length (concat (map (commit_script sc k) (enumerate 0 txIns))) =
      length txIns + (VarIntSerializeSize (word_of_nat (length sc)) + length sc - 1)"
    by (simp add: length_commit_scripts)
  ultimately show ?thesis
    by (simp add: sigHashWitnessSerializeSize_def witness_content_def Let_def put_defs
        del: length_concat)
qed

text \<open>The inputs that are committed to, for an index in range.\<close>

definition committed_ins :: "SigHashType \<Rightarrow> MsgTx \<Rightarrow> int \<Rightarrow> TxIn list \<times> int" where
  "committed_ins hashType tx idx =
     (if hashType AND SigHashAnyOneCanPay \<noteq> 0 then ([tx_TxIn tx ! nat idx], 0) else (tx_TxIn tx, idx))"

lemma sub_slice_one:
  assumes "0 \<le> i" "i < int (length xs)"
  shows "sub_slice xs i (i + 1) = Inr [xs ! nat i]"
proof -
  have "take 1 (drop (nat i) xs) = [xs ! nat i]"
    using assms by (simp add: take_Suc_conv_app_nth take_Suc hd_drop_conv_nth)
  then show ?thesis using assms by (simp add: sub_slice_def)
qed

lemma sub_slice_upto: "0 \<le> i \<Longrightarrow> i < int (length xs) \<Longrightarrow> sub_slice xs 0 (i + 1) = Inr (take (nat (i + 1)) xs)"
  by (simp add: sub_slice_def)

definition typed_ins :: "MsgTx \<Rightarrow> bool" where
  "typed_ins tx \<longleftrightarrow> list_all (\<lambda>ti. is_hash (op_Hash (PreviousOutPoint ti))) (tx_TxIn tx)"

text \<open>
  The signature hash, without buffers: for an input of the transaction the
  buffers have exactly the size of their content.
\<close>

lemma calcSignatureHash_eq:
  assumes "typed_ins tx" "0 \<le> idx" "idx < int (length (tx_TxIn tx))"
    and ok: "\<not> (hashType AND sigHashMask = SigHashSingle \<and> idx \<ge> int (length (tx_TxOut tx)))"
  shows "\<exists>outs. committed_outs hashType tx idx = Inr outs \<and>
    calcSignatureHash opt HashH ops hashType tx idx cached =
      (let (ins, k) = committed_ins hashType tx idx;
           prefixHash = (if opt \<and> cached \<noteq> None \<and> hashType AND sigHashMask = SigHashAll \<and>
              hashType AND SigHashAnyOneCanPay = 0 then the cached
             else HashH (prefix_content hashType tx ins outs k idx))
       in Inr (HashH (putUint32LE (ucast hashType) @ prefixHash @
            HashH (witness_content tx ins (sign_script ops) k))))"
proof -
  obtain ins k where ins: "committed_ins hashType tx idx = (ins, k)" by fastforce
  then have k: "0 \<le> k" "k < int (length ins)" using assms by (auto simp: committed_ins_def split: if_splits)
  have "nat idx < length (tx_TxIn tx)" using assms by linarith
  then have typed: "list_all (\<lambda>ti. is_hash (op_Hash (PreviousOutPoint ti))) ins"
    using ins assms(1) nth_mem [of "nat idx" "tx_TxIn tx"]
    by (auto simp: committed_ins_def typed_ins_def list_all_iff split: if_splits)
  have "\<exists>outs. committed_outs hashType tx idx = Inr outs"
    using ok assms(2) by (auto simp: committed_outs_def sub_slice_upto)
  then obtain outs where outs: "committed_outs hashType tx idx = Inr outs" by blast
  have sel: "(if hashType AND SigHashAnyOneCanPay \<noteq> 0
       then bindE (sub_slice (tx_TxIn tx) idx (idx + 1)) (\<lambda>txIns. Inr (txIns, 0))
       else Inr (tx_TxIn tx, idx)) = Inr (ins, k)"
    using ins assms by (auto simp: committed_ins_def sub_slice_one split: if_splits)
  have "calcSignatureHash opt HashH ops hashType tx idx cached =
      (let prefixHash = (if opt \<and> cached \<noteq> None \<and> hashType AND sigHashMask = SigHashAll \<and>
              hashType AND SigHashAnyOneCanPay = 0 then the cached
             else HashH (prefix_content hashType tx ins outs k idx))
       in Inr (HashH (putUint32LE (ucast hashType) @ prefixHash @
            HashH (witness_content tx ins (sign_script ops) k))))"
    unfolding calcSignatureHash_def Let_def sel
    using ok outs
    by (cases cached) (simp_all add: prefix_hash_def fill_buf_exact [OF prefix_size [OF typed]]
        fill_buf_exact [OF witness_size [OF k]])
  with outs ins show ?thesis by simp
qed

text \<open>The prefix committed to by \<open>SigHashAll\<close> is the one that the transaction hash is taken of.\<close>

lemma concat_enumerate: "(\<And>i x. f (i, x) = g x) \<Longrightarrow> concat (map f (enumerate n xs)) = concat (map g xs)"
  by (induction xs arbitrary: n) auto

lemma all_prefix:
  assumes "hashType AND sigHashMask = SigHashAll"
  shows "prefix_content hashType tx (tx_TxIn tx) (tx_TxOut tx) k idx =
    tx_bytes (tx\<lparr>SerType := TxSerializeNoWitness\<rparr>)"
proof -
  have "commit_in hashType k (i, ti) = prefix_in_bytes ti" for i ti
    using assms by (simp add: commit_in_def Let_def prefix_in_bytes_def outpoint_bytes_def put_defs
        SigHashAll_def SigHashNone_def SigHashSingle_def)
  moreover have "commit_out hashType idx (i, out) = out_bytes out" for i out
    using assms by (simp add: commit_out_def Let_def committed_script_def out_bytes_def counted_bytes_def
        put_defs SigHashAll_def SigHashSingle_def)
  ultimately show ?thesis
    by (simp add: prefix_content_def tx_bytes_def prefix_bytes_def serializedVersion_def put_defs
        ser_type_defs SigHashSerializePrefix_def concat_enumerate)
qed

lemma TxHash_eq: "TxHash HashH tx = Inr (HashH (tx_bytes (tx\<lparr>SerType := TxSerializeNoWitness\<rparr>)))"
  by (simp add: TxHash_def mustSerialize_def tx_serialize_eq ser_ok_def)

lemma cached_prefix_sound:
  assumes "typed_ins tx" and "0 \<le> idx" and "idx < int (length (tx_TxIn tx))"
    and "TxHash HashH tx = Inr h"
  shows "calcSignatureHash opt HashH ops hashType tx idx (Some h) =
      calcSignatureHash opt HashH ops hashType tx idx None \<and>
    calcSignatureHash opt HashH ops hashType tx idx None \<noteq> Inl IndexPanic"
proof (cases "hashType AND sigHashMask = SigHashSingle \<and> idx \<ge> int (length (tx_TxOut tx))")
  case True
  then show ?thesis by (simp add: calcSignatureHash_def)
next
  case False
  from calcSignatureHash_eq [OF assms(1-3) False]
  obtain outs where outs: "committed_outs hashType tx idx = Inr outs" by blast
  have h: "h = HashH (tx_bytes (tx\<lparr>SerType := TxSerializeNoWitness\<rparr>))"
    using assms(4) by (simp add: TxHash_eq)
  have "outs = tx_TxOut tx" if "hashType AND sigHashMask = SigHashAll"
    using outs that by (simp add: committed_outs_def SigHashAll_def SigHashNone_def SigHashSingle_def)
  then show ?thesis
    using calcSignatureHash_eq [OF assms(1-3) False, of opt HashH ops "Some h"]
      calcSignatureHash_eq [OF assms(1-3) False, of opt HashH ops None]
    by (auto simp: committed_ins_def outs h all_prefix)
qed

section \<open>Properties\<close>

text \<open>
  C12: Reusing the transaction hash is sound.  For an input of the transaction the
  signature hash that takes the hash of the transaction as the prefix hash is
  the one that serializes and hashes the prefix again, for every script and
  every hash type; neither calculation panics.
\<close>

theorem sig_hash_cached_prefix:
  assumes "typed_ins tx" and "0 \<le> idx" and "idx < int (length (tx_TxIn tx))"
    and "TxHash HashH tx = Inr h"
  shows "calcSignatureHash opt HashH ops hashType tx idx (Some h) =
      calcSignatureHash opt HashH ops hashType tx idx None \<and>
    calcSignatureHash opt HashH ops hashType tx idx None \<noteq> Inl IndexPanic"
  by (rule cached_prefix_sound [OF assms])

theorem sig_hash_cached_prefix_witness:
  "calcSignatureHash True (\<lambda>b. take 32 (b @ replicate 32 0)) [] SigHashAll ex_tx 0
     (Some (take 32 (tx_bytes (ex_tx\<lparr>SerType := TxSerializeNoWitness\<rparr>) @ replicate 32 0))) =
   calcSignatureHash True (\<lambda>b. take 32 (b @ replicate 32 0)) [] SigHashAll ex_tx 0 None"
proof -
  have "typed_ins ex_tx" "0 < int (length (tx_TxIn ex_tx))" by code_simp+
  then show ?thesis
    using sig_hash_cached_prefix [of ex_tx 0 "\<lambda>b. take 32 (b @ replicate 32 0)"
        "take 32 (tx_bytes (ex_tx\<lparr>SerType := TxSerializeNoWitness\<rparr>) @ replicate 32 0)" True "[]" SigHashAll]
    by (simp add: TxHash_eq)
qed

end
