(* ===== verification/Secp256k1.thy ===== *)
theory Secp256k1
  imports ScriptNum
begin

text \<open>
  Encodings of secp256k1 signatures and public keys, after
  \<open>src/fnoec/secp256k1/signature.go\<close> and \<open>pubkey.go\<close>.  The fields of type
  \<open>*big.Int\<close> are integers, \<open>Bytes\<close> and \<open>SetBytes\<close> of \<open>math/big\<close>
  are their big-endian digits without leading zeros.  The membership test of the
  curve is a parameter; so is \<open>ecdsa.Verify\<close> of the Go library, for the users of
  this theory.  An index expression out of range is the error \<open>EcPanic\<close>.
\<close>

unbundle bit_operations_syntax

section \<open>Signatures and keys\<close>

datatype ec_error = EcErr string | EcPanic

definition curve_P :: int where
  "curve_P = 0xFFFFFFFFFFFFFFFFFFFFFFFFFFFFFFFFFFFFFFFFFFFFFFFFFFFFFFFEFFFFFC2F"

definition curve_N :: int where
  "curve_N = 0xFFFFFFFFFFFFFFFFFFFFFFFFFFFFFFFEBAAEDCE6AF48A03BBFD25E8CD0364141"

definition curve_B :: int where
  "curve_B = 7"

definition halforder :: int where
  "halforder = drop_bit 1 curve_N"

record Signature =
  sig_R :: int
  sig_S :: int

record PublicKey =
  key_X :: int
  key_Y :: int

definition big_Bytes :: "int \<Rightarrow> byte list" where
  "big_Bytes n = rev (num_digits \<bar>n\<bar>)"

definition SetBytes :: "byte list \<Rightarrow> int" where
  "SetBytes b = int (of_be_bytes b)"

text \<open>\<open>b[i]\<close>\<close>

definition index_at :: "byte list \<Rightarrow> nat \<Rightarrow> ec_error + byte" where
  "index_at b i = (if i < length b then Inr (b ! i) else Inl EcPanic)"

definition canonicalizeInt :: "int \<Rightarrow> byte list" where
  "canonicalizeInt val =
     (let b = big_Bytes val;
          b = (if length b = 0 then [0x00] else b)
      in if b ! 0 AND 0x80 \<noteq> 0 then 0 # b else b)"

definition errNegativeValue :: ec_error where
  "errNegativeValue = EcErr ''value may be interpreted as negative''"

definition errExcessivelyPaddedValue :: ec_error where
  "errExcessivelyPaddedValue = EcErr ''value is excessively padded''"

definition canonicalPadding :: "byte list \<Rightarrow> ec_error + unit" where
  "canonicalPadding b =
     (if length b = 0 then Inl EcPanic
      else if b ! 0 AND 0x80 = 0x80 then Inl errNegativeValue
      else if length b > 1 \<and> b ! 0 = 0x00 \<and> b ! 1 AND 0x80 \<noteq> 0x80
      then Inl errExcessivelyPaddedValue
      else Inr ())"

definition Signature_Serialize :: "Signature \<Rightarrow> byte list" where
  "Signature_Serialize sig =
     (let sigS = (if sig_S sig > halforder then curve_N - sig_S sig else sig_S sig);
          rb = canonicalizeInt (sig_R sig);
          sb = canonicalizeInt sigS;
          len = 6 + length rb + length sb
      in [0x30, word_of_nat (len - 2), 0x02, word_of_nat (length rb)] @ rb @
         [0x02, word_of_nat (length sb)] @ sb)"

definition Signature_IsEqual :: "Signature \<Rightarrow> Signature \<Rightarrow> bool" where
  "Signature_IsEqual sig otherSig \<longleftrightarrow> sig_R sig = sig_R otherSig \<and> sig_S sig = sig_S otherSig"

text \<open>The checks of the padding of R and S in \<open>parseSig\<close>.\<close>

definition check_padding :: "bool \<Rightarrow> string \<Rightarrow> byte list \<Rightarrow> ec_error + unit" where
  "check_padding der name b =
     (if der then
        case canonicalPadding b of
          Inl e \<Rightarrow>
            (if e = errNegativeValue then Inl (EcErr (''signature '' @ name @ '' is negative''))
             else if e = errExcessivelyPaddedValue
             then Inl (EcErr (''signature '' @ name @ '' is excessively padded''))
             else Inl e)
        | Inr _ \<Rightarrow> Inr ()
      else Inr ())"

text \<open>The part of \<open>parseSig\<close> after the slice has been trimmed.\<close>

definition parse_ints :: "bool \<Rightarrow> byte list \<Rightarrow> ec_error + Signature" where
  "parse_ints der sigStr =
     bindE (index_at sigStr 2) (\<lambda>m1.
     if m1 \<noteq> 0x02 then Inl (EcErr ''malformed signature: no 1st int marker'')
     else bindE (index_at sigStr 3) (\<lambda>rl.
     let rLen = unat rl in
     if rLen \<le> 0 \<or> int rLen > int (length sigStr) - 4 - 3
     then Inl (EcErr ''malformed signature: bogus R length'')
     else
       let rBytes = take rLen (drop 4 sigStr) in
       bindE (check_padding der ''R'' rBytes) (\<lambda>_.
       let index = 4 + rLen in
       bindE (index_at sigStr index) (\<lambda>m2.
       if m2 \<noteq> 0x02 then Inl (EcErr ''malformed signature: no 2nd int marker'')
       else bindE (index_at sigStr (index + 1)) (\<lambda>sl.
       let sLen = unat sl; index = index + 2 in
       if sLen \<le> 0 \<or> int sLen > int (length sigStr) - int index
       then Inl (EcErr ''malformed signature: bogus S length'')
       else
         let sBytes = take sLen (drop index sigStr) in
         bindE (check_padding der ''S'' sBytes) (\<lambda>_.
         if index + sLen \<noteq> length sigStr
         then Inl (EcErr ''malformed signature: bad final length'')
         else
           let R = SetBytes rBytes; S = SetBytes sBytes in
           if \<not> R > 0 then Inl (EcErr ''signature R isn't 1 or more'')
           else if \<not> S > 0 then Inl (EcErr ''signature S isn't 1 or more'')
           else if R \<ge> curve_N then Inl (EcErr ''signature R is >= curve.N'')
           else if S \<ge> curve_N then Inl (EcErr ''signature S is >= curve.N'')
           else Inr \<lparr>sig_R = R, sig_S = S\<rparr>))))))"

definition parseSig :: "byte list \<Rightarrow> bool \<Rightarrow> ec_error + Signature" where
  "parseSig sigStr der =
     (if length sigStr < 8 then Inl (EcErr ''malformed signature: too short'')
      else if sigStr ! 0 \<noteq> 0x30 then Inl (EcErr ''malformed signature: no header magic'')
      else
        let siglen = sigStr ! 1 in
        if unat (siglen + 2) > length sigStr then Inl (EcErr ''malformed signature: bad length'')
        else parse_ints der (take (unat (siglen + 2)) sigStr))"

definition ParseSignature :: "byte list \<Rightarrow> ec_error + Signature" where
  "ParseSignature sigStr = parseSig sigStr False"

definition ParseDERSignature :: "byte list \<Rightarrow> ec_error + Signature" where
  "ParseDERSignature sigStr = parseSig sigStr True"

section \<open>Public keys\<close>

definition PubKeyBytesLenCompressed :: nat where
  "PubKeyBytesLenCompressed = 33"

definition PubKeyBytesLenUncompressed :: nat where
  "PubKeyBytesLenUncompressed = 65"

definition pubkeyCompressed :: byte where
  "pubkeyCompressed = 0x2"

definition pubkeyUncompressed :: byte where
  "pubkeyUncompressed = 0x4"

definition isOdd :: "int \<Rightarrow> bool" where
  "isOdd a \<longleftrightarrow> bit a 0"

text \<open>\<open>Exp\<close> of \<open>math/big\<close>, by repeated squaring.\<close>

function big_Exp :: "int \<Rightarrow> nat \<Rightarrow> int \<Rightarrow> int" where
  "big_Exp x n m =
     (if n = 0 then 1 mod m
      else
        let h = big_Exp (x * x mod m) (n div 2) m
        in if even n then h else x * h mod m)"
  by auto

termination by (relation "measure (\<lambda>(x, n, m). n)") auto

declare big_Exp.simps [simp del]

definition QPlus1Div4 :: int where
  "QPlus1Div4 = (curve_P + 1) div 4"

definition decompressPoint :: "int \<Rightarrow> bool \<Rightarrow> ec_error + int" where
  "decompressPoint x ybit =
     (let x3 = x * x * x + curve_B;
          y = big_Exp x3 (nat QPlus1Div4) curve_P;
          y = (if ybit \<noteq> isOdd y then curve_P - y else y)
      in if ybit \<noteq> isOdd y then Inl (EcErr ''ybit doesn't match oddness'') else Inr y)"

definition ParsePubKey :: "(int \<Rightarrow> int \<Rightarrow> bool) \<Rightarrow> byte list \<Rightarrow> ec_error + PublicKey" where
  "ParsePubKey IsOnCurve pubKeyStr =
     (if length pubKeyStr = 0 then Inl (EcErr ''pubkey string is empty'')
      else
        let ybit = (pubKeyStr ! 0 AND 0x1 = 0x1);
            format = pubKeyStr ! 0 AND NOT 0x1;
            X = SetBytes (take 32 (drop 1 pubKeyStr))
        in
        bindE
          (if length pubKeyStr = PubKeyBytesLenUncompressed then
             if format \<noteq> pubkeyUncompressed then Inl (EcErr ''invalid magic in pubkey str'')
             else Inr (SetBytes (drop 33 pubKeyStr))
           else if length pubKeyStr = PubKeyBytesLenCompressed then
             if format \<noteq> pubkeyCompressed
             then Inl (EcErr ''invalid magic in compressed pubkey string'')
             else decompressPoint X ybit
           else Inl (EcErr ''invalid pub key length''))
        (\<lambda>Y.
          if X \<ge> curve_P then Inl (EcErr ''pubkey X parameter is >= to P'')
          else if Y \<ge> curve_P then Inl (EcErr ''pubkey Y parameter is >= to P'')
          else if \<not> IsOnCurve X Y then Inl (EcErr ''pubkey isn't on secp256k1 curve'')
          else Inr \<lparr>key_X = X, key_Y = Y\<rparr>))"

definition paddedAppend :: "nat \<Rightarrow> byte list \<Rightarrow> byte list \<Rightarrow> byte list" where
  "paddedAppend sz dst src = dst @ replicate (sz - length src) 0 @ src"

definition SerializeUncompressed :: "PublicKey \<Rightarrow> byte list" where
  "SerializeUncompressed p =
     paddedAppend 32 (paddedAppend 32 [pubkeyUncompressed] (big_Bytes (key_X p))) (big_Bytes (key_Y p))"

definition SerializeCompressed :: "PublicKey \<Rightarrow> byte list" where
  "SerializeCompressed p =
     paddedAppend 32 [if isOdd (key_Y p) then pubkeyCompressed OR 0x1 else pubkeyCompressed]
       (big_Bytes (key_X p))"

definition PublicKey_Serialize :: "PublicKey \<Rightarrow> byte list" where
  "PublicKey_Serialize p = SerializeCompressed p"

definition PublicKey_IsEqual :: "PublicKey \<Rightarrow> PublicKey \<Rightarrow> bool" where
  "PublicKey_IsEqual p q \<longleftrightarrow> key_X p = key_X q \<and> key_Y p = key_Y q"

section \<open>Big-endian integers\<close>

text \<open>The DER encoding of a number that is not negative: no sign bit, no needless zero byte.\<close>

definition canonical_int :: "byte list \<Rightarrow> bool" where
  "canonical_int b \<longleftrightarrow> b \<noteq> [] \<and> unat (b ! 0) < 128 \<and>
     \<not> (length b > 1 \<and> b ! 0 = 0 \<and> unat (b ! 1) < 128)"

lemma byte_sign': "(b :: byte) AND 0x80 = 0x80 \<longleftrightarrow> 128 \<le> unat b"
proof -
  have "b AND 2 ^ k = 2 ^ k \<longleftrightarrow> bit b k" if "k < 8" for k
  proof
    assume "b AND 2 ^ k = 2 ^ k"
    then have "bit (b AND 2 ^ k) k \<longleftrightarrow> bit (2 ^ k :: byte) k" by (rule arg_cong)
    then show "bit b k" using that by (simp add: bit_simps)
  next
    assume "bit b k"
    then show "b AND 2 ^ k = 2 ^ k" by (intro bit_word_eqI) (auto simp: bit_simps)
  qed
  from this [of 7] show ?thesis by (simp add: bit7)
qed

lemma canonicalPadding_iff: "canonicalPadding b = Inr () \<longleftrightarrow> canonical_int b"
  by (auto simp: canonicalPadding_def canonical_int_def byte_sign')

lemma SetBytes_nonneg [simp]: "0 \<le> SetBytes b"
  by (simp add: SetBytes_def)

lemma SetBytes_zero [simp]: "SetBytes (0 # b) = SetBytes b"
  by (simp add: SetBytes_def of_be_bytes_def of_le_bytes_snoc)

lemma big_Bytes_SetBytes: "b ! 0 \<noteq> 0 \<Longrightarrow> b \<noteq> [] \<Longrightarrow> big_Bytes (SetBytes b) = b"
proof -
  assume b: "b ! 0 \<noteq> 0" "b \<noteq> []"
  then obtain x u where "b = x # u" by (cases b) auto
  with b num_digits_of_le_bytes [of x "rev u"] show ?thesis
    by (simp add: big_Bytes_def SetBytes_def of_be_bytes_def)
qed

lemma big_Bytes_cases:
  assumes "0 \<le> n"
  obtains (zero) "n = 0" "big_Bytes n = []"
  | (pos) b u where "0 < n" "big_Bytes n = b # u" "b \<noteq> 0" "SetBytes (b # u) = n"
proof (cases "n = 0")
  case False
  with assms have "0 < nat n" by simp
  then obtain u b where "num_digits (int (nat n)) = u @ [b]" "b \<noteq> 0" "of_le_bytes (u @ [b]) = nat n"
    by (rule num_digits_snoc)
  with assms False pos [of b "rev u"] show thesis
    by (simp add: big_Bytes_def SetBytes_def of_be_bytes_def)
qed (use zero in \<open>simp add: big_Bytes_def\<close>)

lemma canonicalizeInt_canonical:
  assumes "0 \<le> n"
  shows "canonical_int (canonicalizeInt n)" "SetBytes (canonicalizeInt n) = n"
proof -
  have "canonical_int (canonicalizeInt n) \<and> SetBytes (canonicalizeInt n) = n"
    using assms
  proof (cases n rule: big_Bytes_cases)
    case zero
    then show ?thesis
      by (simp add: canonicalizeInt_def canonical_int_def SetBytes_def of_be_bytes_def)
  next
    case pos
    then show ?thesis by (auto simp: canonicalizeInt_def Let_def canonical_int_def byte_sign)
  qed
  then show "canonical_int (canonicalizeInt n)" "SetBytes (canonicalizeInt n) = n" by simp_all
qed

lemma canonicalizeInt_SetBytes:
  assumes "canonical_int b"
  shows "canonicalizeInt (SetBytes b) = b"
proof (cases "b ! 0 = 0")
  case False
  with assms show ?thesis
    by (simp add: canonicalizeInt_def big_Bytes_SetBytes canonical_int_def byte_sign)
next
  case True
  with assms obtain u where u: "b = 0 # u" by (cases b) (auto simp: canonical_int_def)
  show ?thesis
  proof (cases u)
    case Nil
    then show ?thesis
      by (simp add: u canonicalizeInt_def SetBytes_def of_be_bytes_def big_Bytes_def)
  next
    case (Cons x v)
    then have "128 \<le> unat x" using assms u by (simp add: canonical_int_def)
    then have "x \<noteq> 0" by auto
    with \<open>128 \<le> unat x\<close> show ?thesis
      using big_Bytes_SetBytes [of u] Cons by (simp add: u canonicalizeInt_def byte_sign)
  qed
qed

section \<open>Parsing of signatures\<close>

text \<open>The two integers of a signature with their markers and lengths.\<close>

definition int_frames :: "byte list \<Rightarrow> byte list \<Rightarrow> byte list" where
  "int_frames rb sb = 0x02 # word_of_nat (length rb) # rb @ 0x02 # word_of_nat (length sb) # sb"

definition sig_in_range :: "int \<Rightarrow> int \<Rightarrow> bool" where
  "sig_in_range r s \<longleftrightarrow> 0 < r \<and> r < curve_N \<and> 0 < s \<and> s < curve_N"

lemma length_int_frames [simp]: "length (int_frames rb sb) = 4 + length rb + length sb"
  by (simp add: int_frames_def)

lemma check_padding_iff: "check_padding True name b = Inr () \<longleftrightarrow> canonical_int b"
  by (auto simp: check_padding_def canonicalPadding_iff [symmetric] split: sum.splits)

lemma check_padding_panic: "b \<noteq> [] \<Longrightarrow> check_padding der name b \<noteq> Inl EcPanic"
  by (auto simp: check_padding_def canonicalPadding_def errNegativeValue_def
      errExcessivelyPaddedValue_def split: sum.splits if_splits)

lemma unat_byte_length: "n < 256 \<Longrightarrow> unat (word_of_nat n :: byte) = n"
  by (simp add: unat_of_nat)

lemma canonical_nonempty: "canonical_int b \<Longrightarrow> 0 < length b"
  by (simp add: canonical_int_def)

lemma parse_ints_frames:
  assumes "canonical_int rb" "canonical_int sb" "length rb < 256" "length sb < 256"
  shows "parse_ints True (h0 # h1 # int_frames rb sb) = Inr sig \<longleftrightarrow>
    sig_in_range (SetBytes rb) (SetBytes sb) \<and> sig = \<lparr>sig_R = SetBytes rb, sig_S = SetBytes sb\<rparr>"
proof -
  define s where "s = h0 # h1 # int_frames rb sb"
  have ix: "index_at s 2 = Inr 2" "index_at s 3 = Inr (word_of_nat (length rb))"
    "index_at s (4 + length rb) = Inr 2" "index_at s (5 + length rb) = Inr (word_of_nat (length sb))"
    by (simp_all add: s_def index_at_def int_frames_def nth_append numeral_eq_Suc)
  have parts: "take (length rb) (drop 4 s) = rb" "drop (6 + length rb) s = sb"
    by (simp_all add: s_def int_frames_def numeral_eq_Suc)
  have len: "length s = 6 + length rb + length sb" by (simp add: s_def)
  have small: "unat (word_of_nat (length rb) :: byte) = length rb"
    "unat (word_of_nat (length sb) :: byte) = length sb"
    using assms by (simp_all add: unat_byte_length)
  then have "uint (word_of_nat (length rb) :: byte) = int (length rb)"
    "uint (word_of_nat (length sb) :: byte) = int (length sb)"
    by (metis uint_nat)+
  moreover have pad: "check_padding True n rb = Inr ()" "check_padding True n sb = Inr ()" for n
    using assms by (simp_all add: check_padding_iff)
  ultimately show ?thesis
    using canonical_nonempty [OF assms(1)] canonical_nonempty [OF assms(2)] small
    unfolding s_def [symmetric]
    by (auto simp: parse_ints_def ix parts len sig_in_range_def Let_def)
qed

lemma index_at_Inr: "index_at s i = Inr x \<longleftrightarrow> i < length s \<and> s ! i = x"
  by (auto simp: index_at_def)

lemma parse_ints_facts:
  assumes "parse_ints True s = Inr sig"
  obtains r l where "r = unat (s ! 3)" "l = unat (s ! (5 + r))" "s ! 2 = 2" "0 < r" "0 < l"
    "s ! (4 + r) = 2" "length s = 6 + r + l"
    "canonical_int (take r (drop 4 s))" "canonical_int (take l (drop (6 + r) s))"
proof -
  define r where "r = unat (s ! 3)"
  define l where "l = unat (s ! (5 + r))"
  have "s ! 2 = 2 \<and> 0 < r \<and> 0 < l \<and> s ! (4 + r) = 2 \<and> length s = 6 + r + l \<and>
      canonical_int (take r (drop 4 s)) \<and> canonical_int (take l (drop (6 + r) s))"
    using assms unfolding parse_ints_def Let_def bindE_eq_Inr_iff index_at_Inr check_padding_iff
    by (auto simp: bindE_eq_Inr_iff index_at_Inr check_padding_iff r_def l_def split: if_splits)
  then show thesis using that [of r l] r_def l_def by blast
qed

text \<open>A byte string with the markers and lengths in place.\<close>

lemma int_frames_split:
  assumes "s ! 2 = 2" "s ! (4 + r) = 2" "length s = 6 + r + l"
    and r: "r = unat (s ! 3)" and l: "l = unat (s ! (5 + r))"
  defines "rb \<equiv> take r (drop 4 s)" and "sb \<equiv> drop (6 + r) s"
  shows "s = s ! 0 # s ! 1 # int_frames rb sb" "length rb = r" "length sb = l"
proof -
  show len: "length rb = r" "length sb = l" using assms(3) by (simp_all add: rb_def sb_def)
  have "drop 4 s = rb @ drop (4 + r) s"
    unfolding rb_def by (metis append_take_drop_id add.commute drop_drop)
  moreover have "drop (4 + r) s = 2 # word_of_nat l # sb"
    using assms(2,3) Cons_nth_drop_Suc [of "4 + r" s] Cons_nth_drop_Suc [of "5 + r" s]
    by (simp add: l sb_def numeral_eq_Suc)
  moreover have "s = s ! 0 # s ! 1 # 2 # word_of_nat r # drop 4 s"
    using assms(1,3) Cons_nth_drop_Suc [of 0 s] Cons_nth_drop_Suc [of 1 s]
      Cons_nth_drop_Suc [of 2 s] Cons_nth_drop_Suc [of 3 s]
    by (simp add: r numeral_eq_Suc)
  ultimately show "s = s ! 0 # s ! 1 # int_frames rb sb" by (simp add: int_frames_def len)
qed

lemma parse_ints_inv:
  assumes "parse_ints True s = Inr sig"
  obtains h0 h1 rb sb where "s = h0 # h1 # int_frames rb sb" "canonical_int rb" "canonical_int sb"
    "length rb < 256" "length sb < 256"
proof -
  from assms obtain r l where f: "r = unat (s ! 3)" "l = unat (s ! (5 + r))" "s ! 2 = 2" "0 < r" "0 < l"
    "s ! (4 + r) = 2" "length s = 6 + r + l"
    "canonical_int (take r (drop 4 s))" "canonical_int (take l (drop (6 + r) s))"
    by (rule parse_ints_facts)
  note split = int_frames_split [OF f(3,6,7,1,2)]
  have "r < 256" "l < 256" using f(1,2) byte_less by simp_all
  with split f(8,9) that [of "s ! 0" "s ! 1" "take r (drop 4 s)" "drop (6 + r) s"]
  show thesis by simp
qed

lemma no_panic_bind:
  "m \<noteq> Inl EcPanic \<Longrightarrow> (\<And>a. m = Inr a \<Longrightarrow> f a \<noteq> Inl EcPanic) \<Longrightarrow> bindE m f \<noteq> Inl EcPanic"
  by (cases m) auto

lemma no_panic_if:
  "(c \<Longrightarrow> a \<noteq> Inl EcPanic) \<Longrightarrow> (\<not> c \<Longrightarrow> b \<noteq> Inl EcPanic) \<Longrightarrow> (if c then a else b) \<noteq> Inl EcPanic"
  by simp

lemma no_panic_index: "i < length s \<Longrightarrow> index_at s i \<noteq> Inl EcPanic"
  by (simp add: index_at_def)

lemma ParsePubKey_no_panic: "ParsePubKey c b \<noteq> Inl EcPanic"
proof -
  have "decompressPoint x y \<noteq> Inl EcPanic" for x y by (simp add: decompressPoint_def Let_def)
  then show ?thesis by (auto simp: ParsePubKey_def Let_def bindE_eq_Inl_iff split: if_splits)
qed

lemma parse_ints_no_panic:
  assumes "2 < length s" "s ! 2 = 2 \<Longrightarrow> 3 < length s"
  shows "parse_ints der s \<noteq> Inl EcPanic"
  unfolding parse_ints_def Let_def
  by (intro no_panic_bind no_panic_if no_panic_index check_padding_panic)
    (use assms in \<open>auto simp: index_at_Inr simp del: of_nat_unat\<close>)

lemma parse_ints_panic:
  "parse_ints der s = Inl EcPanic \<longleftrightarrow> length s < 3 \<or> length s = 3 \<and> s ! 2 = 2"
proof (cases "length s < 3 \<or> length s = 3 \<and> s ! 2 = 2")
  case True
  then show ?thesis by (auto simp: parse_ints_def index_at_def)
next
  case False
  then show ?thesis using parse_ints_no_panic [of s der] by auto
qed

text \<open>The DER bytes of two numbers.\<close>

definition der_bytes :: "int \<Rightarrow> int \<Rightarrow> byte list" where
  "der_bytes r s =
     (let f = int_frames (canonicalizeInt r) (canonicalizeInt s) in 0x30 # word_of_nat (length f) # f)"

lemma Serialize_der:
  "sig_S sig \<le> halforder \<Longrightarrow> Signature_Serialize sig = der_bytes (sig_R sig) (sig_S sig)"
  by (simp add: Signature_Serialize_def der_bytes_def int_frames_def Let_def)

lemma SetBytes_lower: "b \<noteq> 0 \<Longrightarrow> 256 ^ length u \<le> SetBytes (b # u)"
proof -
  assume "b \<noteq> 0"
  then have "1 \<le> unat b" by (simp add: Suc_le_eq unat_gt_0)
  then have "256 ^ length u * 1 \<le> 256 ^ length u * unat b" by (rule mult_le_mono2)
  then have "256 ^ length u \<le> of_be_bytes (b # u)"
    unfolding of_be_bytes_def by (simp only: rev.simps of_le_bytes_snoc length_rev)
  then show ?thesis unfolding SetBytes_def by (metis of_nat_le_iff of_nat_numeral of_nat_power)
qed

lemma canonicalizeInt_length:
  assumes "0 \<le> n" "n < 2 ^ 256"
  shows "length (canonicalizeInt n) \<le> 33"
  using assms(1)
proof (cases n rule: big_Bytes_cases)
  case (pos b u)
  have "length u < 32"
  proof (rule ccontr)
    assume "\<not> length u < 32"
    then have "(256 :: int) ^ 32 \<le> 256 ^ length u" by (intro power_increasing) simp_all
    with SetBytes_lower [OF pos(3), of u] pos(4) assms(2) show False by simp
  qed
  with pos show ?thesis by (simp add: canonicalizeInt_def Let_def)
qed (simp add: canonicalizeInt_def)

lemma curve_N_bound: "n < curve_N \<Longrightarrow> n < 2 ^ 256"
  by (simp add: curve_N_def)

lemma parseSig_frame:
  assumes "canonical_int rb" "canonical_int sb" "length rb + length sb < 250"
  shows "ParseDERSignature (0x30 # word_of_nat (length (int_frames rb sb)) # int_frames rb sb @ rest) =
      Inr sig \<longleftrightarrow>
    sig_in_range (SetBytes rb) (SetBytes sb) \<and> sig = \<lparr>sig_R = SetBytes rb, sig_S = SetBytes sb\<rparr>"
proof -
  define f where "f = int_frames rb sb"
  have "length f + 2 < 256" "6 \<le> length f"
    using assms(3) canonical_nonempty [OF assms(1)] canonical_nonempty [OF assms(2)]
    unfolding f_def length_int_frames by linarith+
  moreover have "(word_of_nat (length f) :: byte) + 2 = word_of_nat (length f + 2)" by simp
  ultimately have "unat ((word_of_nat (length f) :: byte) + 2) = length f + 2" "6 \<le> length f"
    using unat_byte_length [of "length f + 2"] by (simp_all only:)
  then have "ParseDERSignature (0x30 # word_of_nat (length f) # f @ rest) =
      parse_ints True (0x30 # word_of_nat (length f) # f)"
    by (simp add: ParseDERSignature_def parseSig_def)
  then show ?thesis
    unfolding f_def using parse_ints_frames [of rb sb] assms by simp
qed

lemma parseSig_inv:
  assumes "ParseDERSignature b = Inr sig"
  obtains rb sb rest where "b = 0x30 # word_of_nat (length (int_frames rb sb)) # int_frames rb sb @ rest"
    "canonical_int rb" "canonical_int sb" "length rb < 256" "length sb < 256"
    "sig_in_range (SetBytes rb) (SetBytes sb)" "sig = \<lparr>sig_R = SetBytes rb, sig_S = SetBytes sb\<rparr>"
proof -
  define k where "k = unat (b ! 1 + 2)"
  from assms have b: "8 \<le> length b" "b ! 0 = 0x30" "k \<le> length b" "parse_ints True (take k b) = Inr sig"
    by (auto simp: ParseDERSignature_def parseSig_def Let_def k_def split: if_splits)
  from b(4) obtain h0 h1 rb sb where f: "take k b = h0 # h1 # int_frames rb sb"
    "canonical_int rb" "canonical_int sb" "length rb < 256" "length sb < 256"
    by (rule parse_ints_inv)
  have "length (take k b) = k" using b(3) by simp
  then have "k = length (int_frames rb sb) + 2" unfolding f(1) by simp
  then have "b ! 1 + 2 = word_of_nat (length (int_frames rb sb) + 2)"
    unfolding k_def by (metis of_nat_unat ucast_id)
  then have "h1 = word_of_nat (length (int_frames rb sb))" "h0 = 0x30"
    using arg_cong [OF f(1), of "\<lambda>xs. xs ! 1"] arg_cong [OF f(1), of "\<lambda>xs. xs ! 0"] b(2)
      \<open>k = length (int_frames rb sb) + 2\<close>
    by (simp_all add: algebra_simps)
  then have "b = 0x30 # word_of_nat (length (int_frames rb sb)) # int_frames rb sb @ drop k b"
    using append_take_drop_id [of k b] f(1) by simp
  then show thesis using that f parse_ints_frames [OF f(2-5)] b(4) by (metis (full_types))
qed

section \<open>Properties\<close>

text \<open>
  C19: \<open>ParseDERSignature\<close> returns the pair \<open>(r, s)\<close> exactly for the byte
  strings that start with the DER encoding of two numbers from 1 to the order
  of the curve, excluded; what follows the encoding is ignored.
\<close>

theorem der_signature_canonical:
  "ParseDERSignature b = Inr sig \<longleftrightarrow>
    sig_in_range (sig_R sig) (sig_S sig) \<and> (\<exists>rest. b = der_bytes (sig_R sig) (sig_S sig) @ rest)"
proof
  assume "ParseDERSignature b = Inr sig"
  then obtain rb sb rest where
    "b = 0x30 # word_of_nat (length (int_frames rb sb)) # int_frames rb sb @ rest"
    "canonical_int rb" "canonical_int sb" "sig_in_range (SetBytes rb) (SetBytes sb)"
    "sig = \<lparr>sig_R = SetBytes rb, sig_S = SetBytes sb\<rparr>"
    by (rule parseSig_inv)
  then show "sig_in_range (sig_R sig) (sig_S sig) \<and>
      (\<exists>rest. b = der_bytes (sig_R sig) (sig_S sig) @ rest)"
    by (simp add: der_bytes_def canonicalizeInt_SetBytes Let_def)
next
  assume "sig_in_range (sig_R sig) (sig_S sig) \<and> (\<exists>rest. b = der_bytes (sig_R sig) (sig_S sig) @ rest)"
  then obtain rest where r: "sig_in_range (sig_R sig) (sig_S sig)"
    and b: "b = der_bytes (sig_R sig) (sig_S sig) @ rest" by blast
  let ?rb = "canonicalizeInt (sig_R sig)" and ?sb = "canonicalizeInt (sig_S sig)"
  have can: "canonical_int ?rb" "canonical_int ?sb" "SetBytes ?rb = sig_R sig" "SetBytes ?sb = sig_S sig"
    using r canonicalizeInt_canonical by (simp_all add: sig_in_range_def)
  have "length ?rb \<le> 33" "length ?sb \<le> 33"
    using r canonicalizeInt_length curve_N_bound by (simp_all add: sig_in_range_def)
  with parseSig_frame [OF can(1,2), of rest sig] r can(3,4)
  show "ParseDERSignature b = Inr sig" by (simp add: b der_bytes_def Let_def)
qed

text \<open>
  C20: \<open>parseSig\<close> has an index out of range exactly for byte strings of at least 8
  bytes that start with the sequence identifier and whose length byte is 0xfe,
  0xff or 0, or 1 before an integer marker: the sum \<open>siglen + 2\<close> wraps around at
  256 and has no lower bound.
\<close>

theorem parse_sig_panics:
  "parseSig b der = Inl EcPanic \<longleftrightarrow>
    8 \<le> length b \<and> b ! 0 = 0x30 \<and> (b ! 1 \<in> {0xfe, 0xff, 0} \<or> b ! 1 = 1 \<and> b ! 2 = 2)"
proof -
  define k where "k = unat (b ! 1 + 2)"
  have k: "k < 3 \<longleftrightarrow> b ! 1 \<in> {0xfe, 0xff, 0}" "k = 3 \<longleftrightarrow> b ! 1 = 1"
  proof -
    have "k = 0 \<longleftrightarrow> b ! 1 + 2 = 0" "k = 1 \<longleftrightarrow> b ! 1 + 2 = 1" "k = 2 \<longleftrightarrow> b ! 1 + 2 = 2"
      "k = 3 \<longleftrightarrow> b ! 1 + 2 = 3"
      unfolding k_def by (simp_all add: word_unat_eq_iff)
    moreover have "b ! 1 + 2 = 0 \<longleftrightarrow> b ! 1 = 0xfe" "b ! 1 + 2 = 1 \<longleftrightarrow> b ! 1 = 0xff"
      "b ! 1 + 2 = 2 \<longleftrightarrow> b ! 1 = 0" "b ! 1 + 2 = 3 \<longleftrightarrow> b ! 1 = 1"
      by (auto simp: eq_diff_eq [symmetric])
    ultimately show "k < 3 \<longleftrightarrow> b ! 1 \<in> {0xfe, 0xff, 0}" "k = 3 \<longleftrightarrow> b ! 1 = 1" by auto
  qed
  show ?thesis
  proof (cases "8 \<le> length b \<and> b ! 0 = 0x30 \<and> k \<le> length b")
    case True
    then have "parseSig b der = parse_ints der (take k b)" by (simp add: parseSig_def k_def Let_def)
    with True k show ?thesis by (auto simp: parse_ints_panic)
  next
    case False
    then have "parseSig b der \<noteq> Inl EcPanic" by (auto simp: parseSig_def k_def Let_def)
    with False k show ?thesis by auto
  qed
qed

end
