(* ===== verification/EngineState.thy ===== *)
theory EngineState
  imports Standard SigHash Secp256k1 "HOL-Library.AList"
begin

text \<open>
  The state of the script engine and the checks on signatures and keys, after
  \<open>src/txscript/engine.go\<close>, and the cache of verified signatures, after
  \<open>src/txscript/sigcache.go\<close>.

  The cryptographic functions that the engine calls are the fields of the record
  \<open>env\<close>: the hash functions, the curve membership test, the verification of
  ECDSA, Ed25519 and Schnorr signatures and the parsers of the last two.  Its
  other fields are the two variables that turn on the reuse of the
  transaction hash, and the choice of the cache entry to evict, which in the
  source is the first one of an iteration over a Go map.
\<close>

unbundle bit_operations_syntax

section \<open>The signature cache\<close>

record sigCacheEntry =
  entry_sig :: Signature
  entry_pubKey :: PublicKey

record SigCache =
  validSigs :: "(hash \<times> sigCacheEntry) list"
  maxEntries :: nat

definition NewSigCache :: "nat \<Rightarrow> SigCache" where
  "NewSigCache n = \<lparr>validSigs = [], maxEntries = n\<rparr>"

definition Exists :: "SigCache \<Rightarrow> hash \<Rightarrow> Signature \<Rightarrow> PublicKey \<Rightarrow> bool" where
  "Exists s sigHash sig pubKey =
     (case map_of (validSigs s) sigHash of
        None \<Rightarrow> False
      | Some entry \<Rightarrow>
          SerializeCompressed (entry_pubKey entry) = SerializeCompressed pubKey \<and>
          Signature_Serialize (entry_sig entry) = Signature_Serialize sig)"

text \<open>\<open>pick\<close> gives the position of the entry that an iteration meets first.\<close>

definition Add :: "(nat \<Rightarrow> nat) \<Rightarrow> SigCache \<Rightarrow> hash \<Rightarrow> Signature \<Rightarrow> PublicKey \<Rightarrow> SigCache" where
  "Add pick s sigHash sig pubKey =
     (if maxEntries s \<le> 0 then s
      else
        let sigs = validSigs s;
            sigs = (if length sigs + 1 > maxEntries s
                    then let i = pick (length sigs) mod length sigs in take i sigs @ drop (Suc i) sigs
                    else sigs)
        in s\<lparr>validSigs := AList.update sigHash \<lparr>entry_sig = sig, entry_pubKey = pubKey\<rparr> sigs\<rparr>)"

section \<open>The engine\<close>

record env =
  HashB :: "byte list \<Rightarrow> hash"
  ripemd160 :: "byte list \<Rightarrow> byte list"
  sha1 :: "byte list \<Rightarrow> byte list"
  sha256 :: "byte list \<Rightarrow> byte list"
  IsOnCurve :: "int \<Rightarrow> int \<Rightarrow> bool"
  ecdsa_Verify :: "PublicKey \<Rightarrow> byte list \<Rightarrow> int \<Rightarrow> int \<Rightarrow> bool"
  edwards_ParsePubKey :: "byte list \<Rightarrow> PublicKey option"
  edwards_ParseSignature :: "byte list \<Rightarrow> Signature option"
  edwards_Verify :: "PublicKey \<Rightarrow> byte list \<Rightarrow> int \<Rightarrow> int \<Rightarrow> bool"
  schnorr_ParsePubKey :: "byte list \<Rightarrow> PublicKey option"
  schnorr_ParseSignature :: "byte list \<Rightarrow> Signature option"
  schnorr_Verify :: "PublicKey \<Rightarrow> byte list \<Rightarrow> int \<Rightarrow> int \<Rightarrow> bool"
  SigHashOptimization :: bool
  optimizeSigVerification :: bool
  pick_entry :: "nat \<Rightarrow> nat"

type_synonym ScriptFlags = uint32

definition ScriptDiscourageUpgradableNops :: ScriptFlags where
  "ScriptDiscourageUpgradableNops = 1"
definition ScriptVerifyCheckLockTimeVerify :: ScriptFlags where
  "ScriptVerifyCheckLockTimeVerify = 2"
definition ScriptVerifyCheckSequenceVerify :: ScriptFlags where
  "ScriptVerifyCheckSequenceVerify = 4"
definition ScriptVerifyCleanStack :: ScriptFlags where
  "ScriptVerifyCleanStack = 8"
definition ScriptVerifySigPushOnly :: ScriptFlags where
  "ScriptVerifySigPushOnly = 16"
definition ScriptVerifySHA256 :: ScriptFlags where
  "ScriptVerifySHA256 = 32"

definition MaxStackSize :: int where "MaxStackSize = 1024"
definition MaxScriptSize :: nat where "MaxScriptSize = 16384"
definition MaxOpsPerScript :: int where "MaxOpsPerScript = 255"
definition MaxScriptElementSize :: nat where "MaxScriptElementSize = 2048"

definition OpCondFalse :: int where "OpCondFalse = 0"
definition OpCondTrue :: int where "OpCondTrue = 1"
definition OpCondSkip :: int where "OpCondSkip = 2"

record Engine =
  scripts :: "parsedOpcode list list"
  savedFirstStack :: "byte list list"
  sigCache :: "SigCache option"
  scriptIdx :: nat
  scriptOff :: nat
  lastCodeSep :: nat
  dstack :: stack
  astack :: stack
  vm_tx :: MsgTx
  txIdx :: int
  condStack :: "int list"
  numOps :: int
  vm_flags :: ScriptFlags
  vm_version :: uint16
  bip16 :: bool

definition hasFlag :: "Engine \<Rightarrow> ScriptFlags \<Rightarrow> bool" where
  "hasFlag vm flag \<longleftrightarrow> vm_flags vm AND flag = flag"

definition isBranchExecuting :: "Engine \<Rightarrow> bool" where
  "isBranchExecuting vm =
     (if length (condStack vm) = 0 then True
      else condStack vm ! (length (condStack vm) - 1) = OpCondTrue)"

definition subScript :: "Engine \<Rightarrow> script_error + parsedOpcode list" where
  "subScript vm =
     (if scriptIdx vm < length (scripts vm) then
        sub_slice (scripts vm ! scriptIdx vm) (int (lastCodeSep vm))
          (int (length (scripts vm ! scriptIdx vm)))
      else Inl IndexPanic)"

section \<open>Encodings\<close>

definition checkHashTypeEncoding :: "SigHashType \<Rightarrow> script_error + unit" where
  "checkHashTypeEncoding hashType =
     (let sigHashType = hashType AND NOT SigHashAnyOneCanPay in
      if sigHashType < SigHashAll \<or> sigHashType > SigHashSingle
      then Inl (MalleabilityErr ErrInvalidSigHashType)
      else Inr ())"

definition checkPubKeyEncoding :: "byte list \<Rightarrow> script_error + unit" where
  "checkPubKeyEncoding pubKey =
     (if length pubKey = 33 \<and> (pubKey ! 0 = 0x02 \<or> pubKey ! 0 = 0x03) then Inr ()
      else if length pubKey = 65 \<and> pubKey ! 0 = 0x04 then Inr ()
      else Inl (MalleabilityErr ErrPubKeyType))"

text \<open>
  The index expressions of \<open>checkSignatureEncoding\<close> are in range: every offset is
  compared with the length before it is used.
\<close>

definition checkSignatureEncoding :: "byte list \<Rightarrow> script_error + unit" where
  "checkSignatureEncoding sig =
     (let sigLen = length sig; fail = (\<lambda>e. Inl (MalleabilityErr e)) in
      if sigLen < 8 then fail ErrSigTooShort
      else if sigLen > 72 then fail ErrSigTooLong
      else if sig ! 0 \<noteq> 0x30 then fail ErrSigInvalidSeqID
      else if unat (sig ! 1) \<noteq> sigLen - 2 then fail ErrSigInvalidDataLen
      else
        let rLen = unat (sig ! 3);
            sTypeOffset = 4 + rLen;
            sLenOffset = sTypeOffset + 1
        in
        if sTypeOffset \<ge> sigLen then fail ErrSigMissingSTypeID
        else if sLenOffset \<ge> sigLen then fail ErrSigMissingSLen
        else
          let sOffset = sLenOffset + 1; sLen = unat (sig ! sLenOffset) in
          if sOffset + sLen \<noteq> sigLen then fail ErrSigInvalidSLen
          else if sig ! 2 \<noteq> 0x02 then fail ErrSigInvalidRIntID
          else if rLen = 0 then fail ErrSigZeroRLen
          else if sig ! 4 AND 0x80 \<noteq> 0 then fail ErrSigNegativeR
          else if rLen > 1 \<and> sig ! 4 = 0x00 \<and> sig ! 5 AND 0x80 = 0 then fail ErrSigTooMuchRPadding
          else if sig ! sTypeOffset \<noteq> 0x02 then fail ErrSigInvalidSIntID
          else if sLen = 0 then fail ErrSigZeroSLen
          else if sig ! sOffset AND 0x80 \<noteq> 0 then fail ErrSigNegativeS
          else if sLen > 1 \<and> sig ! sOffset = 0x00 \<and> sig ! (sOffset + 1) AND 0x80 = 0
          then fail ErrSigTooMuchSPadding
          else if SetBytes (take sLen (drop sOffset sig)) > halforder then fail ErrSigHighS
          else Inr ())"

section \<open>Stacks as arrays\<close>

definition getStack :: "stack \<Rightarrow> byte list list" where
  "getStack s =
     rev (map (\<lambda>i. case PeekByteArray (int i) s of Inl _ \<Rightarrow> [] | Inr so \<Rightarrow> so) [0..<length s])"

definition drop_all :: "stack \<Rightarrow> stack" where
  "drop_all s = (case DropN (Depth s) s of Inl _ \<Rightarrow> s | Inr s' \<Rightarrow> s')"

definition setStack :: "stack \<Rightarrow> byte list list \<Rightarrow> stack" where
  "setStack s data = fold PushByteArray data (drop_all s)"

definition GetStack :: "Engine \<Rightarrow> byte list list" where
  "GetStack vm = getStack (dstack vm)"

definition SetStack :: "byte list list \<Rightarrow> Engine \<Rightarrow> Engine" where
  "SetStack data vm = vm\<lparr>dstack := setStack (dstack vm) data\<rparr>"

definition GetAltStack :: "Engine \<Rightarrow> byte list list" where
  "GetAltStack vm = getStack (astack vm)"

definition SetAltStack :: "byte list list \<Rightarrow> Engine \<Rightarrow> Engine" where
  "SetAltStack data vm = vm\<lparr>astack := setStack (astack vm) data\<rparr>"

lemma getStack_id [simp]: "getStack s = s"
proof (rule nth_equalityI)
  show "length (getStack s) = length s" by (simp add: getStack_def)
  fix i assume "i < length (getStack s)"
  then have i: "i < length s" by (simp add: getStack_def)
  have "nat (int (length s) - int (length s - Suc i) - 1) = i" using i by linarith
  then show "getStack s ! i = s ! i"
    using i by (auto simp: getStack_def rev_nth PeekByteArray_def Let_def)
qed

lemma drop_all_Nil [simp]: "drop_all s = []"
proof (cases "s = []")
  case False
  then show ?thesis using DropN_eq [of s "[]"] by (simp add: drop_all_def Depth_def)
qed (simp add: drop_all_def DropN_def Depth_def)

lemma setStack_data [simp]: "setStack s data = data"
proof -
  have "fold PushByteArray data t = t @ data" for t
    by (induction data arbitrary: t) (simp_all add: PushByteArray_def)
  then show ?thesis by (simp add: setStack_def)
qed

section \<open>The encodings that are accepted\<close>

lemma checkSignatureEncoding_frame:
  assumes "canonical_int rb" "canonical_int sb" "length rb + length sb \<le> 66"
  shows "checkSignatureEncoding (0x30 # word_of_nat (length (int_frames rb sb)) # int_frames rb sb) = Inr ()
    \<longleftrightarrow> SetBytes sb \<le> halforder"
proof -
  define s where "s = 0x30 # word_of_nat (length (int_frames rb sb)) # int_frames rb sb"
  obtain r0 rs where r: "rb = r0 # rs" using canonical_nonempty [OF assms(1)] by (cases rb) auto
  obtain s0 ss where sb: "sb = s0 # ss" using canonical_nonempty [OF assms(2)] by (cases sb) auto
  have nth: "s ! 0 = 0x30" "s ! 2 = 2" "s ! (4 + length rb) = 2" "s ! 4 = rb ! 0"
      "s ! (6 + length rb) = sb ! 0" "length rb > 1 \<Longrightarrow> s ! 5 = rb ! 1"
      "length sb > 1 \<Longrightarrow> s ! (7 + length rb) = sb ! 1"
    by (simp_all add: s_def int_frames_def nth_append numeral_eq_Suc r sb)
  have "s ! 1 = word_of_nat (4 + length rb + length sb)" "s ! 3 = word_of_nat (length rb)"
      "s ! (5 + length rb) = word_of_nat (length sb)"
    by (simp_all add: s_def int_frames_def nth_append numeral_eq_Suc r sb)
  then have lens: "unat (s ! 1) = 4 + length rb + length sb" "unat (s ! 3) = length rb"
      "unat (s ! (5 + length rb)) = length sb"
    using assms(3) unat_byte_length [of "4 + length rb + length sb"] unat_byte_length [of "length rb"]
      unat_byte_length [of "length sb"]
    by (simp_all only:)
  have len: "length s = 6 + length rb + length sb" "drop (6 + length rb) s = sb"
    by (simp_all add: s_def int_frames_def numeral_eq_Suc)
  have pad: "s ! 4 AND 0x80 = 0" "s ! (6 + length rb) AND 0x80 = 0"
      "\<not> (length rb > 1 \<and> s ! 4 = 0 \<and> s ! 5 AND 0x80 = 0)"
      "\<not> (length sb > 1 \<and> s ! (6 + length rb) = 0 \<and> s ! (7 + length rb) AND 0x80 = 0)"
    using assms(1,2) nth by (auto simp: canonical_int_def byte_sign)
  have "length s \<le> 72" "8 \<le> length s" using assms(3) len(1) r sb by simp_all
  then show ?thesis
    unfolding s_def [symmetric] checkSignatureEncoding_def Let_def
    using len lens nth(1-3) pad r sb by (simp add: not_le)
qed

lemma checkSignatureEncoding_inv:
  assumes "checkSignatureEncoding s = Inr ()"
  obtains rb sb where "s = 0x30 # word_of_nat (length (int_frames rb sb)) # int_frames rb sb"
    "canonical_int rb" "canonical_int sb" "length rb + length sb \<le> 66"
proof -
  define r where "r = unat (s ! 3)"
  define l where "l = unat (s ! (5 + r))"
  have f: "length s \<le> 72" "s ! 0 = 0x30" "unat (s ! 1) = length s - 2" "length s = 6 + r + l"
      "s ! 2 = 2" "0 < r" "s ! (4 + r) = 2" "0 < l"
    and pad: "s ! 4 AND 0x80 = 0" "\<not> (r > 1 \<and> s ! 4 = 0 \<and> s ! 5 AND 0x80 = 0)"
      "s ! (6 + r) AND 0x80 = 0" "\<not> (l > 1 \<and> s ! (6 + r) = 0 \<and> s ! (7 + r) AND 0x80 = 0)"
    using assms unfolding checkSignatureEncoding_def Let_def r_def l_def
    by (simp_all add: split: if_splits)
  define rb where "rb = take r (drop 4 s)"
  define sb where "sb = drop (6 + r) s"
  note split = int_frames_split [OF f(5,7,4) r_def l_def, folded rb_def sb_def]
  have "canonical_int rb"
    using pad(1,2) f(4,6) by (auto simp: rb_def canonical_int_def byte_sign nth_append)
  moreover have "canonical_int sb"
    using pad(3,4) f(4,8) by (auto simp: sb_def canonical_int_def byte_sign ac_simps)
  moreover have "length (int_frames rb sb) = unat (s ! 1)"
    using f(3,4) split(2,3) by simp
  then have "s ! 1 = word_of_nat (length (int_frames rb sb))" by (simp only:) simp
  ultimately show thesis using that [of rb sb] split f(1,2,4) by simp
qed

section \<open>Properties\<close>

text \<open>
  C18: \<open>checkSignatureEncoding\<close> accepts exactly the DER encodings of two numbers in
  at most 72 bytes, the second one at most half the order of the curve.
\<close>

theorem accepted_signatures:
  "checkSignatureEncoding b = Inr () \<longleftrightarrow>
    (\<exists>r s. 0 \<le> r \<and> 0 \<le> s \<and> s \<le> halforder \<and> b = der_bytes r s \<and> length b \<le> 72)"
proof
  assume ok: "checkSignatureEncoding b = Inr ()"
  then obtain rb sb where b: "b = 0x30 # word_of_nat (length (int_frames rb sb)) # int_frames rb sb"
    and can: "canonical_int rb" "canonical_int sb" "length rb + length sb \<le> 66"
    by (rule checkSignatureEncoding_inv)
  with ok checkSignatureEncoding_frame [OF can] have "SetBytes sb \<le> halforder" by simp
  with b can show "\<exists>r s. 0 \<le> r \<and> 0 \<le> s \<and> s \<le> halforder \<and> b = der_bytes r s \<and> length b \<le> 72"
    by (intro exI [of _ "SetBytes rb"] exI [of _ "SetBytes sb"])
      (simp add: der_bytes_def canonicalizeInt_SetBytes Let_def)
next
  assume "\<exists>r s. 0 \<le> r \<and> 0 \<le> s \<and> s \<le> halforder \<and> b = der_bytes r s \<and> length b \<le> 72"
  then obtain r s where b: "0 \<le> r" "0 \<le> s" "s \<le> halforder" "b = der_bytes r s" "length b \<le> 72"
    by blast
  have "length (canonicalizeInt r) + length (canonicalizeInt s) \<le> 66"
    using b(4,5) by (simp add: der_bytes_def Let_def)
  with b checkSignatureEncoding_frame [of "canonicalizeInt r" "canonicalizeInt s"]
    canonicalizeInt_canonical [of r] canonicalizeInt_canonical [of s]
  show "checkSignatureEncoding b = Inr ()" by (simp add: der_bytes_def Let_def)
qed

end
