(* ===== verification/Opcodes.thy ===== *)
theory Opcodes
  imports EngineState
begin

text \<open>
  The handlers of the opcodes, after \<open>src/txscript/opcode.go\<close>, one definition per
  function and in its order, and the column \<open>opfunc\<close> of the opcode table.  A
  handler takes the parsed opcode and the engine and returns the engine or
  the error.  Handlers that only work on the data stack are lifted by
  \<open>on_dstack\<close>.
\<close>

unbundle bit_operations_syntax

type_synonym handler = "parsedOpcode \<Rightarrow> Engine \<Rightarrow> script_error + Engine"

definition on_dstack :: "(stack \<Rightarrow> script_error + stack) \<Rightarrow> Engine \<Rightarrow> script_error + Engine" where
  "on_dstack f vm = bindE (f (dstack vm)) (\<lambda>s. Inr (vm\<lparr>dstack := s\<rparr>))"

abbreviation (input) mathLen :: nat where
  "mathLen \<equiv> mathOpCodeMaxScriptNumLen"

text \<open>Arithmetic of \<open>int32\<close> wraps around.\<close>

definition wrap32 :: "int \<Rightarrow> int" where
  "wrap32 n = signed_take_bit 31 n"

section \<open>Constants and control flow\<close>

definition opcodeDisabled :: handler where
  "opcodeDisabled op vm = Inl (OpcodeErr ErrDisabledOpcode)"

definition opcodeReserved :: handler where
  "opcodeReserved op vm = Inl (OpcodeErr ErrReservedOpcode)"

definition opcodeInvalid :: handler where
  "opcodeInvalid op vm = Inl (OpcodeErr ErrReservedOpcode)"

definition opcodeFalse :: handler where
  "opcodeFalse op vm = on_dstack (\<lambda>s. Inr (PushByteArray [] s)) vm"

definition opcodePushData :: handler where
  "opcodePushData op vm = on_dstack (\<lambda>s. Inr (PushByteArray (pop_data op) s)) vm"

definition opcode1Negate :: handler where
  "opcode1Negate op vm = on_dstack (PushInt (-1)) vm"

definition opcodeN :: handler where
  "opcodeN op vm = on_dstack (PushInt (uint (pvalue op - (OP_1 - 1)))) vm"

definition opcodeNop :: handler where
  "opcodeNop op vm =
     (if pvalue op \<in> {OP_NOP1, OP_NOP4, OP_NOP5, OP_NOP6, OP_NOP7, OP_NOP8, OP_NOP9, OP_NOP10} \<or>
         0xc1 \<le> pvalue op \<and> pvalue op \<le> 0xf8
      then
        if hasFlag vm ScriptDiscourageUpgradableNops
        then Inl (SoftForkErr ErrDiscourageUpgradableNOPs) else Inr vm
      else Inr vm)"

definition opcodeIf :: handler where
  "opcodeIf op vm =
     (if isBranchExecuting vm then
        bindE (PopBool (dstack vm)) (\<lambda>(ok, s).
        Inr (vm\<lparr>dstack := s,
                condStack := condStack vm @ [if ok then OpCondTrue else OpCondFalse]\<rparr>))
      else Inr (vm\<lparr>condStack := condStack vm @ [OpCondSkip]\<rparr>))"

definition opcodeNotIf :: handler where
  "opcodeNotIf op vm =
     (if isBranchExecuting vm then
        bindE (PopBool (dstack vm)) (\<lambda>(ok, s).
        Inr (vm\<lparr>dstack := s,
                condStack := condStack vm @ [if \<not> ok then OpCondTrue else OpCondFalse]\<rparr>))
      else Inr (vm\<lparr>condStack := condStack vm @ [OpCondSkip]\<rparr>))"

definition opcodeElse :: handler where
  "opcodeElse op vm =
     (if length (condStack vm) = 0 then Inl (OpcodeErr ErrUnbalancedConditional)
      else
        let conditionalIdx = length (condStack vm) - 1; c = condStack vm ! conditionalIdx in
        if c = OpCondTrue then Inr (vm\<lparr>condStack := (condStack vm)[conditionalIdx := OpCondFalse]\<rparr>)
        else if c = OpCondFalse
        then Inr (vm\<lparr>condStack := (condStack vm)[conditionalIdx := OpCondTrue]\<rparr>)
        else Inr vm)"

definition opcodeEndif :: handler where
  "opcodeEndif op vm =
     (if length (condStack vm) = 0 then Inl (OpcodeErr ErrUnbalancedConditional)
      else Inr (vm\<lparr>condStack := take (length (condStack vm) - 1) (condStack vm)\<rparr>))"

definition abstractVerify :: "verify_error \<Rightarrow> handler" where
  "abstractVerify c op vm = on_dstack (\<lambda>s.
     bindE (PopBool s) (\<lambda>(verified, s').
     if \<not> verified then Inl (VerifyErr c) else Inr s')) vm"

definition opcodeVerify :: handler where
  "opcodeVerify op vm = abstractVerify ErrVerify op vm"

definition opcodeReturn :: handler where
  "opcodeReturn op vm = Inl (FinalErr ErrEarlyReturn)"

definition verifyLockTime :: "int \<Rightarrow> int \<Rightarrow> int \<Rightarrow> script_error + unit" where
  "verifyLockTime txLockTime threshold lockTime =
     (if \<not> (txLockTime < threshold \<and> lockTime < threshold \<or>
            txLockTime \<ge> threshold \<and> lockTime \<ge> threshold)
      then Inl (SoftForkErr ErrUnsatisfiedLockTime)
      else if lockTime > txLockTime then Inl (SoftForkErr ErrUnsatisfiedLockTime)
      else Inr ())"

text \<open>\<open>vm.tx.TxIn[vm.txIdx]\<close>\<close>

definition cur_TxIn :: "Engine \<Rightarrow> script_error + TxIn" where
  "cur_TxIn vm =
     (if 0 \<le> txIdx vm \<and> txIdx vm < int (length (tx_TxIn (vm_tx vm)))
      then Inr (tx_TxIn (vm_tx vm) ! nat (txIdx vm)) else Inl IndexPanic)"

definition opcodeCheckLockTimeVerify :: handler where
  "opcodeCheckLockTimeVerify op vm =
     (if \<not> hasFlag vm ScriptVerifyCheckLockTimeVerify then
        if hasFlag vm ScriptDiscourageUpgradableNops
        then Inl (SoftForkErr ErrDiscourageUpgradableNOPs) else Inr vm
      else
        bindE (PeekInt 0 5 (dstack vm)) (\<lambda>lockTime.
        if lockTime < 0 then Inl (SoftForkErr ErrNegativeLockTime)
        else
          bindE (verifyLockTime (uint (LockTime (vm_tx vm))) LockTimeThreshold lockTime) (\<lambda>_.
          bindE (cur_TxIn vm) (\<lambda>txIn.
          if Sequence txIn = MaxTxInSequenceNum then Inl (SoftForkErr ErrUnsatisfiedLockTime)
          else Inr vm))))"

definition SequenceLockTimeDisabled :: int where
  "SequenceLockTimeDisabled = 2 ^ 31"

definition SequenceLockTimeIsSeconds :: int where
  "SequenceLockTimeIsSeconds = 2 ^ 22"

definition SequenceLockTimeMask :: int where
  "SequenceLockTimeMask = 0x0000ffff"

definition opcodeCheckSequenceVerify :: handler where
  "opcodeCheckSequenceVerify op vm =
     (if \<not> hasFlag vm ScriptVerifyCheckSequenceVerify then
        if hasFlag vm ScriptDiscourageUpgradableNops
        then Inl (SoftForkErr ErrDiscourageUpgradableNOPs) else Inr vm
      else
        bindE (PeekInt 0 5 (dstack vm)) (\<lambda>stackSequence.
        if stackSequence < 0 then Inl (SoftForkErr ErrNegativeLockTime)
        else if stackSequence AND SequenceLockTimeDisabled \<noteq> 0 then Inr vm
        else if tx_Version (vm_tx vm) < 2 then Inl (SoftForkErr ErrUnsatisfiedLockTime)
        else
          bindE (cur_TxIn vm) (\<lambda>txIn.
          let txSequence = uint (Sequence txIn);
              lockTimeMask = SequenceLockTimeIsSeconds OR SequenceLockTimeMask
          in
          if txSequence AND SequenceLockTimeDisabled \<noteq> 0
          then Inl (SoftForkErr ErrUnsatisfiedLockTime)
          else
            bindE (verifyLockTime (txSequence AND lockTimeMask) SequenceLockTimeIsSeconds
                     (stackSequence AND lockTimeMask)) (\<lambda>_. Inr vm))))"

section \<open>Stack\<close>

definition opcodeToAltStack :: handler where
  "opcodeToAltStack op vm =
     bindE (PopByteArray (dstack vm)) (\<lambda>(so, s).
     Inr (vm\<lparr>dstack := s, astack := PushByteArray so (astack vm)\<rparr>))"

definition opcodeFromAltStack :: handler where
  "opcodeFromAltStack op vm =
     bindE (PopByteArray (astack vm)) (\<lambda>(so, s).
     Inr (vm\<lparr>astack := s, dstack := PushByteArray so (dstack vm)\<rparr>))"

definition opcode2Drop :: handler where
  "opcode2Drop op vm = on_dstack (DropN 2) vm"

definition opcode2Dup :: handler where
  "opcode2Dup op vm = on_dstack (DupN 2) vm"

definition opcode3Dup :: handler where
  "opcode3Dup op vm = on_dstack (DupN 3) vm"

definition opcode2Over :: handler where
  "opcode2Over op vm = on_dstack (OverN 2) vm"

definition opcode2Rot :: handler where
  "opcode2Rot op vm = on_dstack (RotN 2) vm"

definition opcode2Swap :: handler where
  "opcode2Swap op vm = on_dstack (SwapN 2) vm"

definition opcodeIfDup :: handler where
  "opcodeIfDup op vm = on_dstack (\<lambda>s.
     bindE (PeekByteArray 0 s) (\<lambda>so. Inr (if asBool so then PushByteArray so s else s))) vm"

definition opcodeDepth :: handler where
  "opcodeDepth op vm = on_dstack (\<lambda>s. PushInt (Depth s) s) vm"

definition opcodeDrop :: handler where
  "opcodeDrop op vm = on_dstack (DropN 1) vm"

definition opcodeDup :: handler where
  "opcodeDup op vm = on_dstack (DupN 1) vm"

definition opcodeNip :: handler where
  "opcodeNip op vm = on_dstack (NipN 1) vm"

definition opcodeOver :: handler where
  "opcodeOver op vm = on_dstack (OverN 1) vm"

definition opcodePick :: handler where
  "opcodePick op vm = on_dstack (\<lambda>s.
     bindE (PopInt mathLen s) (\<lambda>(val, s). PickN (scriptNum_Int32 val) s)) vm"

definition opcodeRoll :: handler where
  "opcodeRoll op vm = on_dstack (\<lambda>s.
     bindE (PopInt mathLen s) (\<lambda>(val, s). RollN (scriptNum_Int32 val) s)) vm"

definition opcodeRot :: handler where
  "opcodeRot op vm = on_dstack (RotN 1) vm"

definition opcodeSwap :: handler where
  "opcodeSwap op vm = on_dstack (SwapN 1) vm"

definition opcodeTuck :: handler where
  "opcodeTuck op vm = on_dstack Tuck vm"

section \<open>Splices\<close>

definition opcodeCat :: handler where
  "opcodeCat op vm = on_dstack (\<lambda>s.
     bindE (PopByteArray s) (\<lambda>(a, s).
     bindE (PopByteArray s) (\<lambda>(b, s).
     if length a = 0 \<and> length b > 0 then Inr (PushByteArray b s)
     else if length b = 0 \<and> length a > 0 then Inr (PushByteArray a s)
     else if length b = 0 \<and> length a = 0 then Inr (PushByteArray [] s)
     else if length a + length b > MaxScriptElementSize then Inl (LimitErr ErrElementTooBig)
     else Inr (PushByteArray (b @ a) s)))) vm"

definition opcodeSubstr :: handler where
  "opcodeSubstr op vm = on_dstack (\<lambda>s.
     bindE (PopInt mathLen s) (\<lambda>(v0, s).
     bindE (PopInt mathLen s) (\<lambda>(v1, s).
     bindE (PopByteArray s) (\<lambda>(a, s).
     let aLen = int (length a); startIdx = scriptNum_Int32 v0; endIdx = scriptNum_Int32 v1 in
     if aLen = 0 then Inr (PushByteArray [] s)
     else if startIdx < 0 then Inl (OpcodeErr ErrNegativeSubstrIdx)
     else if endIdx < 0 then Inl (OpcodeErr ErrNegativeSubstrIdx)
     else if startIdx > aLen then Inl (OpcodeErr ErrOverflowSubstrIdx)
     else if endIdx > aLen then Inl (OpcodeErr ErrOverflowSubstrIdx)
     else if startIdx > endIdx then Inl (OpcodeErr ErrOverflowSubstrIdx)
     else bindE (sub_slice a startIdx endIdx) (\<lambda>r. Inr (PushByteArray r s)))))) vm"

definition opcodeLeft :: handler where
  "opcodeLeft op vm = on_dstack (\<lambda>s.
     bindE (PopInt mathLen s) (\<lambda>(v0, s).
     bindE (PopByteArray s) (\<lambda>(a, s).
     let aLen = int (length a); endIdx = scriptNum_Int32 v0 in
     if aLen = 0 then Inr (PushByteArray [] s)
     else if endIdx < 0 then Inl (OpcodeErr ErrNegativeSubstrIdx)
     else if endIdx > aLen then Inl (OpcodeErr ErrOverflowSubstrIdx)
     else bindE (sub_slice a 0 endIdx) (\<lambda>r. Inr (PushByteArray r s))))) vm"

definition opcodeRight :: handler where
  "opcodeRight op vm = on_dstack (\<lambda>s.
     bindE (PopInt mathLen s) (\<lambda>(v0, s).
     bindE (PopByteArray s) (\<lambda>(a, s).
     let aLen = int (length a); startIdx = scriptNum_Int32 v0 in
     if aLen = 0 then Inr (PushByteArray [] s)
     else if startIdx < 0 then Inl (OpcodeErr ErrNegativeSubstrIdx)
     else if startIdx > aLen then Inl (OpcodeErr ErrOverflowSubstrIdx)
     else bindE (sub_slice a startIdx aLen) (\<lambda>r. Inr (PushByteArray r s))))) vm"

definition opcodeSize :: handler where
  "opcodeSize op vm = on_dstack (\<lambda>s.
     bindE (PeekByteArray 0 s) (\<lambda>so. PushInt (int (length so)) s)) vm"

section \<open>Bitwise logic and comparison of bytes\<close>

text \<open>
  The calls of \<open>PopInt\<close> that the handlers of numbers begin with: \<open>v0\<close> is the
  top item, \<open>v1\<close> the one below.
\<close>

definition pop1 :: "(scriptNum \<Rightarrow> script_error + scriptNum) \<Rightarrow> Engine \<Rightarrow> script_error + Engine" where
  "pop1 f vm = on_dstack (\<lambda>s.
     bindE (PopInt mathLen s) (\<lambda>(v0, s).
     bindE (f v0) (\<lambda>r. PushInt r s))) vm"

definition pop2 ::
  "(scriptNum \<Rightarrow> scriptNum \<Rightarrow> script_error + scriptNum) \<Rightarrow> Engine \<Rightarrow> script_error + Engine" where
  "pop2 f vm = on_dstack (\<lambda>s.
     bindE (PopInt mathLen s) (\<lambda>(v0, s).
     bindE (PopInt mathLen s) (\<lambda>(v1, s).
     bindE (f v0 v1) (\<lambda>r. PushInt r s)))) vm"

definition opcodeInvert :: handler where
  "opcodeInvert op vm = pop1 (\<lambda>v0. Inr (NOT (scriptNum_Int32 v0))) vm"

definition opcodeAnd :: handler where
  "opcodeAnd op vm = pop2 (\<lambda>v0 v1. Inr (scriptNum_Int32 v0 AND scriptNum_Int32 v1)) vm"

definition opcodeOr :: handler where
  "opcodeOr op vm = pop2 (\<lambda>v0 v1. Inr (scriptNum_Int32 v0 OR scriptNum_Int32 v1)) vm"

definition opcodeXor :: handler where
  "opcodeXor op vm = pop2 (\<lambda>v0 v1. Inr (scriptNum_Int32 v0 XOR scriptNum_Int32 v1)) vm"

definition opcodeEqual :: handler where
  "opcodeEqual op vm = on_dstack (\<lambda>s.
     bindE (PopByteArray s) (\<lambda>(a, s).
     bindE (PopByteArray s) (\<lambda>(b, s).
     Inr (PushBool (a = b) s)))) vm"

definition opcodeEqualVerify :: handler where
  "opcodeEqualVerify op vm = bindE (opcodeEqual op vm) (abstractVerify ErrEqualVerify op)"

section \<open>Numbers\<close>

definition rotateRight :: "int \<Rightarrow> int \<Rightarrow> int" where
  "rotateRight val count =
     (let v = (word_of_int val :: uint32); c = nat count
      in sint (drop_bit c v OR push_bit (32 - c) v))"

definition rotateLeft :: "int \<Rightarrow> int \<Rightarrow> int" where
  "rotateLeft val count =
     (let v = (word_of_int val :: uint32); c = nat count
      in sint (push_bit c v OR drop_bit (32 - c) v))"

definition opcodeRotr :: handler where
  "opcodeRotr op vm = pop2 (\<lambda>v0 v1.
     let count = scriptNum_Int32 v0; val = scriptNum_Int32 v1 in
     if count < 0 then Inl (OpcodeErr ErrNegativeRotation)
     else if count > 31 then Inl (OpcodeErr ErrOverflowRotation)
     else Inr (rotateRight val count)) vm"

definition opcodeRotl :: handler where
  "opcodeRotl op vm = pop2 (\<lambda>v0 v1.
     let count = scriptNum_Int32 v0; val = scriptNum_Int32 v1 in
     if count < 0 then Inl (OpcodeErr ErrNegativeRotation)
     else if count > 31 then Inl (OpcodeErr ErrOverflowRotation)
     else Inr (rotateLeft val count)) vm"

definition opcode1Add :: handler where
  "opcode1Add op vm = pop1 (\<lambda>m. Inr (wrap64 (m + 1))) vm"

definition opcode1Sub :: handler where
  "opcode1Sub op vm = pop1 (\<lambda>m. Inr (wrap64 (m - 1))) vm"

definition opcodeNegate :: handler where
  "opcodeNegate op vm = pop1 (\<lambda>m. Inr (wrap64 (- m))) vm"

definition opcodeAbs :: handler where
  "opcodeAbs op vm = pop1 (\<lambda>m. Inr (if m < 0 then wrap64 (- m) else m)) vm"

definition opcodeNot :: handler where
  "opcodeNot op vm = pop1 (\<lambda>m. Inr (if m = 0 then 1 else 0)) vm"

definition opcode0NotEqual :: handler where
  "opcode0NotEqual op vm = pop1 (\<lambda>m. Inr (if m \<noteq> 0 then 1 else m)) vm"

definition opcodeAdd :: handler where
  "opcodeAdd op vm = pop2 (\<lambda>v0 v1. Inr (wrap64 (v0 + v1))) vm"

definition opcodeSub :: handler where
  "opcodeSub op vm = pop2 (\<lambda>v0 v1. Inr (wrap64 (v1 - v0))) vm"

definition opcodeMul :: handler where
  "opcodeMul op vm = pop2 (\<lambda>v0 v1. Inr (wrap32 (scriptNum_Int32 v0 * scriptNum_Int32 v1))) vm"

text \<open>Division of Go truncates towards zero, and the remainder has the sign of the dividend.\<close>

definition quot :: "int \<Rightarrow> int \<Rightarrow> int" where
  "quot a b = sgn a * sgn b * (\<bar>a\<bar> div \<bar>b\<bar>)"

definition opcodeDiv :: handler where
  "opcodeDiv op vm = pop2 (\<lambda>v0 v1.
     let divisor = scriptNum_Int32 v0; dividend = scriptNum_Int32 v1 in
     if divisor = 0 then Inl (OpcodeErr ErrDivideByZero)
     else Inr (wrap32 (quot dividend divisor))) vm"

definition opcodeMod :: handler where
  "opcodeMod op vm = pop2 (\<lambda>v0 v1.
     let divisor = scriptNum_Int32 v0; dividend = scriptNum_Int32 v1 in
     if divisor = 0 then Inl (OpcodeErr ErrDivideByZero)
     else Inr (dividend - divisor * quot dividend divisor)) vm"

definition opcodeLShift :: handler where
  "opcodeLShift op vm = pop2 (\<lambda>v0 v1.
     let count = scriptNum_Int32 v0; val = scriptNum_Int32 v1 in
     if count < 0 then Inl (OpcodeErr ErrNegativeShift)
     else if count > 32 then Inl (OpcodeErr ErrOverflowShift)
     else Inr (wrap32 (push_bit (nat count) val))) vm"

definition opcodeRShift :: handler where
  "opcodeRShift op vm = pop2 (\<lambda>v0 v1.
     let count = scriptNum_Int32 v0; val = scriptNum_Int32 v1 in
     if count < 0 then Inl (OpcodeErr ErrNegativeShift)
     else if count > 32 then Inl (OpcodeErr ErrOverflowShift)
     else Inr (drop_bit (nat count) val)) vm"

definition opcodeBoolAnd :: handler where
  "opcodeBoolAnd op vm = pop2 (\<lambda>v0 v1. Inr (if v0 \<noteq> 0 \<and> v1 \<noteq> 0 then 1 else 0)) vm"

definition opcodeBoolOr :: handler where
  "opcodeBoolOr op vm = pop2 (\<lambda>v0 v1. Inr (if v0 \<noteq> 0 \<or> v1 \<noteq> 0 then 1 else 0)) vm"

definition opcodeNumEqual :: handler where
  "opcodeNumEqual op vm = pop2 (\<lambda>v0 v1. Inr (if v0 = v1 then 1 else 0)) vm"

definition opcodeNumEqualVerify :: handler where
  "opcodeNumEqualVerify op vm = bindE (opcodeNumEqual op vm) (abstractVerify ErrNumEqualVerify op)"

definition opcodeNumNotEqual :: handler where
  "opcodeNumNotEqual op vm = pop2 (\<lambda>v0 v1. Inr (if v0 \<noteq> v1 then 1 else 0)) vm"

definition opcodeLessThan :: handler where
  "opcodeLessThan op vm = pop2 (\<lambda>v0 v1. Inr (if v1 < v0 then 1 else 0)) vm"

definition opcodeGreaterThan :: handler where
  "opcodeGreaterThan op vm = pop2 (\<lambda>v0 v1. Inr (if v1 > v0 then 1 else 0)) vm"

definition opcodeLessThanOrEqual :: handler where
  "opcodeLessThanOrEqual op vm = pop2 (\<lambda>v0 v1. Inr (if v1 \<le> v0 then 1 else 0)) vm"

definition opcodeGreaterThanOrEqual :: handler where
  "opcodeGreaterThanOrEqual op vm = pop2 (\<lambda>v0 v1. Inr (if v1 \<ge> v0 then 1 else 0)) vm"

definition opcodeMin :: handler where
  "opcodeMin op vm = pop2 (\<lambda>v0 v1. Inr (if v1 < v0 then v1 else v0)) vm"

definition opcodeMax :: handler where
  "opcodeMax op vm = pop2 (\<lambda>v0 v1. Inr (if v1 > v0 then v1 else v0)) vm"

definition opcodeWithin :: handler where
  "opcodeWithin op vm = on_dstack (\<lambda>s.
     bindE (PopInt mathLen s) (\<lambda>(maxVal, s).
     bindE (PopInt mathLen s) (\<lambda>(minVal, s).
     bindE (PopInt mathLen s) (\<lambda>(x, s).
     PushInt (if x \<ge> minVal \<and> x < maxVal then 1 else 0) s)))) vm"

section \<open>Hashes\<close>

definition hash_top :: "(byte list \<Rightarrow> byte list) \<Rightarrow> Engine \<Rightarrow> script_error + Engine" where
  "hash_top h vm = on_dstack (\<lambda>s.
     bindE (PopByteArray s) (\<lambda>(buf, s). Inr (PushByteArray (h buf) s))) vm"

definition opcodeRipemd160 :: "env \<Rightarrow> handler" where
  "opcodeRipemd160 E op vm = hash_top (ripemd160 E) vm"

definition opcodeSha1 :: "env \<Rightarrow> handler" where
  "opcodeSha1 E op vm = hash_top (sha1 E) vm"

definition opcodeBlake256 :: "env \<Rightarrow> handler" where
  "opcodeBlake256 E op vm = hash_top (HashB E) vm"

definition opcodeSha256 :: "env \<Rightarrow> handler" where
  "opcodeSha256 E op vm =
     (if \<not> hasFlag vm ScriptVerifySHA256 then
        if hasFlag vm ScriptDiscourageUpgradableNops
        then Inl (SoftForkErr ErrDiscourageUpgradableNOPs) else Inr vm
      else hash_top (sha256 E) vm)"

definition opcodeHash160 :: "env \<Rightarrow> handler" where
  "opcodeHash160 E op vm = hash_top (\<lambda>buf. ripemd160 E (HashB E buf)) vm"

definition opcodeHash256 :: "env \<Rightarrow> handler" where
  "opcodeHash256 E op vm = hash_top (\<lambda>buf. HashB E (HashB E buf)) vm"

section \<open>Signatures\<close>

text \<open>
  The prefix hash that a signature check hands to \<open>calcSignatureHash\<close>; the
  transaction remembers its hash.  \<open>CachedTxHash\<close> panics if the transaction
  cannot be serialized.
\<close>

definition sig_prefix_hash :: "env \<Rightarrow> SigHashType \<Rightarrow> Engine \<Rightarrow> script_error + hash option \<times> Engine" where
  "sig_prefix_hash E hashType vm =
     (if hashType AND sigHashMask = SigHashAll \<and> optimizeSigVerification E then
        case CachedTxHash (HashB E) (vm_tx vm) of
          Inl _ \<Rightarrow> Inl IndexPanic
        | Inr (h, tx) \<Rightarrow> Inr (Some h, vm\<lparr>vm_tx := tx\<rparr>)
      else Inr (None, vm))"

definition Signature_Verify :: "env \<Rightarrow> Signature \<Rightarrow> byte list \<Rightarrow> PublicKey \<Rightarrow> bool" where
  "Signature_Verify E sig h pubKey = ecdsa_Verify E pubKey h (sig_R sig) (sig_S sig)"

text \<open>The verification through the cache, if there is one.\<close>

definition verify_cached ::
  "env \<Rightarrow> hash \<Rightarrow> Signature \<Rightarrow> PublicKey \<Rightarrow> Engine \<Rightarrow> bool \<times> Engine" where
  "verify_cached E h sig pubKey vm =
     (case sigCache vm of
        None \<Rightarrow> (Signature_Verify E sig h pubKey, vm)
      | Some c \<Rightarrow>
          let sigHash = copy_array HashSize h; valid = Exists c sigHash sig pubKey in
          if \<not> valid \<and> Signature_Verify E sig h pubKey
          then (True, vm\<lparr>sigCache := Some (Add (pick_entry E) c sigHash sig pubKey)\<rparr>)
          else (valid, vm))"

definition push_bool :: "bool \<Rightarrow> Engine \<Rightarrow> script_error + Engine" where
  "push_bool b vm = Inr (vm\<lparr>dstack := PushBool b (dstack vm)\<rparr>)"

text \<open>The part of \<open>opcodeCheckSig\<close> after the two items have been popped.\<close>

definition check_sig :: "env \<Rightarrow> byte list \<Rightarrow> byte list \<Rightarrow> Engine \<Rightarrow> script_error + Engine" where
  "check_sig E pkBytes fullSigBytes vm =
     (if length fullSigBytes < 1 then push_bool False vm
      else
        let hashType = fullSigBytes ! (length fullSigBytes - 1);
            sigBytes = take (length fullSigBytes - 1) fullSigBytes
        in
        bindE (checkHashTypeEncoding hashType) (\<lambda>_.
        bindE (checkSignatureEncoding sigBytes) (\<lambda>_.
        bindE (checkPubKeyEncoding pkBytes) (\<lambda>_.
        bindE (subScript vm) (\<lambda>sub.
        let sub = removeOpcodeByData sub fullSigBytes in
        bindE (sig_prefix_hash E hashType vm) (\<lambda>(prefixHash, vm).
        case calcSignatureHash (SigHashOptimization E) (HashB E) sub hashType (vm_tx vm) (txIdx vm)
               prefixHash of
          Inl IndexPanic \<Rightarrow> Inl IndexPanic
        | Inl _ \<Rightarrow> push_bool False vm
        | Inr h \<Rightarrow>
            (case ParsePubKey (IsOnCurve E) pkBytes of
               Inl EcPanic \<Rightarrow> Inl IndexPanic
             | Inl _ \<Rightarrow> push_bool False vm
             | Inr pubKey \<Rightarrow>
                 (case ParseDERSignature sigBytes of
                    Inl EcPanic \<Rightarrow> Inl IndexPanic
                  | Inl _ \<Rightarrow> push_bool False vm
                  | Inr signature \<Rightarrow>
                      let (valid, vm) = verify_cached E h signature pubKey vm
                      in push_bool valid vm))))))))"

definition opcodeCheckSig :: "env \<Rightarrow> handler" where
  "opcodeCheckSig E op vm =
     bindE (PopByteArray (dstack vm)) (\<lambda>(pkBytes, s).
     bindE (PopByteArray s) (\<lambda>(fullSigBytes, s).
     check_sig E pkBytes fullSigBytes (vm\<lparr>dstack := s\<rparr>)))"

definition opcodeCheckSigVerify :: "env \<Rightarrow> handler" where
  "opcodeCheckSigVerify E op vm = bindE (opcodeCheckSig E op vm) (abstractVerify ErrCheckSigVerify op)"

text \<open>\<open>for i := 0; i < n; i++ { so, err := vm.dstack.PopByteArray(); ... }\<close>\<close>

fun pop_items :: "nat \<Rightarrow> stack \<Rightarrow> script_error + byte list list \<times> stack" where
  "pop_items 0 s = Inr ([], s)"
| "pop_items (Suc n) s =
     bindE (PopByteArray s) (\<lambda>(so, s).
     bindE (pop_items n s) (\<lambda>(sos, s). Inr (so # sos, s)))"

text \<open>
  The loop of \<open>opcodeCheckMultiSig\<close>, on the signatures and the public keys that
  are left.  The fourth argument is the state of the first of the signatures: not
  parsed yet, or parsed with the result.
\<close>

fun multisig_loop ::
  "env \<Rightarrow> parsedOpcode list \<Rightarrow> byte list list \<Rightarrow> Signature option option \<Rightarrow> byte list list \<Rightarrow> Engine \<Rightarrow>
   script_error + bool \<times> Engine" where
  "multisig_loop E script [] parsed pubKeys vm = Inr (True, vm)"
| "multisig_loop E script (rawSig # sigs) parsed [] vm = Inr (False, vm)"
| "multisig_loop E script (rawSig # sigs) parsed (pubKey # pubKeys) vm =
     (if length (rawSig # sigs) > length (pubKey # pubKeys) then Inr (False, vm)
      else if length rawSig = 0 then multisig_loop E script (rawSig # sigs) parsed pubKeys vm
      else
        let hashType = rawSig ! (length rawSig - 1);
            signature = take (length rawSig - 1) rawSig
        in
        bindE
          (case parsed of
             Some p \<Rightarrow> Inr p
           | None \<Rightarrow>
               bindE (checkHashTypeEncoding hashType) (\<lambda>_.
               bindE (checkSignatureEncoding signature) (\<lambda>_.
               case ParseDERSignature signature of
                 Inl EcPanic \<Rightarrow> Inl IndexPanic
               | Inl _ \<Rightarrow> Inr None
               | Inr p \<Rightarrow> Inr (Some p))))
        (\<lambda>parsed.
          case parsed of
            None \<Rightarrow> multisig_loop E script (rawSig # sigs) (Some None) pubKeys vm
          | Some parsedSig \<Rightarrow>
              bindE (checkPubKeyEncoding pubKey) (\<lambda>_.
              case ParsePubKey (IsOnCurve E) pubKey of
                Inl EcPanic \<Rightarrow> Inl IndexPanic
              | Inl _ \<Rightarrow> multisig_loop E script (rawSig # sigs) (Some (Some parsedSig)) pubKeys vm
              | Inr parsedPubKey \<Rightarrow>
                  bindE (sig_prefix_hash E hashType vm) (\<lambda>(prefixHash, vm).
                  bindE (calcSignatureHash (SigHashOptimization E) (HashB E) script hashType
                           (vm_tx vm) (txIdx vm) prefixHash) (\<lambda>h.
                  let (valid, vm) = verify_cached E h parsedSig parsedPubKey vm in
                  if valid then multisig_loop E script sigs None pubKeys vm
                  else multisig_loop E script (rawSig # sigs) (Some (Some parsedSig)) pubKeys vm)))))"

definition opcodeCheckMultiSig :: "env \<Rightarrow> handler" where
  "opcodeCheckMultiSig E op vm =
     bindE (PopInt mathLen (dstack vm)) (\<lambda>(numKeys, s).
     let numPubKeys = scriptNum_Int32 numKeys in
     if numPubKeys < 0 then Inl (LimitErr ErrInvalidPubKeyCount)
     else if numPubKeys > MaxPubKeysPerMultiSig then Inl (LimitErr ErrInvalidPubKeyCount)
     else
       let vm = vm\<lparr>numOps := numOps vm + numPubKeys\<rparr> in
       if numOps vm > MaxOpsPerScript then Inl (LimitErr ErrTooManyOperations)
       else
         bindE (pop_items (nat numPubKeys) s) (\<lambda>(pubKeys, s).
         bindE (PopInt mathLen s) (\<lambda>(numSigs, s).
         let numSignatures = scriptNum_Int32 numSigs in
         if numSignatures < 0 then Inl (LimitErr ErrInvalidSignatureCount)
         else if numSignatures > numPubKeys then Inl (LimitErr ErrInvalidSignatureCount)
         else
           bindE (pop_items (nat numSignatures) s) (\<lambda>(signatures, s).
           let vm = vm\<lparr>dstack := s\<rparr> in
           bindE (subScript vm) (\<lambda>sub.
           let script = fold (\<lambda>sig scr. removeOpcodeByData scr sig) signatures sub in
           bindE (multisig_loop E script signatures None pubKeys vm) (\<lambda>(success, vm).
           push_bool success vm))))))"

definition opcodeCheckMultiSigVerify :: "env \<Rightarrow> handler" where
  "opcodeCheckMultiSigVerify E op vm =
     bindE (opcodeCheckMultiSig E op vm) (abstractVerify ErrCheckMultiSigVerify op)"

text \<open>The part of \<open>opcodeCheckSigAlt\<close> after its three items have been popped and measured.\<close>

definition check_sig_alt :: "env \<Rightarrow> int \<Rightarrow> byte list \<Rightarrow> byte list \<Rightarrow> Engine \<Rightarrow> script_error + Engine" where
  "check_sig_alt E sigType pkBytes fullSigBytes vm =
     (let hashType = fullSigBytes ! (length fullSigBytes - 1);
          sigBytes = take (length fullSigBytes - 1) fullSigBytes
      in
      bindE (checkHashTypeEncoding hashType) (\<lambda>_.
      bindE (subScript vm) (\<lambda>sub.
      let sub = removeOpcodeByData sub fullSigBytes in
      bindE (sig_prefix_hash E hashType vm) (\<lambda>(prefixHash, vm).
      case calcSignatureHash (SigHashOptimization E) (HashB E) sub hashType (vm_tx vm) (txIdx vm)
             prefixHash of
        Inl IndexPanic \<Rightarrow> Inl IndexPanic
      | Inl _ \<Rightarrow> push_bool False vm
      | Inr h \<Rightarrow>
          if sigType = STEd25519 then
            (case edwards_ParsePubKey E pkBytes of
               None \<Rightarrow> push_bool False vm
             | Some pubKeyEd \<Rightarrow>
                 (case edwards_ParseSignature E sigBytes of
                    None \<Rightarrow> push_bool False vm
                  | Some sigEd \<Rightarrow>
                      push_bool (edwards_Verify E pubKeyEd h (sig_R sigEd) (sig_S sigEd)) vm))
          else if sigType = STSchnorrSecp256k1 then
            (case schnorr_ParsePubKey E pkBytes of
               None \<Rightarrow> push_bool False vm
             | Some pubKeySec \<Rightarrow>
                 (case schnorr_ParseSignature E sigBytes of
                    None \<Rightarrow> push_bool False vm
                  | Some sigSec \<Rightarrow>
                      push_bool (schnorr_Verify E pubKeySec h (sig_R sigSec) (sig_S sigSec)) vm))
          else push_bool False vm))))"

definition opcodeCheckSigAlt :: "env \<Rightarrow> handler" where
  "opcodeCheckSigAlt E op vm =
     bindE (PopInt altSigSuitesMaxscriptNumLen (dstack vm)) (\<lambda>(sigType, s).
     if sigType = 0 then push_bool False (vm\<lparr>dstack := s\<rparr>)
     else if sigType \<noteq> STEd25519 \<and> sigType \<noteq> STSchnorrSecp256k1
     then push_bool True (vm\<lparr>dstack := s\<rparr>)
     else
       bindE (PopByteArray s) (\<lambda>(pkBytes, s).
       if sigType = STEd25519 \<and> length pkBytes \<noteq> 32 then push_bool False (vm\<lparr>dstack := s\<rparr>)
       else if sigType = STSchnorrSecp256k1 \<and> length pkBytes \<noteq> 33
       then push_bool False (vm\<lparr>dstack := s\<rparr>)
       else
         bindE (PopByteArray s) (\<lambda>(fullSigBytes, s).
         if length fullSigBytes \<noteq> 65 then push_bool False (vm\<lparr>dstack := s\<rparr>)
         else check_sig_alt E sigType pkBytes fullSigBytes (vm\<lparr>dstack := s\<rparr>))))"

definition opcodeCheckSigAltVerify :: "env \<Rightarrow> handler" where
  "opcodeCheckSigAltVerify E op vm = bindE (opcodeCheckSigAlt E op vm) (opcodeVerify op)"

section \<open>The opcode table\<close>

text \<open>
  The handlers of the table, section by section.  The data pushes and the
  undefined opcodes are ranges of the table.
\<close>

definition data_op :: "byte \<Rightarrow> handler" where
  "data_op v =
     (if v = OP_FALSE then opcodeFalse
      else if v \<le> OP_PUSHDATA4 then opcodePushData
      else if v = OP_1NEGATE then opcode1Negate
      else if v = OP_RESERVED then opcodeReserved
      else opcodeN)"

definition control_ops :: "(byte \<times> handler) list" where
  "control_ops =
     [(OP_NOP, opcodeNop), (OP_VER, opcodeReserved), (OP_IF, opcodeIf),
      (OP_NOTIF, opcodeNotIf), (OP_VERIF, opcodeReserved), (OP_VERNOTIF, opcodeReserved),
      (OP_ELSE, opcodeElse), (OP_ENDIF, opcodeEndif), (OP_VERIFY, opcodeVerify),
      (OP_RETURN, opcodeReturn), (OP_CHECKLOCKTIMEVERIFY, opcodeCheckLockTimeVerify),
      (OP_CHECKSEQUENCEVERIFY, opcodeCheckSequenceVerify)]"

definition stack_ops :: "(byte \<times> handler) list" where
  "stack_ops =
     [(OP_TOALTSTACK, opcodeToAltStack), (OP_FROMALTSTACK, opcodeFromAltStack),
      (OP_2DROP, opcode2Drop), (OP_2DUP, opcode2Dup), (OP_3DUP, opcode3Dup),
      (OP_2OVER, opcode2Over), (OP_2ROT, opcode2Rot), (OP_2SWAP, opcode2Swap),
      (OP_IFDUP, opcodeIfDup), (OP_DEPTH, opcodeDepth), (OP_DROP, opcodeDrop),
      (OP_DUP, opcodeDup), (OP_NIP, opcodeNip), (OP_OVER, opcodeOver),
      (OP_PICK, opcodePick), (OP_ROLL, opcodeRoll), (OP_ROT, opcodeRot),
      (OP_SWAP, opcodeSwap), (OP_TUCK, opcodeTuck)]"

definition splice_ops :: "(byte \<times> handler) list" where
  "splice_ops =
     [(OP_CAT, opcodeCat), (OP_SUBSTR, opcodeSubstr), (OP_LEFT, opcodeLeft),
      (OP_RIGHT, opcodeRight), (OP_SIZE, opcodeSize)]"

definition bitwise_ops :: "(byte \<times> handler) list" where
  "bitwise_ops =
     [(OP_INVERT, opcodeInvert), (OP_AND, opcodeAnd), (OP_OR, opcodeOr),
      (OP_XOR, opcodeXor)]"

definition byte_ops :: "(byte \<times> handler) list" where
  "byte_ops =
     [(OP_EQUAL, opcodeEqual), (OP_EQUALVERIFY, opcodeEqualVerify)]"

definition rotation_ops :: "(byte \<times> handler) list" where
  "rotation_ops =
     [(OP_ROTR, opcodeRotr), (OP_ROTL, opcodeRotl)]"

definition numeric_ops :: "(byte \<times> handler) list" where
  "numeric_ops =
     [(OP_1ADD, opcode1Add), (OP_1SUB, opcode1Sub), (OP_2MUL, opcodeNop),
      (OP_2DIV, opcodeNop), (OP_NEGATE, opcodeNegate), (OP_ABS, opcodeAbs),
      (OP_NOT, opcodeNot), (OP_0NOTEQUAL, opcode0NotEqual), (OP_ADD, opcodeAdd),
      (OP_SUB, opcodeSub), (OP_MUL, opcodeMul), (OP_DIV, opcodeDiv), (OP_MOD, opcodeMod),
      (OP_LSHIFT, opcodeLShift), (OP_RSHIFT, opcodeRShift), (OP_BOOLAND, opcodeBoolAnd),
      (OP_BOOLOR, opcodeBoolOr), (OP_NUMEQUAL, opcodeNumEqual),
      (OP_NUMEQUALVERIFY, opcodeNumEqualVerify), (OP_NUMNOTEQUAL, opcodeNumNotEqual),
      (OP_LESSTHAN, opcodeLessThan), (OP_GREATERTHAN, opcodeGreaterThan),
      (OP_LESSTHANOREQUAL, opcodeLessThanOrEqual),
      (OP_GREATERTHANOREQUAL, opcodeGreaterThanOrEqual), (OP_MIN, opcodeMin),
      (OP_MAX, opcodeMax), (OP_WITHIN, opcodeWithin)]"

definition crypto_ops :: "env \<Rightarrow> (byte \<times> handler) list" where
  "crypto_ops E =
     [(OP_RIPEMD160, opcodeRipemd160 E), (OP_SHA1, opcodeSha1 E),
      (OP_SHA256, opcodeSha256 E), (OP_BLAKE256, opcodeBlake256 E),
      (OP_HASH160, opcodeHash160 E), (OP_HASH256, opcodeHash256 E),
      (OP_CODESEPARATOR, opcodeDisabled), (OP_CHECKSIG, opcodeCheckSig E),
      (OP_CHECKSIGVERIFY, opcodeCheckSigVerify E),
      (OP_CHECKMULTISIG, opcodeCheckMultiSig E),
      (OP_CHECKMULTISIGVERIFY, opcodeCheckMultiSigVerify E)]"

definition reserved_ops :: "(byte \<times> handler) list" where
  "reserved_ops =
     [(OP_NOP1, opcodeNop), (OP_NOP4, opcodeNop), (OP_NOP5, opcodeNop),
      (OP_NOP6, opcodeNop), (OP_NOP7, opcodeNop), (OP_NOP8, opcodeNop),
      (OP_NOP9, opcodeNop), (OP_NOP10, opcodeNop)]"

definition stake_ops :: "(byte \<times> handler) list" where
  "stake_ops =
     [(OP_SSTX, opcodeNop), (OP_SSGEN, opcodeNop), (OP_SSRTX, opcodeNop),
      (OP_SSTXCHANGE, opcodeNop)]"

definition alt_ops :: "env \<Rightarrow> (byte \<times> handler) list" where
  "alt_ops E =
     [(OP_CHECKSIGALT, opcodeCheckSigAlt E),
      (OP_CHECKSIGALTVERIFY, opcodeCheckSigAltVerify E)]"

definition undefined_op :: "byte \<Rightarrow> handler" where
  "undefined_op v = (if v \<le> 0xf8 then opcodeNop else opcodeInvalid)"

definition named_ops :: "env \<Rightarrow> (byte \<times> handler) list" where
  "named_ops E =
     control_ops @ stack_ops @ splice_ops @ bitwise_ops @ byte_ops @ rotation_ops @ numeric_ops @
     crypto_ops E @ reserved_ops @ stake_ops @ alt_ops E"

definition opfunc :: "env \<Rightarrow> byte \<Rightarrow> handler" where
  "opfunc E v =
     (if v \<le> OP_16 then data_op v
      else case map_of (named_ops E) v of Some h \<Rightarrow> h | None \<Rightarrow> undefined_op v)"

lemmas table_defs = control_ops_def stack_ops_def splice_ops_def bitwise_ops_def byte_ops_def
  rotation_ops_def numeric_ops_def crypto_ops_def reserved_ops_def stake_ops_def alt_ops_def

text \<open>The named sections hold each opcode from \<open>OP_NOP\<close> to \<open>OP_SHA256\<close> once.\<close>

lemma named_ops_keys: "sort (map (\<lambda>p. unat (fst p)) (named_ops E)) = [97..<193]"
  by (simp only: named_ops_def table_defs append.simps list.map fst_conv) code_simp

end
