(* ===== verification/Handlers.thy ===== *)
theory Handlers
  imports Opcodes
begin

text \<open>
  The contract of the opcode handlers.  The locale \<open>script_handler\<close> states what
  the engine relies on: a handler changes neither the scripts nor the program
  counter, it keeps the engine well-formed, it does not panic on a well-formed
  engine, and a signature cache that only holds verified signatures makes no
  difference to it.  The last section proves the contract for every entry of the
  opcode table.
\<close>

unbundle bit_operations_syntax

section \<open>Well-formed engines\<close>

text \<open>What no handler changes; the transaction may remember its hash.\<close>

definition same_frame :: "Engine \<Rightarrow> Engine \<Rightarrow> bool" where
  "same_frame vm vm' \<longleftrightarrow>
     scripts vm' = scripts vm \<and> savedFirstStack vm' = savedFirstStack vm \<and>
     scriptIdx vm' = scriptIdx vm \<and> scriptOff vm' = scriptOff vm \<and>
     lastCodeSep vm' = lastCodeSep vm \<and> txIdx vm' = txIdx vm \<and> vm_flags vm' = vm_flags vm \<and>
     vm_version vm' = vm_version vm \<and> bip16 vm' = bip16 vm \<and>
     (vm_tx vm)\<lparr>CachedHash := None\<rparr> = (vm_tx vm')\<lparr>CachedHash := None\<rparr>"

definition items_ok :: "stack \<Rightarrow> bool" where
  "items_ok s \<longleftrightarrow> (\<forall>x \<in> set s. length x \<le> MaxScriptElementSize)"

text \<open>The hash functions return arrays of fixed size.\<close>

definition env_ok :: "env \<Rightarrow> bool" where
  "env_ok E \<longleftrightarrow> (\<forall>b. length (HashB E b) = HashSize \<and> length (ripemd160 E b) = 20 \<and>
     length (sha1 E b) = 20 \<and> length (sha256 E b) = 32)"

definition vm_core :: "Engine \<Rightarrow> bool" where
  "vm_core vm \<longleftrightarrow>
     items_ok (dstack vm) \<and> items_ok (astack vm) \<and> items_ok (savedFirstStack vm) \<and>
     set (condStack vm) \<subseteq> {OpCondFalse, OpCondTrue, OpCondSkip} \<and>
     0 \<le> numOps vm \<and> numOps vm \<le> MaxOpsPerScript \<and>
     typed_ins (vm_tx vm) \<and> 0 \<le> txIdx vm \<and> txIdx vm < int (length (tx_TxIn (vm_tx vm))) \<and>
     scriptIdx vm < length (scripts vm) \<and> lastCodeSep vm = 0"

definition sizes_ok :: "Engine \<Rightarrow> bool" where
  "sizes_ok vm \<longleftrightarrow> Depth (dstack vm) + Depth (astack vm) \<le> MaxStackSize"

definition push_ok :: "parsedOpcode \<Rightarrow> bool" where
  "push_ok op \<longleftrightarrow> length (pop_data op) \<le> MaxScriptElementSize"

definition low_sig :: "Signature \<Rightarrow> bool" where
  "low_sig sig \<longleftrightarrow> sig_in_range (sig_R sig) (sig_S sig) \<and> sig_S sig \<le> halforder"

text \<open>A cache that holds only signatures that were verified.\<close>

definition entry_ok :: "env \<Rightarrow> hash \<times> sigCacheEntry \<Rightarrow> bool" where
  "entry_ok E = (\<lambda>(h, e). Signature_Verify E (entry_sig e) h (entry_pubKey e) \<and>
     low_sig (entry_sig e) \<and> (\<exists>b. ParsePubKey (IsOnCurve E) b = Inr (entry_pubKey e)))"

definition cache_ok :: "env \<Rightarrow> SigCache option \<Rightarrow> bool" where
  "cache_ok E c \<longleftrightarrow> (\<forall>s. c = Some s \<longrightarrow> list_all (entry_ok E) (validSigs s))"

text \<open>Two points of the curve with the same abscissa and ordinates of the same parity are equal.\<close>

definition curve_ok :: "env \<Rightarrow> bool" where
  "curve_ok E \<longleftrightarrow> (\<forall>x y z. IsOnCurve E x y \<and> IsOnCurve E x z \<and> 0 \<le> y \<and> y < curve_P \<and>
     0 \<le> z \<and> z < curve_P \<and> (isOdd y \<longleftrightarrow> isOdd z) \<longrightarrow> y = z)"

definition strip :: "Engine \<Rightarrow> Engine" where
  "strip vm = vm\<lparr>sigCache := None\<rparr>"

definition sim_result :: "env \<Rightarrow> script_error + Engine \<Rightarrow> script_error + Engine \<Rightarrow> bool" where
  "sim_result E r r' \<longleftrightarrow>
     (case r of Inl e \<Rightarrow> r' = Inl e | Inr vm \<Rightarrow> r' = Inr (strip vm) \<and> cache_ok E (sigCache vm))"

section \<open>The contract\<close>

definition handled :: "script_error + Engine \<Rightarrow> bool" where
  "handled r \<longleftrightarrow> (case r of Inl e \<Rightarrow> e \<noteq> IndexPanic | Inr vm \<Rightarrow> vm_core vm)"

locale script_handler =
  fixes E :: env and h :: handler
  assumes frame: "h op vm = Inr vm' \<Longrightarrow> same_frame vm vm'"
    and keeps: "env_ok E \<Longrightarrow> vm_core vm \<Longrightarrow> sizes_ok vm \<Longrightarrow> push_ok op \<Longrightarrow> handled (h op vm)"
    and cached: "env_ok E \<Longrightarrow> curve_ok E \<Longrightarrow> vm_core vm \<Longrightarrow> cache_ok E (sigCache vm) \<Longrightarrow>
      sim_result E (h op vm) (h op (strip vm))"

lemma handled_simps [simp]: "handled (Inl e) \<longleftrightarrow> e \<noteq> IndexPanic" "handled (Inr vm) \<longleftrightarrow> vm_core vm"
  by (simp_all add: handled_def)

lemma same_frame_refl [simp]: "same_frame vm vm"
  by (simp add: same_frame_def)

lemma same_frame_trans [trans]: "same_frame a b \<Longrightarrow> same_frame b c \<Longrightarrow> same_frame a c"
  by (simp add: same_frame_def)

lemma same_frame_update [simp]:
  "same_frame vm (vm'\<lparr>dstack := s\<rparr>) = same_frame vm vm'"
  "same_frame vm (vm'\<lparr>astack := s\<rparr>) = same_frame vm vm'"
  "same_frame vm (vm'\<lparr>condStack := cs\<rparr>) = same_frame vm vm'"
  "same_frame vm (vm'\<lparr>numOps := n\<rparr>) = same_frame vm vm'"
  "same_frame vm (vm'\<lparr>sigCache := c\<rparr>) = same_frame vm vm'"
  "same_frame (vm\<lparr>dstack := s\<rparr>) vm' = same_frame vm vm'"
  "same_frame (vm\<lparr>numOps := n\<rparr>) vm' = same_frame vm vm'"
  by (simp_all add: same_frame_def)

lemma strip_simps [simp]:
  "dstack (strip vm) = dstack vm" "astack (strip vm) = astack vm"
  "condStack (strip vm) = condStack vm" "numOps (strip vm) = numOps vm"
  "scripts (strip vm) = scripts vm" "scriptIdx (strip vm) = scriptIdx vm"
  "scriptOff (strip vm) = scriptOff vm" "lastCodeSep (strip vm) = lastCodeSep vm"
  "vm_tx (strip vm) = vm_tx vm" "txIdx (strip vm) = txIdx vm"
  "savedFirstStack (strip vm) = savedFirstStack vm" "bip16 (strip vm) = bip16 vm"
  "vm_flags (strip vm) = vm_flags vm" "vm_version (strip vm) = vm_version vm"
  "sigCache (strip vm) = None"
  by (simp_all add: strip_def)

lemma strip_update [simp]:
  "(strip vm)\<lparr>dstack := s\<rparr> = strip (vm\<lparr>dstack := s\<rparr>)"
  "(strip vm)\<lparr>astack := s\<rparr> = strip (vm\<lparr>astack := s\<rparr>)"
  "(strip vm)\<lparr>condStack := cs\<rparr> = strip (vm\<lparr>condStack := cs\<rparr>)"
  "(strip vm)\<lparr>numOps := n\<rparr> = strip (vm\<lparr>numOps := n\<rparr>)"
  "(strip vm)\<lparr>vm_tx := t\<rparr> = strip (vm\<lparr>vm_tx := t\<rparr>)"
  "strip (vm\<lparr>sigCache := c\<rparr>) = strip vm"
  by (simp_all add: strip_def)

lemma strip_queries [simp]:
  "hasFlag (strip vm) f = hasFlag vm f" "isBranchExecuting (strip vm) = isBranchExecuting vm"
  "subScript (strip vm) = subScript vm" "cur_TxIn (strip vm) = cur_TxIn vm"
  by (simp_all add: hasFlag_def isBranchExecuting_def subScript_def cur_TxIn_def)

section \<open>Functions of the data stack\<close>

text \<open>A function of the stack that keeps the size limit of the items and does not panic.\<close>

definition good_stack :: "script_error + stack \<Rightarrow> bool" where
  "good_stack r \<longleftrightarrow> (case r of Inl e \<Rightarrow> e \<noteq> IndexPanic | Inr s \<Rightarrow> items_ok s)"

definition stack_fun :: "(stack \<Rightarrow> script_error + stack) \<Rightarrow> bool" where
  "stack_fun f \<longleftrightarrow> (\<forall>s. items_ok s \<longrightarrow> good_stack (f s))"

lemma sim_same: "cache_ok E (sigCache vm) \<Longrightarrow> sim_result E (Inr vm) (Inr (strip vm))"
  by (simp add: sim_result_def)

lemma sim_error [simp]: "sim_result E (Inl e) (Inl e)"
  by (simp add: sim_result_def)

lemma sim_bind:
  assumes "sim_result E r r'"
    and "\<And>vm. r = Inr vm \<Longrightarrow> cache_ok E (sigCache vm) \<Longrightarrow> sim_result E (g vm) (g (strip vm))"
  shows "sim_result E (bindE r g) (bindE r' g)"
  using assms by (cases r) (auto simp: sim_result_def)

lemma on_dstack_frame: "on_dstack f vm = Inr vm' \<Longrightarrow> same_frame vm vm'"
  by (auto simp: on_dstack_def bindE_eq_Inr_iff)

lemma on_dstack_handled: "good_stack (f (dstack vm)) \<Longrightarrow> vm_core vm \<Longrightarrow> handled (on_dstack f vm)"
  by (cases "f (dstack vm)") (auto simp: on_dstack_def good_stack_def handled_def vm_core_def)

lemma on_dstack_sim:
  "cache_ok E (sigCache vm) \<Longrightarrow> sim_result E (on_dstack f vm) (on_dstack f (strip vm))"
  by (cases "f (dstack vm)") (simp_all add: on_dstack_def sim_result_def)

lemma stack_funD: "stack_fun f \<Longrightarrow> vm_core vm \<Longrightarrow> good_stack (f (dstack vm))"
  by (simp add: stack_fun_def vm_core_def)

lemma on_dstack_handler: "stack_fun f \<Longrightarrow> script_handler E (\<lambda>op. on_dstack f)"
  by unfold_locales (auto intro: on_dstack_frame on_dstack_handled on_dstack_sim stack_funD)

lemma handler_cong: "(\<And>op vm. h op vm = h' op vm) \<Longrightarrow> script_handler E h' \<Longrightarrow> script_handler E h"
  by (auto simp: script_handler_def)

lemma verify_handler:
  assumes "script_handler E h" and "stack_fun f"
  shows "script_handler E (\<lambda>op vm. bindE (h op vm) (on_dstack f))"
proof
  fix op and vm vm' :: Engine
  assume "bindE (h op vm) (on_dstack f) = Inr vm'"
  then obtain v where v: "h op vm = Inr v" "on_dstack f v = Inr vm'"
    by (auto simp: bindE_eq_Inr_iff)
  show "same_frame vm vm'"
    using script_handler.frame [OF assms(1) v(1)] on_dstack_frame [OF v(2)]
    by (rule same_frame_trans)
next
  fix op and vm :: Engine
  assume "env_ok E" "vm_core vm" "sizes_ok vm" "push_ok op"
  then have "handled (h op vm)" by (rule script_handler.keeps [OF assms(1)])
  then show "handled (bindE (h op vm) (on_dstack f))"
    using assms(2)
    by (cases "h op vm") (auto intro: on_dstack_handled stack_funD)
next
  fix op and vm :: Engine
  assume "env_ok E" "curve_ok E" "vm_core vm" "cache_ok E (sigCache vm)"
  then have "sim_result E (h op vm) (h op (strip vm))" by (rule script_handler.cached [OF assms(1)])
  then show "sim_result E (bindE (h op vm) (on_dstack f)) (bindE (h op (strip vm)) (on_dstack f))"
    by (rule sim_bind) (rule on_dstack_sim)
qed

section \<open>Operands\<close>

text \<open>A fallible computation of a number that is in range.\<close>

definition num_ok :: "script_error + scriptNum \<Rightarrow> bool" where
  "num_ok r \<longleftrightarrow> (case r of Inl e \<Rightarrow> e \<noteq> IndexPanic | Inr n \<Rightarrow> \<bar>n\<bar> < 2 ^ 63)"

named_theorems stack_intros \<open>stack functions do not panic and keep items small\<close>

lemma good_simps [simp]: "good_stack (Inl e) \<longleftrightarrow> e \<noteq> IndexPanic" "good_stack (Inr s) \<longleftrightarrow> items_ok s"
  by (simp_all add: good_stack_def)

lemma num_ok_simps [simp]: "num_ok (Inl e) \<longleftrightarrow> e \<noteq> IndexPanic" "num_ok (Inr n) \<longleftrightarrow> \<bar>n\<bar> < 2 ^ 63"
  by (simp_all add: num_ok_def)

lemma items_ok_simps [simp]:
  "items_ok []" "items_ok (s @ t) \<longleftrightarrow> items_ok s \<and> items_ok t"
  "items_ok (x # s) \<longleftrightarrow> length x \<le> MaxScriptElementSize \<and> items_ok s"
  by (auto simp: items_ok_def)

lemma items_push [simp]:
  "items_ok (PushByteArray so s) \<longleftrightarrow> length so \<le> MaxScriptElementSize \<and> items_ok s"
  "items_ok (PushBool b s) \<longleftrightarrow> items_ok s"
  by (auto simp: PushBool_def PushByteArray_def fromBool_def MaxScriptElementSize_def)

lemma makeScriptNum_bound:
  assumes "makeScriptNum v k = Inr n" and "0 < k" "k \<le> 8"
  shows "\<bar>n\<bar> < 2 ^ (8 * k - 1)"
proof (cases v rule: rev_cases)
  case Nil
  with assms(1) show ?thesis
    by (auto simp: makeScriptNum_def bindE_eq_Inr_iff split: if_splits)
next
  case (snoc u b)
  have "length u < k"
  proof (rule ccontr)
    assume "\<not> length u < k"
    then show False using assms(1) snoc by (auto simp: makeScriptNum_def)
  qed
  with assms snoc have n: "n = sm_value u b" "8 * length u + 7 \<le> 8 * k - 1"
    by (auto simp: makeScriptNum_snoc bindE_eq_Inr_iff)
  have "(2 :: nat) ^ (8 * length u + 7) \<le> 2 ^ (8 * k - 1)" using n(2) by (rule power_increasing) simp
  with magnitude_bound [of u b] have "magnitude u b < 2 ^ (8 * k - 1)" by linarith
  then have "int (magnitude u b) < int (2 ^ (8 * k - 1))" unfolding of_nat_less_iff .
  then show ?thesis by (simp add: n(1) sm_value_def)
qed

lemma makeScriptNum_no_panic: "makeScriptNum v k \<noteq> Inl IndexPanic"
  by (auto simp: makeScriptNum_def checkMinimalDataEncoding_def bindE_eq_Inl_iff Let_def
      split: if_splits)

lemma Bytes_length: "scriptNum_Bytes n = Inr v \<Longrightarrow> \<bar>n\<bar> < 2 ^ 63 \<Longrightarrow> length v \<le> 8"
  using value_of_Bytes [of n v] Bytes_zero by (cases "n = 0") auto

lemma PushInt_good [stack_intros]: "items_ok s \<Longrightarrow> \<bar>n\<bar> < 2 ^ 63 \<Longrightarrow> good_stack (PushInt n s)"
  using Bytes_total [of n] Bytes_length [of n]
  by (auto simp: PushInt_def MaxScriptElementSize_def)

lemma good_pop [stack_intros]:
  assumes "items_ok s"
    and "\<And>x t. length x \<le> MaxScriptElementSize \<Longrightarrow> items_ok t \<Longrightarrow> good_stack (f (x, t))"
  shows "good_stack (bindE (PopByteArray s) f)"
proof (cases s rule: rev_cases)
  case (snoc t x)
  with assms show ?thesis by simp
qed simp

lemma good_pop_int [stack_intros]:
  assumes "items_ok s" and "\<And>n t. \<bar>n\<bar> < 2 ^ 31 \<Longrightarrow> items_ok t \<Longrightarrow> good_stack (f (n, t))"
  shows "good_stack (bindE (PopInt mathLen s) f)"
proof (cases s rule: rev_cases)
  case (snoc t x)
  show ?thesis
  proof (cases "makeScriptNum x mathLen")
    case (Inl e)
    with makeScriptNum_no_panic [of x mathLen] show ?thesis by (auto simp: PopInt_def snoc)
  next
    case (Inr n)
    with makeScriptNum_bound [of x mathLen n] have "\<bar>n\<bar> < 2 ^ 31"
      by (simp add: mathOpCodeMaxScriptNumLen_def)
    with Inr assms show ?thesis by (simp add: PopInt_def snoc)
  qed
qed (simp add: PopInt_def)

lemma good_pop_bool [stack_intros]:
  assumes "items_ok s" and "\<And>b t. items_ok t \<Longrightarrow> good_stack (f (b, t))"
  shows "good_stack (bindE (PopBool s) f)"
  using assms by (cases s rule: rev_cases) (simp_all add: PopBool_def)

lemma good_peek [stack_intros]:
  assumes "items_ok s" and "\<And>x. length x \<le> MaxScriptElementSize \<Longrightarrow> good_stack (f x)"
  shows "good_stack (bindE (PeekByteArray i s) f)"
proof (cases "PeekByteArray i s")
  case (Inl e)
  then show ?thesis by (auto dest: peek_error)
next
  case (Inr x)
  then have "length x \<le> MaxScriptElementSize" using assms(1) by (auto simp: PeekByteArray_iff)
  with Inr assms(2) show ?thesis by simp
qed

lemma good_num [stack_intros]:
  "num_ok r \<Longrightarrow> items_ok s \<Longrightarrow> good_stack (bindE r (\<lambda>n. PushInt n s))"
  by (cases r) (auto intro: PushInt_good)

lemma good_slice [stack_intros]:
  assumes "0 \<le> i" "i \<le> j" "j \<le> int (length a)" "length a \<le> MaxScriptElementSize" "items_ok s"
  shows "good_stack (bindE (sub_slice a i j) (\<lambda>r. Inr (PushByteArray r s)))"
  using assms by (auto simp: sub_slice_def)

lemma stack_op_good [stack_intros]:
  assumes "items_ok s"
  shows "0 < n \<Longrightarrow> good_stack (DropN n s)" "0 < n \<Longrightarrow> good_stack (DupN n s)"
    "0 < n \<Longrightarrow> good_stack (SwapN n s)" "0 < n \<Longrightarrow> good_stack (OverN n s)"
    "0 < n \<Longrightarrow> good_stack (RotN n s)" "good_stack (PickN n s)" "good_stack (RollN n s)"
    "good_stack (NipN n s)" "good_stack (Tuck s)"
  using assms unfolding good_stack_def
  by (auto split: sum.split dest: stack_op_errors simp: stack_iffs)

lemma stack_funI: "(\<And>s. items_ok s \<Longrightarrow> good_stack (f s)) \<Longrightarrow> stack_fun f"
  by (simp add: stack_fun_def)

lemma pop1_handler:
  assumes "\<And>v. \<bar>v\<bar> < 2 ^ 31 \<Longrightarrow> num_ok (f v)"
  shows "script_handler E (\<lambda>op. pop1 f)"
proof (rule handler_cong)
  show "script_handler E (\<lambda>op. on_dstack (\<lambda>s. bindE (PopInt mathLen s) (\<lambda>(v0, s).
      bindE (f v0) (\<lambda>r. PushInt r s))))"
    by (intro on_dstack_handler stack_funI stack_intros) (auto intro!: stack_intros assms)
qed (simp add: pop1_def)

lemma pop2_handler:
  assumes "\<And>v w. \<bar>v\<bar> < 2 ^ 31 \<Longrightarrow> \<bar>w\<bar> < 2 ^ 31 \<Longrightarrow> num_ok (f v w)"
  shows "script_handler E (\<lambda>op. pop2 f)"
proof (rule handler_cong)
  show "script_handler E (\<lambda>op. on_dstack (\<lambda>s. bindE (PopInt mathLen s) (\<lambda>(v0, s).
      bindE (PopInt mathLen s) (\<lambda>(v1, s). bindE (f v0 v1) (\<lambda>r. PushInt r s)))))"
    by (intro on_dstack_handler stack_funI stack_intros) (auto intro!: stack_intros assms)
qed (simp add: pop2_def)


section \<open>Handlers of the data stack\<close>

lemma dstack_handlerI:
  assumes "\<And>op vm. h op vm = on_dstack (f op) vm"
    and "\<And>op s. push_ok op \<Longrightarrow> items_ok s \<Longrightarrow> good_stack (f op s)"
  shows "script_handler E h"
  using assms(2)
  by unfold_locales
    (auto simp: assms(1) vm_core_def intro: on_dstack_frame on_dstack_handled on_dstack_sim)

lemma pop1_handlerI:
  "(\<And>op vm. h op vm = pop1 f vm) \<Longrightarrow> (\<And>v. \<bar>v\<bar> < 2 ^ 31 \<Longrightarrow> num_ok (f v)) \<Longrightarrow> script_handler E h"
  by (rule handler_cong [OF _ pop1_handler])

lemma pop2_handlerI:
  "(\<And>op vm. h op vm = pop2 f vm) \<Longrightarrow>
    (\<And>v w. \<bar>v\<bar> < 2 ^ 31 \<Longrightarrow> \<bar>w\<bar> < 2 ^ 31 \<Longrightarrow> num_ok (f v w)) \<Longrightarrow> script_handler E h"
  by (rule handler_cong [OF _ pop2_handler])

lemma hash_handlerI:
  assumes "\<And>op vm. h op vm = hash_top f vm"
    and "env_ok E \<Longrightarrow> (\<And>b. length (f b) \<le> MaxScriptElementSize)"
  shows "script_handler E h"
  using assms(2)
  by unfold_locales
    (auto simp: assms(1) vm_core_def hash_top_def intro!: stack_intros on_dstack_handled on_dstack_sim
      elim: on_dstack_frame)

text \<open>The bounds of the arithmetic on \<open>int32\<close>.\<close>

lemma Int32_range [simp]: "- (2 ^ 31) \<le> scriptNum_Int32 v" "scriptNum_Int32 v < 2 ^ 31"
  by (auto simp: scriptNum_Int32_def maxInt32_def minInt32_def)

lemma Int32_abs: "\<bar>scriptNum_Int32 v\<bar> \<le> 2 ^ 31"
  using Int32_range [of v] by linarith

lemma int32_logic:
  assumes "- (2 ^ 31) \<le> a" "a < 2 ^ 31" "- (2 ^ 31) \<le> b" "b < (2 :: int) ^ 31"
  shows "\<bar>a AND b\<bar> < 2 ^ 63" "\<bar>a OR b\<bar> < 2 ^ 63" "\<bar>a XOR b\<bar> < 2 ^ 63"
proof -
  have self: "signed_take_bit 31 a = a" "signed_take_bit 31 b = b"
    using assms by (simp_all only: signed_take_bit_int_eq_self_iff)
  have bits: "bit a (min 31 i) = bit a i" "bit b (min 31 i) = bit b i" for i
    using arg_cong [OF self(1), of "\<lambda>x. bit x i"] arg_cong [OF self(2), of "\<lambda>x. bit x i"]
    by (simp_all add: bit_signed_take_bit_iff min.commute)
  have "signed_take_bit 31 (a AND b) = a AND b" "signed_take_bit 31 (a OR b) = a OR b"
      "signed_take_bit 31 (a XOR b) = a XOR b"
    by (rule bit_eqI; simp add: bit_signed_take_bit_iff bit_and_iff bit_or_iff bit_xor_iff bits)+
  then have "- (2 ^ 31) \<le> a AND b \<and> a AND b < 2 ^ 31" "- (2 ^ 31) \<le> a OR b \<and> a OR b < 2 ^ 31"
      "- (2 ^ 31) \<le> a XOR b \<and> a XOR b < 2 ^ 31"
    by (simp_all only: signed_take_bit_int_eq_self_iff)
  then show "\<bar>a AND b\<bar> < 2 ^ 63" "\<bar>a OR b\<bar> < 2 ^ 63" "\<bar>a XOR b\<bar> < 2 ^ 63"
    by (auto simp: abs_if)
qed

lemma wrap32_small [simplified, simp]: "\<bar>wrap32 n\<bar> < 2 ^ 63"
  using signed_take_bit_int_less_exp [of 31 n] signed_take_bit_int_greater_eq_minus_exp [of 31 n]
  unfolding wrap32_def by simp

lemma wrap64_near: "\<bar>n\<bar> < 2 ^ 33 \<Longrightarrow> \<bar>wrap64 n\<bar> < 2 ^ 63"
  by (simp add: wrap64_small)

lemma rotate_small [simplified, simp]: "\<bar>rotateRight v c\<bar> < 2 ^ 63" "\<bar>rotateLeft v c\<bar> < 2 ^ 63"
proof -
  have "\<bar>sint (w :: uint32)\<bar> < 2 ^ 63" for w
    using sint_less [of w] sint_ge [of w] by simp
  then show "\<bar>rotateRight v c\<bar> < 2 ^ 63" "\<bar>rotateLeft v c\<bar> < 2 ^ 63"
    by (simp_all only: rotateRight_def rotateLeft_def Let_def)
qed

lemma rem_small:
  assumes "\<bar>a\<bar> \<le> 2 ^ 31"
  shows "\<bar>a - b * quot a b\<bar> < 2 ^ 63"
proof -
  have "\<bar>b * quot a b\<bar> \<le> \<bar>b\<bar> * (\<bar>a\<bar> div \<bar>b\<bar>)"
    by (cases "a = 0"; cases "b = 0") (simp_all add: quot_def abs_mult abs_sgn_eq pos_imp_zdiv_nonneg_iff)
  also have "\<dots> \<le> \<bar>a\<bar>"
    using minus_mod_eq_mult_div [of "\<bar>a\<bar>" "\<bar>b\<bar>"] pos_mod_sign [of "\<bar>b\<bar>" "\<bar>a\<bar>"]
    by (cases "b = 0") (simp, linarith)
  finally show ?thesis using assms by simp
qed

lemma drop_small:
  assumes "\<bar>a\<bar> \<le> (2 :: int) ^ 31"
  shows "\<bar>drop_bit n a\<bar> < 2 ^ 63"
proof -
  define m q where "m = (2 :: int) ^ n" and "q = a div m"
  have m: "1 \<le> m" by (simp add: m_def)
  have "a - a mod m = m * q" by (simp add: q_def minus_mod_eq_mult_div)
  moreover have "0 \<le> a mod m" "a mod m < m" using m by simp_all
  ultimately have a: "m * q \<le> a" "a < m * (q + 1)" unfolding distrib_left by linarith+
  have "q \<le> \<bar>a\<bar>" if "0 \<le> q" using mult_right_mono [OF m that] a(1) by linarith
  moreover have "- \<bar>a\<bar> \<le> q" if "q + 1 \<le> 0" using mult_right_mono_neg [OF m that] a(2) by simp
  ultimately have "\<bar>q\<bar> \<le> \<bar>a\<bar> + 1" by linarith
  then show ?thesis using assms by (simp add: drop_bit_eq_div m_def q_def)
qed


lemma error_handler: "(\<And>op vm. h op vm = Inl e) \<Longrightarrow> e \<noteq> IndexPanic \<Longrightarrow> script_handler E h"
  by unfold_locales simp_all

lemma data_handlers:
  "script_handler E opcodeFalse" "script_handler E opcodePushData"
  "script_handler E opcode1Negate" "script_handler E opcodeN"
proof -
  have "uint (w :: byte) < 2 ^ 63" for w using unsigned_less [of w, where 'a = int] by simp
  then show "script_handler E opcodeN"
    by (intro dstack_handlerI [OF opcodeN_def] stack_intros) simp_all
qed (rule dstack_handlerI, rule opcodeFalse_def opcodePushData_def opcode1Negate_def;
    auto simp: push_ok_def intro: stack_intros)+

lemma depth_handler: "script_handler E opcodeDepth"
proof -
  have "good_stack (PushInt (Depth (dstack vm)) (dstack vm))" if "vm_core vm" "sizes_ok vm" for vm
    using that by (intro stack_intros) (simp_all add: vm_core_def sizes_ok_def Depth_def MaxStackSize_def)
  then show ?thesis
    by unfold_locales (auto simp: opcodeDepth_def intro: on_dstack_frame on_dstack_handled on_dstack_sim)
qed

lemma stack_handlers:
  "script_handler E opcode2Drop" "script_handler E opcode2Dup" "script_handler E opcode3Dup"
  "script_handler E opcode2Over" "script_handler E opcode2Rot" "script_handler E opcode2Swap"
  "script_handler E opcodeIfDup" "script_handler E opcodeDrop" "script_handler E opcodeDup"
  "script_handler E opcodeNip" "script_handler E opcodeOver" "script_handler E opcodePick"
  "script_handler E opcodeRoll" "script_handler E opcodeRot" "script_handler E opcodeSwap"
  "script_handler E opcodeTuck"
  by (rule dstack_handlerI, rule opcode2Drop_def opcode2Dup_def opcode3Dup_def opcode2Over_def
      opcode2Rot_def opcode2Swap_def opcodeIfDup_def opcodeDrop_def opcodeDup_def opcodeNip_def
      opcodeOver_def opcodePick_def opcodeRoll_def opcodeRot_def opcodeSwap_def opcodeTuck_def;
      auto intro!: stack_intros)+

lemma splice_handlers:
  "script_handler E opcodeCat" "script_handler E opcodeSubstr" "script_handler E opcodeLeft"
  "script_handler E opcodeRight" "script_handler E opcodeSize"
  by (rule dstack_handlerI, rule opcodeCat_def opcodeSubstr_def opcodeLeft_def opcodeRight_def
      opcodeSize_def; auto simp: Let_def MaxScriptElementSize_def intro!: stack_intros)+

lemma verify_fun: "stack_fun (\<lambda>s. bindE (PopBool s) (\<lambda>(v, s'). if \<not> v then Inl (VerifyErr c) else Inr s'))"
  by (auto intro!: stack_funI stack_intros)

lemma abstractVerify_handler: "script_handler E (abstractVerify c)"
  by (rule handler_cong [OF abstractVerify_def on_dstack_handler]) (rule verify_fun)

lemma opcodeVerify_handler: "script_handler E opcodeVerify"
  by (rule handler_cong [OF opcodeVerify_def abstractVerify_handler])

lemma verifyI:
  assumes "\<And>op vm. h op vm = bindE (g op vm) (abstractVerify c op)" and "script_handler E g"
  shows "script_handler E h"
  by (rule handler_cong [OF _ verify_handler [OF assms(2) verify_fun [of c]]])
    (simp add: assms(1) abstractVerify_def [abs_def])

lemma byte_handlers: "script_handler E opcodeEqual" "script_handler E opcodeEqualVerify"
proof -
  show "script_handler E opcodeEqual"
    by (rule dstack_handlerI, rule opcodeEqual_def) (auto intro!: stack_intros)
  then show "script_handler E opcodeEqualVerify" by (rule verifyI [OF opcodeEqualVerify_def])
qed

lemma bitwise_handlers:
  "script_handler E opcodeInvert" "script_handler E opcodeAnd" "script_handler E opcodeOr"
  "script_handler E opcodeXor"
proof -
  show "script_handler E opcodeInvert"
  proof (rule pop1_handlerI, rule opcodeInvert_def)
    fix v :: scriptNum
    have "\<bar>NOT (scriptNum_Int32 v)\<bar> \<le> 2 ^ 31" using Int32_range [of v] by (simp add: not_int_def)
    then show "num_ok (Inr (NOT (scriptNum_Int32 v)))" by simp
  qed
qed (rule pop2_handlerI, rule opcodeAnd_def opcodeOr_def opcodeXor_def,
    unfold num_ok_simps, rule int32_logic; rule Int32_range)+

lemma rotation_handlers: "script_handler E opcodeRotr" "script_handler E opcodeRotl"
  by (rule pop2_handlerI, rule opcodeRotr_def opcodeRotl_def, auto simp: Let_def)+


lemma near_bounds:
  assumes "\<bar>v\<bar> < 2 ^ 31" "\<bar>w\<bar> < (2 :: int) ^ 31"
  shows "\<bar>v\<bar> < 2 ^ 63" "\<bar>wrap64 (v + 1)\<bar> < 2 ^ 63" "\<bar>wrap64 (v - 1)\<bar> < 2 ^ 63"
    "\<bar>wrap64 (- v)\<bar> < 2 ^ 63" "\<bar>wrap64 (v + w)\<bar> < 2 ^ 63" "\<bar>wrap64 (w - v)\<bar> < 2 ^ 63"
proof -
  show "\<bar>v\<bar> < 2 ^ 63" using assms by simp
qed (rule wrap64_near; use assms in simp; linarith)+

lemmas near_simps = near_bounds [simplified]

lemma unary_handlers:
  "script_handler E opcode1Add" "script_handler E opcode1Sub" "script_handler E opcodeNegate"
  "script_handler E opcodeAbs" "script_handler E opcodeNot" "script_handler E opcode0NotEqual"
  by (rule pop1_handlerI, rule opcode1Add_def opcode1Sub_def opcodeNegate_def opcodeAbs_def
      opcodeNot_def opcode0NotEqual_def, auto simp: near_simps)+

lemma binary_handlers:
  "script_handler E opcodeAdd" "script_handler E opcodeSub" "script_handler E opcodeMul"
  "script_handler E opcodeDiv" "script_handler E opcodeLShift"
  "script_handler E opcodeBoolAnd" "script_handler E opcodeBoolOr" "script_handler E opcodeNumEqual"
  "script_handler E opcodeNumNotEqual" "script_handler E opcodeLessThan"
  "script_handler E opcodeGreaterThan" "script_handler E opcodeLessThanOrEqual"
  "script_handler E opcodeGreaterThanOrEqual" "script_handler E opcodeMin" "script_handler E opcodeMax"
  by (rule pop2_handlerI, rule opcodeAdd_def opcodeSub_def opcodeMul_def opcodeDiv_def
      opcodeLShift_def opcodeBoolAnd_def opcodeBoolOr_def opcodeNumEqual_def opcodeNumNotEqual_def
      opcodeLessThan_def opcodeGreaterThan_def opcodeLessThanOrEqual_def
      opcodeGreaterThanOrEqual_def opcodeMin_def opcodeMax_def,
      simp add: near_simps Let_def)+

lemma mod_shift_handlers: "script_handler E opcodeMod" "script_handler E opcodeRShift"
  by (rule pop2_handlerI, rule opcodeMod_def opcodeRShift_def,
      simp add: Let_def rem_small [OF Int32_abs, simplified] drop_small [OF Int32_abs, simplified])+

lemma within_handler: "script_handler E opcodeWithin"
  by (rule dstack_handlerI, rule opcodeWithin_def) (auto intro!: stack_intros)

lemma numEqualVerify_handler: "script_handler E opcodeNumEqualVerify"
  by (rule verifyI [OF opcodeNumEqualVerify_def binary_handlers(8)])

lemma hash_handlers:
  "script_handler E (opcodeRipemd160 E)" "script_handler E (opcodeSha1 E)"
  "script_handler E (opcodeBlake256 E)" "script_handler E (opcodeHash160 E)"
  "script_handler E (opcodeHash256 E)"
  by (rule hash_handlerI, rule opcodeRipemd160_def opcodeSha1_def opcodeBlake256_def
      opcodeHash160_def opcodeHash256_def,
      simp add: env_ok_def HashSize_def MaxScriptElementSize_def)+

text \<open>A handler that returns the engine as it is, fails, or acts as another one, by a
  test that does not read the cache.\<close>

lemma skip_handler: "script_handler E (\<lambda>op. Inr)"
  by unfold_locales (simp_all add: sim_same)

lemma choice_handler:
  assumes "\<And>op vm. h op vm = (if P op vm then f op vm else g op vm)"
    and "\<And>op vm. P op (strip vm) = P op vm"
    and "script_handler E f" "script_handler E g"
  shows "script_handler E h"
proof
  fix op and vm vm' :: Engine
  assume "h op vm = Inr vm'"
  then show "same_frame vm vm'"
    using script_handler.frame [OF assms(3)] script_handler.frame [OF assms(4)]
    by (auto simp: assms(1) split: if_splits)
next
  fix op and vm :: Engine
  assume "env_ok E" "vm_core vm" "sizes_ok vm" "push_ok op"
  then show "handled (h op vm)"
    using script_handler.keeps [OF assms(3)] script_handler.keeps [OF assms(4)]
    by (auto simp: assms(1))
next
  fix op and vm :: Engine
  assume "env_ok E" "curve_ok E" "vm_core vm" "cache_ok E (sigCache vm)"
  then show "sim_result E (h op vm) (h op (strip vm))"
    using script_handler.cached [OF assms(3)] script_handler.cached [OF assms(4)]
    by (auto simp: assms(1,2))
qed


lemma upgradable_nop:
  "script_handler E (\<lambda>op vm. if hasFlag vm ScriptDiscourageUpgradableNops
     then Inl (SoftForkErr ErrDiscourageUpgradableNOPs) else Inr vm)"
  by (rule choice_handler [OF refl _ error_handler [OF refl] skip_handler]) simp_all

lemma nop_handler: "script_handler E opcodeNop"
  by (rule choice_handler [OF opcodeNop_def _ upgradable_nop skip_handler]) simp

lemma sha256_handler: "script_handler E (opcodeSha256 E)"
  by (rule choice_handler [OF opcodeSha256_def _ upgradable_nop hash_handlerI [OF refl]])
    (simp_all add: env_ok_def MaxScriptElementSize_def)

lemma fixed_handlers:
  "script_handler E opcodeDisabled" "script_handler E opcodeReserved" "script_handler E opcodeInvalid"
  "script_handler E opcodeReturn"
  by (rule error_handler, rule opcodeDisabled_def opcodeReserved_def opcodeInvalid_def
      opcodeReturn_def, simp)+

lemma PopBool_cases:
  obtains e where "PopBool s = Inl e" "e \<noteq> IndexPanic"
  | b t where "PopBool s = Inr (b, t)" "items_ok s \<longrightarrow> items_ok t"
proof (cases s rule: rev_cases)
  case Nil
  then have "PopBool s = Inl (OpcodeErr ErrInvalidStackOperation)" by (simp add: PopBool_def)
  then show thesis by (rule that(1)) simp
next
  case (snoc t x)
  then have "PopBool s = Inr (asBool x, t)" by (simp add: PopBool_def)
  then show thesis by (rule that(2)) (simp add: snoc)
qed

text \<open>A handler of conditionals pushes the outcome on the stack of conditions.\<close>

lemma branch_handler:
  assumes "\<And>op vm. h op vm = (if isBranchExecuting vm then
        bindE (PopBool (dstack vm)) (\<lambda>(ok, s).
        Inr (vm\<lparr>dstack := s, condStack := condStack vm @ [if f ok then OpCondTrue else OpCondFalse]\<rparr>))
      else Inr (vm\<lparr>condStack := condStack vm @ [OpCondSkip]\<rparr>))"
  shows "script_handler E h"
proof
  fix op and vm vm' :: Engine
  assume "h op vm = Inr vm'"
  then show "same_frame vm vm'"
    by (auto simp: assms bindE_eq_Inr_iff split: if_splits)
next
  fix op and vm :: Engine
  assume "vm_core vm"
  then show "handled (h op vm)"
    by (cases "dstack vm" rule: PopBool_cases) (auto simp: assms vm_core_def)
next
  fix op and vm :: Engine
  assume "cache_ok E (sigCache vm)"
  then show "sim_result E (h op vm) (h op (strip vm))"
    by (cases "dstack vm" rule: PopBool_cases) (auto simp: assms intro!: sim_same)
qed

lemma control_handlers: "script_handler E opcodeIf" "script_handler E opcodeNotIf"
  by (rule branch_handler [where f = "\<lambda>b. b", OF opcodeIf_def])
    (rule branch_handler [where f = Not, OF opcodeNotIf_def])

lemma else_handler: "script_handler E opcodeElse"
proof
  fix op and vm :: Engine
  assume "vm_core vm"
  then show "handled (opcodeElse op vm)"
    by (auto simp: opcodeElse_def Let_def vm_core_def dest!: set_update_subset_insert [THEN subsetD])
qed (auto simp: opcodeElse_def Let_def split: if_splits intro!: sim_same)

lemma endif_handler: "script_handler E opcodeEndif"
proof
  fix op and vm :: Engine
  assume "vm_core vm"
  then show "handled (opcodeEndif op vm)"
    by (auto simp: opcodeEndif_def vm_core_def dest: in_set_takeD)
qed (auto simp: opcodeEndif_def split: if_splits intro!: sim_same)

lemma altstack_handlers: "script_handler E opcodeToAltStack" "script_handler E opcodeFromAltStack"
proof -
  show "script_handler E opcodeToAltStack"
  proof
    fix op and vm :: Engine
    assume "vm_core vm"
    then show "handled (opcodeToAltStack op vm)"
      by (cases "dstack vm" rule: rev_cases) (auto simp: opcodeToAltStack_def vm_core_def)
  next
    fix op and vm :: Engine
    assume "cache_ok E (sigCache vm)"
    then show "sim_result E (opcodeToAltStack op vm) (opcodeToAltStack op (strip vm))"
      by (cases "dstack vm" rule: rev_cases) (auto simp: opcodeToAltStack_def intro!: sim_same)
  qed (auto simp: opcodeToAltStack_def bindE_eq_Inr_iff)
  show "script_handler E opcodeFromAltStack"
  proof
    fix op and vm :: Engine
    assume "vm_core vm"
    then show "handled (opcodeFromAltStack op vm)"
      by (cases "astack vm" rule: rev_cases) (auto simp: opcodeFromAltStack_def vm_core_def)
  next
    fix op and vm :: Engine
    assume "cache_ok E (sigCache vm)"
    then show "sim_result E (opcodeFromAltStack op vm) (opcodeFromAltStack op (strip vm))"
      by (cases "astack vm" rule: rev_cases) (auto simp: opcodeFromAltStack_def intro!: sim_same)
  qed (auto simp: opcodeFromAltStack_def bindE_eq_Inr_iff)
qed


text \<open>The lock time handlers only test.\<close>

lemma test_handler:
  assumes "\<And>op vm. h op vm = (if P vm then Inl (SoftForkErr e) else
      if Q vm then Inr vm else bindE (t vm) (\<lambda>_. Inr vm))"
    and "\<And>vm. P (strip vm) = P vm" "\<And>vm. Q (strip vm) = Q vm" "\<And>vm. t (strip vm) = t vm"
    and "\<And>vm. vm_core vm \<Longrightarrow> t vm \<noteq> Inl IndexPanic"
  shows "script_handler E h"
proof
  fix op and vm vm' :: Engine
  assume "h op vm = Inr vm'"
  then show "same_frame vm vm'"
    by (auto simp: assms(1) bindE_eq_Inr_iff split: if_splits)
next
  fix op and vm :: Engine
  assume "vm_core vm"
  with assms(5) [of vm] show "handled (h op vm)"
    by (cases "t vm") (auto simp: assms(1))
next
  fix op and vm :: Engine
  assume "cache_ok E (sigCache vm)"
  then show "sim_result E (h op vm) (h op (strip vm))"
    by (cases "t vm") (auto simp: assms(1-4) intro: sim_same)
qed

lemma PeekInt_no_panic: "PeekInt i n s \<noteq> Inl IndexPanic"
  using makeScriptNum_no_panic peek_error [of i s]
  by (auto simp: PeekInt_def bindE_eq_Inl_iff)

lemma verifyLockTime_no_panic: "verifyLockTime a t b \<noteq> Inl IndexPanic"
  by (auto simp: verifyLockTime_def split: if_splits)

lemma cur_TxIn_ok: "vm_core vm \<Longrightarrow> cur_TxIn vm = Inr (tx_TxIn (vm_tx vm) ! nat (txIdx vm))"
  by (simp add: cur_TxIn_def vm_core_def)

lemma panic_free_bind:
  "m \<noteq> Inl IndexPanic \<Longrightarrow> (\<And>a. f a \<noteq> Inl IndexPanic) \<Longrightarrow> bindE m f \<noteq> Inl IndexPanic"
  by (simp add: bindE_eq_Inl_iff)

definition lock_test :: "Engine \<Rightarrow> script_error + unit" where
  "lock_test vm = bindE (PeekInt 0 5 (dstack vm)) (\<lambda>lockTime.
     if lockTime < 0 then Inl (SoftForkErr ErrNegativeLockTime)
     else
       bindE (verifyLockTime (uint (LockTime (vm_tx vm))) LockTimeThreshold lockTime) (\<lambda>_.
       bindE (cur_TxIn vm) (\<lambda>txIn.
       if Sequence txIn = MaxTxInSequenceNum then Inl (SoftForkErr ErrUnsatisfiedLockTime)
       else Inr ())))"

definition sequence_test :: "Engine \<Rightarrow> script_error + unit" where
  "sequence_test vm = bindE (PeekInt 0 5 (dstack vm)) (\<lambda>stackSequence.
     if stackSequence < 0 then Inl (SoftForkErr ErrNegativeLockTime)
     else if stackSequence AND SequenceLockTimeDisabled \<noteq> 0 then Inr ()
     else if tx_Version (vm_tx vm) < 2 then Inl (SoftForkErr ErrUnsatisfiedLockTime)
     else
       bindE (cur_TxIn vm) (\<lambda>txIn.
       let txSequence = uint (Sequence txIn);
           lockTimeMask = SequenceLockTimeIsSeconds OR SequenceLockTimeMask
       in
       if txSequence AND SequenceLockTimeDisabled \<noteq> 0
       then Inl (SoftForkErr ErrUnsatisfiedLockTime)
       else verifyLockTime (txSequence AND lockTimeMask) SequenceLockTimeIsSeconds
              (stackSequence AND lockTimeMask)))"

lemma bindE_assoc: "bindE (bindE m f) g = bindE m (\<lambda>a. bindE (f a) g)"
  by (cases m) simp_all

lemma bindE_if: "bindE (if b then m else n) f = (if b then bindE m f else bindE n f)"
  by simp

lemma lock_time_handlers:
  "script_handler E opcodeCheckLockTimeVerify" "script_handler E opcodeCheckSequenceVerify"
proof -
  define P Q R where "P = (\<lambda>vm. \<not> hasFlag vm ScriptVerifyCheckLockTimeVerify \<and>
      hasFlag vm ScriptDiscourageUpgradableNops)"
    and "Q = (\<lambda>vm. \<not> hasFlag vm ScriptVerifyCheckLockTimeVerify)"
    and "R = (\<lambda>vm. \<not> hasFlag vm ScriptVerifyCheckSequenceVerify)"
  show "script_handler E opcodeCheckLockTimeVerify"
  proof (rule test_handler [where P = P and Q = Q and t = lock_test])
    show "opcodeCheckLockTimeVerify op vm = (if P vm then Inl (SoftForkErr ErrDiscourageUpgradableNOPs)
        else if Q vm then Inr vm else bindE (lock_test vm) (\<lambda>_. Inr vm))" for op vm
      by (simp add: opcodeCheckLockTimeVerify_def lock_test_def P_def Q_def bindE_assoc bindE_if
          cong: if_cong)
    show "lock_test vm \<noteq> Inl IndexPanic" if "vm_core vm" for vm
      unfolding lock_test_def using cur_TxIn_ok [OF that]
      by (intro panic_free_bind PeekInt_no_panic) (simp add: verifyLockTime_no_panic bindE_eq_Inl_iff)
  qed (simp_all add: P_def Q_def lock_test_def cong: if_cong)
  show "script_handler E opcodeCheckSequenceVerify"
  proof (rule test_handler [where P = "\<lambda>vm. R vm \<and> hasFlag vm ScriptDiscourageUpgradableNops"
        and Q = R and t = sequence_test])
    show "opcodeCheckSequenceVerify op vm =
        (if R vm \<and> hasFlag vm ScriptDiscourageUpgradableNops
         then Inl (SoftForkErr ErrDiscourageUpgradableNOPs)
         else if R vm then Inr vm else bindE (sequence_test vm) (\<lambda>_. Inr vm))" for op vm
      by (simp add: opcodeCheckSequenceVerify_def sequence_test_def R_def Let_def bindE_assoc bindE_if
          cong: if_cong)
    show "sequence_test vm \<noteq> Inl IndexPanic" if "vm_core vm" for vm
      unfolding sequence_test_def Let_def using cur_TxIn_ok [OF that]
      by (intro panic_free_bind PeekInt_no_panic) (simp add: verifyLockTime_no_panic)
  qed (simp_all add: R_def sequence_test_def cong: if_cong)
qed


section \<open>Keys and signatures in the cache\<close>

lemma SetBytes_replicate [simp]: "SetBytes (replicate n 0 @ b) = SetBytes b"
  by (induction n) simp_all

lemma SetBytes_big_Bytes: "0 \<le> n \<Longrightarrow> SetBytes (big_Bytes n) = n"
  by (erule big_Bytes_cases) (simp_all add: SetBytes_def of_be_bytes_def)

lemma big_Exp_range: "0 < m \<Longrightarrow> 0 \<le> big_Exp x n m \<and> big_Exp x n m < m"
proof (induction x n m rule: big_Exp.induct)
  case (1 x n m)
  then show ?case by (cases "n = 0") (simp_all add: big_Exp.simps [of x n m] big_Exp.simps [of x 0 m] Let_def)
qed

lemma curve_P_pos: "0 < curve_P"
  by (simp add: curve_P_def)

lemma ParsePubKey_facts:
  assumes "ParsePubKey c b = Inr p"
  shows "0 \<le> key_X p" "0 \<le> key_Y p" "key_Y p < curve_P" "c (key_X p) (key_Y p)"
proof -
  have "0 \<le> y" if "decompressPoint x ybit = Inr y" for x ybit y
    using that big_Exp_range [OF curve_P_pos]
    by (fastforce simp: decompressPoint_def Let_def less_imp_le split: if_splits)
  then show "0 \<le> key_X p" "0 \<le> key_Y p" "key_Y p < curve_P" "c (key_X p) (key_Y p)"
    using assms
    by (auto simp: ParsePubKey_def Let_def bindE_eq_Inr_iff split: if_splits)
qed

lemma compressed_key_unique:
  assumes "curve_ok E" "ParsePubKey (IsOnCurve E) b = Inr p" "ParsePubKey (IsOnCurve E) b' = Inr q"
    and "SerializeCompressed p = SerializeCompressed q"
  shows "p = q"
proof -
  note p = ParsePubKey_facts [OF assms(2)] and q = ParsePubKey_facts [OF assms(3)]
  have ser: "(if isOdd (key_Y p) then pubkeyCompressed OR 0x1 else pubkeyCompressed) =
      (if isOdd (key_Y q) then pubkeyCompressed OR 0x1 else pubkeyCompressed)"
    "replicate (32 - length (big_Bytes (key_X p))) 0 @ big_Bytes (key_X p) =
      replicate (32 - length (big_Bytes (key_X q))) 0 @ big_Bytes (key_X q)"
    using assms(4) by (simp_all add: SerializeCompressed_def paddedAppend_def)
  have "isOdd (key_Y p) \<longleftrightarrow> isOdd (key_Y q)"
    using ser(1) by (simp add: pubkeyCompressed_def split: if_splits)
  moreover have X: "key_X p = key_X q"
    using arg_cong [OF ser(2), of SetBytes] p(1) q(1) by (simp add: SetBytes_big_Bytes)
  ultimately have "key_Y p = key_Y q" using assms(1) p q by (auto simp: curve_ok_def)
  with X show ?thesis by (cases p; cases q) simp
qed

lemma parse_der_bytes:
  assumes "low_sig sig"
  shows "ParseDERSignature (der_bytes (sig_R sig) (sig_S sig)) = Inr sig"
proof -
  have r: "0 \<le> sig_R sig" "sig_R sig < 2 ^ 256" "0 \<le> sig_S sig" "sig_S sig < 2 ^ 256"
    using assms curve_N_bound by (auto simp: low_sig_def sig_in_range_def)
  note can = canonicalizeInt_canonical [OF r(1)] canonicalizeInt_canonical [OF r(3)]
  show ?thesis
    using parseSig_frame [OF can(1) can(3), of "[]" sig] canonicalizeInt_length [OF r(1,2)]
      canonicalizeInt_length [OF r(3,4)] can(2,4) assms
    by (simp add: der_bytes_def Let_def low_sig_def)
qed

lemma low_sig_unique:
  assumes "low_sig a" "low_sig b" "Signature_Serialize a = Signature_Serialize b"
  shows "a = b"
proof -
  have "der_bytes (sig_R a) (sig_S a) = der_bytes (sig_R b) (sig_S b)"
    using assms Serialize_der [of a] Serialize_der [of b] by (auto simp only: low_sig_def)
  then have "(Inr a :: ec_error + Signature) = Inr b"
    using parse_der_bytes [OF assms(1)] parse_der_bytes [OF assms(2)] by (simp only:)
  then show ?thesis by simp
qed

text \<open>A signature that passed the encoding check parses without a panic, to one with a low S.\<close>

lemma checked_signature:
  assumes "checkSignatureEncoding b = Inr ()"
  shows "ParseDERSignature b \<noteq> Inl EcPanic" "ParseDERSignature b = Inr sig \<Longrightarrow> low_sig sig"
proof -
  from assms obtain rb sb where b: "b = 0x30 # word_of_nat (length (int_frames rb sb)) # int_frames rb sb"
    and can: "canonical_int rb" "canonical_int sb" "length rb + length sb \<le> 66"
    by (rule checkSignatureEncoding_inv)
  have "unat (b ! 1 + 2) = length b"
  proof -
    have "b ! 1 + 2 = word_of_nat (length b)" by (simp add: b)
    moreover have "length b < 256" using can(3) by (simp add: b)
    ultimately show ?thesis using unat_byte_length [of "length b"] by (simp only:)
  qed
  moreover have "8 \<le> length b"
    using canonical_nonempty [OF can(1)] canonical_nonempty [OF can(2)]
    unfolding b list.size length_int_frames by linarith
  moreover have "b ! 0 = 0x30" by (simp add: b)
  ultimately have "ParseDERSignature b = parse_ints True b" "8 \<le> length b"
    by (simp_all only: ParseDERSignature_def parseSig_def Let_def not_less [symmetric] if_False
        less_irrefl take_all order_refl simp_thms)
  then show "ParseDERSignature b \<noteq> Inl EcPanic" by (auto simp: parse_ints_panic)
  show "low_sig sig" if "ParseDERSignature b = Inr sig"
    using that parseSig_frame [OF can(1,2), of "[]" sig] can checkSignatureEncoding_frame [OF can] assms
    by (simp add: b low_sig_def)
qed


lemma set_update: "set (AList.update k v al) \<subseteq> insert (k, v) (set al)"
  by (induction al) auto

lemma Add_cache:
  assumes "list_all (entry_ok E) (validSigs c)" "entry_ok E (h, \<lparr>entry_sig = sig, entry_pubKey = p\<rparr>)"
  shows "list_all (entry_ok E) (validSigs (Add pick c h sig p))"
proof -
  have "list_all (entry_ok E) (AList.update h \<lparr>entry_sig = sig, entry_pubKey = p\<rparr> l)"
    if "list_all (entry_ok E) l" for l
    using that assms(2) set_update [of h "\<lparr>entry_sig = sig, entry_pubKey = p\<rparr>" l]
    by (auto simp: list_all_iff)
  moreover have "list_all (entry_ok E) (take i l @ drop j l)" if "list_all (entry_ok E) l" for i j l
    using that by (auto simp: list_all_iff dest: in_set_takeD in_set_dropD)
  ultimately show ?thesis using assms(1) by (auto simp: Add_def Let_def)
qed

lemma copy_hash: "length h = HashSize \<Longrightarrow> copy_array HashSize h = h"
  by (simp add: copy_array_def)

lemma Exists_verified:
  assumes "curve_ok E" "list_all (entry_ok E) (validSigs c)" "Exists c h sig p" "low_sig sig"
    and "ParsePubKey (IsOnCurve E) b = Inr p"
  shows "Signature_Verify E sig h p"
proof -
  obtain e where e: "map_of (validSigs c) h = Some e"
      "SerializeCompressed (entry_pubKey e) = SerializeCompressed p"
      "Signature_Serialize (entry_sig e) = Signature_Serialize sig"
    using assms(3) by (auto simp: Exists_def split: option.splits)
  have "entry_ok E (h, e)" using assms(2) map_of_SomeD [OF e(1)] by (simp add: list_all_iff)
  then obtain b' where ok: "Signature_Verify E (entry_sig e) h (entry_pubKey e)" "low_sig (entry_sig e)"
      "ParsePubKey (IsOnCurve E) b' = Inr (entry_pubKey e)"
    by (auto simp: entry_ok_def)
  have "entry_pubKey e = p" by (rule compressed_key_unique [OF assms(1) ok(3) assms(5) e(2)])
  moreover have "entry_sig e = sig" by (rule low_sig_unique [OF ok(2) assms(4) e(3)])
  ultimately show ?thesis using ok(1) by simp
qed

text \<open>What a verification leaves in the cache, and that the cache does not change its outcome.\<close>

definition cache_after :: "env \<Rightarrow> hash \<Rightarrow> Signature \<Rightarrow> PublicKey \<Rightarrow> Engine \<Rightarrow> SigCache option" where
  "cache_after E h sig p vm = sigCache (snd (verify_cached E h sig p vm))"

lemma verify_cached_shape:
  "verify_cached E h sig p vm =
    (fst (verify_cached E h sig p vm), vm\<lparr>sigCache := cache_after E h sig p vm\<rparr>)"
proof (cases "sigCache vm")
  case None
  then have "vm\<lparr>sigCache := None\<rparr> = vm" by simp
  with None show ?thesis by (simp add: verify_cached_def cache_after_def)
next
  case (Some c)
  then have "vm\<lparr>sigCache := Some c\<rparr> = vm" by simp
  with Some show ?thesis by (simp add: verify_cached_def cache_after_def Let_def)
qed

lemma verify_cached_eq:
  assumes "curve_ok E" "cache_ok E (sigCache vm)" "length h = HashSize" "low_sig sig"
    and "ParsePubKey (IsOnCurve E) b = Inr p"
  shows "fst (verify_cached E h sig p vm) = Signature_Verify E sig h p"
    and "cache_ok E (cache_after E h sig p vm)"
proof -
  have "fst (verify_cached E h sig p vm) = Signature_Verify E sig h p \<and>
      cache_ok E (cache_after E h sig p vm)"
  proof (cases "sigCache vm")
    case None
    then show ?thesis by (simp add: verify_cached_def cache_after_def cache_ok_def)
  next
    case (Some c)
    with assms(2) have c: "list_all (entry_ok E) (validSigs c)" by (simp add: cache_ok_def)
    have "entry_ok E (h, \<lparr>entry_sig = sig, entry_pubKey = p\<rparr>)" if "Signature_Verify E sig h p"
      using that assms(4,5) by (auto simp: entry_ok_def)
    then have "cache_ok E (Some (Add pick c h sig p))" if "Signature_Verify E sig h p" for pick
      using that Add_cache [OF c] by (simp add: cache_ok_def)
    then show ?thesis
      using Some Exists_verified [OF assms(1) c _ assms(4,5)] assms(2,3)
      by (auto simp: verify_cached_def Let_def copy_hash cache_after_def)
  qed
  then show "fst (verify_cached E h sig p vm) = Signature_Verify E sig h p"
    "cache_ok E (cache_after E h sig p vm)" by simp_all
qed

lemma verify_cached_none: "sigCache vm = None \<Longrightarrow> verify_cached E h sig p vm = (Signature_Verify E sig h p, vm)"
  by (simp add: verify_cached_def)

text \<open>The transaction hash is always computed, and only remembered.\<close>

lemma prefix_hash_shape:
  obtains p t where "sig_prefix_hash E ht vm = Inr (p, vm\<lparr>vm_tx := (vm_tx vm)\<lparr>CachedHash := t\<rparr>\<rparr>)"
    "sig_prefix_hash E ht (strip vm) = Inr (p, strip (vm\<lparr>vm_tx := (vm_tx vm)\<lparr>CachedHash := t\<rparr>\<rparr>))"
proof (cases "ht AND sigHashMask = SigHashAll \<and> optimizeSigVerification E")
  case True
  show thesis
  proof (cases "CachedHash (vm_tx vm)")
    case None
    with True that show thesis by (simp add: sig_prefix_hash_def CachedTxHash_def TxHash_eq)
  next
    case (Some h)
    then have "vm\<lparr>vm_tx := (vm_tx vm)\<lparr>CachedHash := Some h\<rparr>\<rparr> = vm" by simp
    with True Some show thesis
      by (intro that [of "Some h" "Some h"]) (simp_all add: sig_prefix_hash_def CachedTxHash_def)
  qed
next
  case False
  then show thesis
    by (intro that [of None "CachedHash (vm_tx vm)"]) (auto simp: sig_prefix_hash_def)
qed

lemma core_tx [simp]:
  "vm_core (vm\<lparr>vm_tx := (vm_tx vm)\<lparr>CachedHash := t\<rparr>\<rparr>) = vm_core vm"
  "same_frame vm (vm\<lparr>vm_tx := (vm_tx vm)\<lparr>CachedHash := t\<rparr>\<rparr>)"
  by (simp_all add: vm_core_def same_frame_def typed_ins_def)

lemma core_cache [simp]: "vm_core (vm\<lparr>sigCache := c\<rparr>) = vm_core vm"
  by (simp add: vm_core_def)

lemma calc_total:
  assumes "vm_core vm"
  obtains "calcSignatureHash opt H ops ht (vm_tx vm) (txIdx vm) p = Inl (ApiErr ErrInvalidSigHashSingleIndex)"
  | b where "calcSignatureHash opt H ops ht (vm_tx vm) (txIdx vm) p = Inr (H b)"
proof (cases "ht AND sigHashMask = SigHashSingle \<and> txIdx vm \<ge> int (length (tx_TxOut (vm_tx vm)))")
  case True
  with that(1) show thesis by (simp add: calcSignatureHash_def)
next
  case False
  have "typed_ins (vm_tx vm)" "0 \<le> txIdx vm" "txIdx vm < int (length (tx_TxIn (vm_tx vm)))"
    using assms by (simp_all add: vm_core_def)
  note eq = calcSignatureHash_eq [OF this False, of opt H ops p]
  obtain ins k where "committed_ins ht (vm_tx vm) (txIdx vm) = (ins, k)" by fastforce
  with eq show thesis by (auto simp: Let_def intro: that(2))
qed


section \<open>Handlers of signatures\<close>

text \<open>A caller that turns every error but a panic into an outcome.\<close>

lemma script_case:
  "(case m of Inl IndexPanic \<Rightarrow> Inl IndexPanic | Inl _ \<Rightarrow> r | Inr h \<Rightarrow> f h) =
    (if m = Inl IndexPanic then Inl IndexPanic else case m of Inl _ \<Rightarrow> r | Inr h \<Rightarrow> f h)"
  by (auto split: sum.split script_error.split)

lemma ec_case:
  "(case m of Inl EcPanic \<Rightarrow> p | Inl _ \<Rightarrow> r | Inr h \<Rightarrow> f h) =
    (if m = Inl EcPanic then p else case m of Inl _ \<Rightarrow> r | Inr h \<Rightarrow> f h)"
  by (auto split: sum.split ec_error.split)

lemma handled_bind:
  "m \<noteq> Inl IndexPanic \<Longrightarrow> (\<And>a. m = Inr a \<Longrightarrow> handled (f a)) \<Longrightarrow> handled (bindE m f)"
  by (cases m) auto

lemma sim_bind_same:
  "(\<And>a. m = Inr a \<Longrightarrow> sim_result E (f a) (g a)) \<Longrightarrow> sim_result E (bindE m f) (bindE m g)"
  by (cases m) auto

lemma handled_push [simp]: "handled (push_bool b vm) \<longleftrightarrow> vm_core vm"
  by (simp add: push_bool_def vm_core_def)

lemma sim_push: "cache_ok E (sigCache vm) \<Longrightarrow> sim_result E (push_bool b vm) (push_bool b (strip vm))"
  by (simp add: push_bool_def sim_result_def)

lemma frame_push [simp]: "push_bool b vm = Inr vm' \<Longrightarrow> same_frame v vm' = same_frame v vm"
  by (auto simp: push_bool_def)

lemma encoding_no_panic [simp]:
  "checkHashTypeEncoding t \<noteq> Inl IndexPanic" "checkSignatureEncoding s \<noteq> Inl IndexPanic"
  "checkPubKeyEncoding k \<noteq> Inl IndexPanic"
  by (simp_all add: checkHashTypeEncoding_def checkSignatureEncoding_def checkPubKeyEncoding_def Let_def)

lemma subScript_ok: "vm_core vm \<Longrightarrow> subScript vm = Inr (scripts vm ! scriptIdx vm)"
  by (simp add: subScript_def sub_slice_def vm_core_def)

lemma check_sig_frame:
  assumes "check_sig E pk s vm = Inr vm'"
  shows "same_frame vm vm'"
proof -
  obtain p t where p: "sig_prefix_hash E (s ! (length s - 1)) vm =
      Inr (p, vm\<lparr>vm_tx := (vm_tx vm)\<lparr>CachedHash := t\<rparr>\<rparr>)"
    by (rule prefix_hash_shape)
  have "same_frame vm v" if "verify_cached E h sig key (vm\<lparr>vm_tx := (vm_tx vm)\<lparr>CachedHash := t\<rparr>\<rparr>) = (b, v)"
    for h sig key b v
    using that verify_cached_shape [of E h sig key "vm\<lparr>vm_tx := (vm_tx vm)\<lparr>CachedHash := t\<rparr>\<rparr>"] by auto
  then show ?thesis
    using assms unfolding check_sig_def Let_def script_case ec_case
    by (auto simp: bindE_eq_Inr_iff p [simplified] split: if_splits sum.splits prod.splits)
qed

text \<open>The part of \<open>check_sig\<close> that follows the checks, and what precedes it.\<close>

definition sig_outcome ::
  "env \<Rightarrow> parsedOpcode list \<Rightarrow> SigHashType \<Rightarrow> byte list \<Rightarrow> byte list \<Rightarrow> hash option \<times> Engine \<Rightarrow>
   script_error + Engine" where
  "sig_outcome E sub ht pk sigBytes = (\<lambda>(p, vm).
     let m = calcSignatureHash (SigHashOptimization E) (HashB E) sub ht (vm_tx vm) (txIdx vm) p in
     if m = Inl IndexPanic then Inl IndexPanic
     else case m of Inl _ \<Rightarrow> push_bool False vm | Inr h \<Rightarrow>
       if ParsePubKey (IsOnCurve E) pk = Inl EcPanic then Inl IndexPanic
       else case ParsePubKey (IsOnCurve E) pk of Inl _ \<Rightarrow> push_bool False vm | Inr key \<Rightarrow>
         if ParseDERSignature sigBytes = Inl EcPanic then Inl IndexPanic
         else case ParseDERSignature sigBytes of Inl _ \<Rightarrow> push_bool False vm | Inr sig \<Rightarrow>
           let (valid, vm) = verify_cached E h sig key vm in push_bool valid vm)"

definition sig_checks ::
  "env \<Rightarrow> SigHashType \<Rightarrow> byte list \<Rightarrow> byte list \<Rightarrow> byte list \<Rightarrow> Engine \<Rightarrow> script_error + Engine" where
  "sig_checks E ht pk sigBytes full vm =
     bindE (checkHashTypeEncoding ht) (\<lambda>_.
     bindE (checkSignatureEncoding sigBytes) (\<lambda>_.
     bindE (checkPubKeyEncoding pk) (\<lambda>_.
     bindE (subScript vm) (\<lambda>sub.
     bindE (sig_prefix_hash E ht vm) (sig_outcome E (removeOpcodeByData sub full) ht pk sigBytes)))))"

lemma check_sig_eq:
  "check_sig E pk s vm = (if length s < 1 then push_bool False vm
    else sig_checks E (s ! (length s - 1)) pk (take (length s - 1) s) s vm)"
  unfolding check_sig_def sig_checks_def sig_outcome_def Let_def script_case ec_case ..

lemma sig_outcome_handled:
  assumes "vm_core vm" "checkSignatureEncoding sb = Inr ()"
  shows "handled (sig_outcome E sub ht pk sb (p, vm))"
proof -
  have "calcSignatureHash opt H sub ht (vm_tx vm) (txIdx vm) p \<noteq> Inl IndexPanic" for opt H
    by (rule calc_total [OF assms(1), where opt = opt and H = H and ops = sub and ht = ht and p = p])
      simp_all
  moreover have "vm_core (snd (verify_cached E h sig key vm))" for h sig key
    by (subst verify_cached_shape) (simp add: assms(1))
  ultimately show ?thesis
    using assms(1) checked_signature(1) [OF assms(2)] ParsePubKey_no_panic [of "IsOnCurve E" pk]
    unfolding sig_outcome_def Let_def by (simp add: case_prod_beta split: sum.split)
qed

lemma sig_outcome_sim:
  assumes "env_ok E" "curve_ok E" "vm_core vm" "cache_ok E (sigCache vm)" "checkSignatureEncoding sb = Inr ()"
  shows "sim_result E (sig_outcome E sub ht pk sb (p, vm)) (sig_outcome E sub ht pk sb (p, strip vm))"
proof -
  have verify: "sim_result E
      (let (valid, vm) = verify_cached E (HashB E b) sig key vm in push_bool valid vm)
      (let (valid, vm) = verify_cached E (HashB E b) sig key (strip vm) in push_bool valid vm)"
    if "ParseDERSignature sb = Inr sig" "ParsePubKey (IsOnCurve E) pk = Inr key" for b sig key
  proof -
    have "length (HashB E b) = HashSize" using assms(1) by (simp add: env_ok_def)
    from verify_cached_eq [OF assms(2,4) this checked_signature(2) [OF assms(5) that(1)] that(2)]
    show ?thesis
      by (subst verify_cached_shape)
        (simp add: verify_cached_none sim_push [of E "vm\<lparr>sigCache := c\<rparr>" for c, simplified])
  qed
  show ?thesis
  proof (rule calc_total [OF assms(3), where opt = "SigHashOptimization E" and H = "HashB E"
        and ops = sub and ht = ht and p = p])
    fix b
    assume h: "calcSignatureHash (SigHashOptimization E) (HashB E) sub ht (vm_tx vm) (txIdx vm) p =
      Inr (HashB E b)"
    show ?thesis
    proof (cases "ParsePubKey (IsOnCurve E) pk")
      case (Inr key)
      then show ?thesis
        using verify [OF _ Inr] h checked_signature(1) [OF assms(5)]
        by (cases "ParseDERSignature sb") (auto simp: sig_outcome_def sim_push [OF assms(4)])
    qed (use h sim_push [OF assms(4)] in \<open>auto simp: sig_outcome_def\<close>)
  qed (use sim_push [OF assms(4)] in \<open>simp add: sig_outcome_def\<close>)
qed

lemma check_sig_handled:
  assumes "vm_core vm"
  shows "handled (check_sig E pk s vm)"
proof -
  have "handled (sig_checks E ht pk sb full vm)" for ht sb full
  proof -
    obtain p t where "sig_prefix_hash E ht vm = Inr (p, vm\<lparr>vm_tx := (vm_tx vm)\<lparr>CachedHash := t\<rparr>\<rparr>)"
      by (rule prefix_hash_shape)
    then show ?thesis
      unfolding sig_checks_def using assms
      by (auto intro!: handled_bind sig_outcome_handled simp: subScript_ok)
  qed
  with assms show ?thesis by (simp add: check_sig_eq)
qed

lemma check_sig_sim:
  assumes "env_ok E" "curve_ok E" "vm_core vm" "cache_ok E (sigCache vm)"
  shows "sim_result E (check_sig E pk s vm) (check_sig E pk s (strip vm))"
proof -
  have "sim_result E (sig_checks E ht pk sb full vm) (sig_checks E ht pk sb full (strip vm))" for ht sb full
  proof -
    obtain p t where "sig_prefix_hash E ht vm = Inr (p, vm\<lparr>vm_tx := (vm_tx vm)\<lparr>CachedHash := t\<rparr>\<rparr>)"
      "sig_prefix_hash E ht (strip vm) = Inr (p, strip (vm\<lparr>vm_tx := (vm_tx vm)\<lparr>CachedHash := t\<rparr>\<rparr>))"
      by (rule prefix_hash_shape)
    then show ?thesis
      unfolding sig_checks_def using assms
      by (auto intro!: sim_bind_same sig_outcome_sim simp: subScript_ok)
  qed
  with assms show ?thesis by (simp add: check_sig_eq sim_push)
qed


lemma core_dstack: "vm_core (vm\<lparr>dstack := s\<rparr>) \<longleftrightarrow> vm_core vm \<and> items_ok s" if "vm_core vm"
  using that by (auto simp: vm_core_def)

lemma core_items: "vm_core vm \<Longrightarrow> items_ok (dstack vm)"
  by (simp add: vm_core_def)

text \<open>Popping an item before going on.\<close>

lemma handled_pop:
  assumes "items_ok s" "\<And>x t. items_ok t \<Longrightarrow> handled (f (x, t))"
  shows "handled (bindE (PopByteArray s) f)"
  using assms by (cases s rule: rev_cases) simp_all

lemma handled_pop_int:
  assumes "items_ok s" "\<And>n t. items_ok t \<Longrightarrow> handled (f (n, t))"
  shows "handled (bindE (PopInt k s) f)"
  using assms makeScriptNum_no_panic
  by (cases s rule: rev_cases) (auto simp: PopInt_def bindE_assoc intro!: handled_bind)

lemma checkSig_handler: "script_handler E (opcodeCheckSig E)"
proof
  fix op and vm vm' :: Engine
  assume "opcodeCheckSig E op vm = Inr vm'"
  then show "same_frame vm vm'"
    using check_sig_frame by (fastforce simp: opcodeCheckSig_def bindE_eq_Inr_iff)
next
  fix op and vm :: Engine
  assume vm: "vm_core vm"
  show "handled (opcodeCheckSig E op vm)"
    unfolding opcodeCheckSig_def
    using vm by (auto intro!: handled_pop check_sig_handled simp: core_items core_dstack)
next
  fix op and vm :: Engine
  assume "env_ok E" "curve_ok E" "vm_core vm" "cache_ok E (sigCache vm)"
  then show "sim_result E (opcodeCheckSig E op vm) (opcodeCheckSig E op (strip vm))"
    unfolding opcodeCheckSig_def
    by (cases "dstack vm" rule: rev_cases; cases "butlast (dstack vm)" rule: rev_cases)
      (auto intro!: sim_bind_same check_sig_sim simp: core_dstack PopByteArray_iff vm_core_def)
qed

lemma checkSigVerify_handler: "script_handler E (opcodeCheckSigVerify E)"
  by (rule verifyI [OF opcodeCheckSigVerify_def checkSig_handler])

text \<open>The alternative signature types do not use the cache.\<close>

definition alt_outcome ::
  "env \<Rightarrow> int \<Rightarrow> byte list \<Rightarrow> byte list \<Rightarrow> hash \<Rightarrow> bool" where
  "alt_outcome E sigType pkBytes sigBytes h =
     (if sigType = STEd25519 then
        (case edwards_ParsePubKey E pkBytes of None \<Rightarrow> False | Some key \<Rightarrow>
          (case edwards_ParseSignature E sigBytes of None \<Rightarrow> False
           | Some sig \<Rightarrow> edwards_Verify E key h (sig_R sig) (sig_S sig)))
      else if sigType = STSchnorrSecp256k1 then
        (case schnorr_ParsePubKey E pkBytes of None \<Rightarrow> False | Some key \<Rightarrow>
          (case schnorr_ParseSignature E sigBytes of None \<Rightarrow> False
           | Some sig \<Rightarrow> schnorr_Verify E key h (sig_R sig) (sig_S sig)))
      else False)"

definition alt_tail ::
  "env \<Rightarrow> parsedOpcode list \<Rightarrow> SigHashType \<Rightarrow> (hash \<Rightarrow> bool) \<Rightarrow> hash option \<times> Engine \<Rightarrow>
   script_error + Engine" where
  "alt_tail E sub ht f = (\<lambda>(p, vm).
     let m = calcSignatureHash (SigHashOptimization E) (HashB E) sub ht (vm_tx vm) (txIdx vm) p in
     if m = Inl IndexPanic then Inl IndexPanic
     else push_bool (case m of Inl _ \<Rightarrow> False | Inr h \<Rightarrow> f h) vm)"

definition alt_checks ::
  "env \<Rightarrow> SigHashType \<Rightarrow> (hash \<Rightarrow> bool) \<Rightarrow> byte list \<Rightarrow> Engine \<Rightarrow> script_error + Engine" where
  "alt_checks E ht f full vm =
     bindE (checkHashTypeEncoding ht) (\<lambda>_.
     bindE (subScript vm) (\<lambda>sub.
     bindE (sig_prefix_hash E ht vm) (alt_tail E (removeOpcodeByData sub full) ht f)))"

lemma check_sig_alt_eq:
  "check_sig_alt E st pk full vm =
    alt_checks E (full ! (length full - 1)) (alt_outcome E st pk (take (length full - 1) full)) full vm"
  unfolding check_sig_alt_def alt_checks_def alt_tail_def Let_def script_case alt_outcome_def
  by (intro bindE_cong refl) (auto split: sum.split option.split)

lemma check_sig_alt_frame:
  assumes "check_sig_alt E st pk full vm = Inr vm'"
  shows "same_frame vm vm'"
proof -
  have "same_frame vm vm'" if "alt_checks E ht f full vm = Inr vm'" for ht f
  proof -
    obtain p t where "sig_prefix_hash E ht vm = Inr (p, vm\<lparr>vm_tx := (vm_tx vm)\<lparr>CachedHash := t\<rparr>\<rparr>)"
      by (rule prefix_hash_shape)
    with that show ?thesis
      by (auto simp: alt_checks_def alt_tail_def Let_def bindE_eq_Inr_iff split: if_splits)
  qed
  with assms show ?thesis by (simp add: check_sig_alt_eq)
qed

lemma alt_tail_handled:
  assumes "vm_core vm"
  shows "handled (alt_tail E sub ht f (p, vm))"
proof -
  have "calcSignatureHash opt H ops ht (vm_tx vm) (txIdx vm) q \<noteq> Inl IndexPanic" for opt H ops ht q
    by (rule calc_total [OF assms, where opt = opt and H = H and ops = ops and ht = ht and p = q]) simp_all
  with assms show ?thesis by (simp add: alt_tail_def)
qed

lemma check_sig_alt_handled:
  assumes "vm_core vm"
  shows "handled (check_sig_alt E st pk full vm)"
proof -
  have "handled (alt_checks E ht f full vm)" for ht f
  proof -
    obtain p t where "sig_prefix_hash E ht vm = Inr (p, vm\<lparr>vm_tx := (vm_tx vm)\<lparr>CachedHash := t\<rparr>\<rparr>)"
      by (rule prefix_hash_shape)
    then show ?thesis
      unfolding alt_checks_def using assms
      by (auto intro!: handled_bind alt_tail_handled simp: subScript_ok)
  qed
  then show ?thesis by (simp add: check_sig_alt_eq)
qed

lemma check_sig_alt_sim:
  assumes "cache_ok E (sigCache vm)"
  shows "sim_result E (check_sig_alt E st pk full vm) (check_sig_alt E st pk full (strip vm))"
proof -
  have "sim_result E (alt_checks E ht f full vm) (alt_checks E ht f full (strip vm))" for ht f
  proof -
    obtain p t where "sig_prefix_hash E ht vm = Inr (p, vm\<lparr>vm_tx := (vm_tx vm)\<lparr>CachedHash := t\<rparr>\<rparr>)"
      "sig_prefix_hash E ht (strip vm) = Inr (p, strip (vm\<lparr>vm_tx := (vm_tx vm)\<lparr>CachedHash := t\<rparr>\<rparr>))"
      by (rule prefix_hash_shape)
    then show ?thesis
      unfolding alt_checks_def using assms
      by (auto intro!: sim_bind_same simp: alt_tail_def Let_def sim_push)
  qed
  then show ?thesis by (simp add: check_sig_alt_eq)
qed

text \<open>Rules for the three parts of the contract, for handlers that pop items one by one.\<close>

definition framed :: "Engine \<Rightarrow> script_error + Engine \<Rightarrow> bool" where
  "framed vm r \<longleftrightarrow> (\<forall>vm'. r = Inr vm' \<longrightarrow> same_frame vm vm')"

lemma framed_bind: "(\<And>a. m = Inr a \<Longrightarrow> framed vm (f a)) \<Longrightarrow> framed vm (bindE m f)"
  by (auto simp: framed_def bindE_eq_Inr_iff)

lemma framed_bind_pair: "(\<And>a b. m = Inr (a, b) \<Longrightarrow> framed vm (f a b)) \<Longrightarrow> framed vm (bindE m (\<lambda>(a, b). f a b))"
  by (auto simp: framed_def bindE_eq_Inr_iff)

lemma framed_if: "framed vm r \<Longrightarrow> framed vm r' \<Longrightarrow> framed vm (if b then r else r')"
  by simp

lemma framed_error: "framed vm (Inl e)"
  by (simp add: framed_def)

lemma framed_push: "same_frame vm v \<Longrightarrow> framed vm (push_bool b v)"
  by (simp add: framed_def push_bool_def)

lemma framed_alt: "framed vm (check_sig_alt E st pk full (vm\<lparr>dstack := s\<rparr>))"
  using check_sig_alt_frame by (fastforce simp: framed_def)

lemma handled_if: "handled r \<Longrightarrow> handled r' \<Longrightarrow> handled (if b then r else r')"
  by simp

lemma handled_pop_pair:
  "items_ok s \<Longrightarrow> (\<And>x t. items_ok t \<Longrightarrow> handled (f x t)) \<Longrightarrow>
    handled (bindE (PopByteArray s) (\<lambda>(x, t). f x t))"
  using handled_pop [of s "\<lambda>(x, t). f x t"] by simp

lemma handled_int_pair:
  "items_ok s \<Longrightarrow> (\<And>n t. items_ok t \<Longrightarrow> handled (f n t)) \<Longrightarrow>
    handled (bindE (PopInt k s) (\<lambda>(n, t). f n t))"
  using handled_pop_int [of s "\<lambda>(n, t). f n t"] by simp

lemma sim_if:
  "(b \<Longrightarrow> sim_result E r s) \<Longrightarrow> (\<not> b \<Longrightarrow> sim_result E r' s') \<Longrightarrow>
    sim_result E (if b then r else r') (if b then s else s')"
  by simp

lemma sim_pop_pair:
  "(\<And>a b. m = Inr (a, b) \<Longrightarrow> sim_result E (f a b) (g a b)) \<Longrightarrow>
    sim_result E (bindE m (\<lambda>(a, b). f a b)) (bindE m (\<lambda>(a, b). g a b))"
  by (cases m) auto

lemma checkSigAlt_handler: "script_handler E (opcodeCheckSigAlt E)"
proof
  fix op and vm vm' :: Engine
  have "framed vm (opcodeCheckSigAlt E op vm)"
    unfolding opcodeCheckSigAlt_def
    by (intro framed_bind_pair framed_if framed_push framed_alt) simp_all
  moreover assume "opcodeCheckSigAlt E op vm = Inr vm'"
  ultimately show "same_frame vm vm'" by (simp add: framed_def)
next
  fix op and vm :: Engine
  assume vm: "vm_core vm"
  show "handled (opcodeCheckSigAlt E op vm)"
    unfolding opcodeCheckSigAlt_def
    by (intro handled_pop_pair handled_int_pair handled_if check_sig_alt_handled) (simp_all add: core_items core_dstack vm)
next
  fix op and vm :: Engine
  assume c: "cache_ok E (sigCache vm)"
  show "sim_result E (opcodeCheckSigAlt E op vm) (opcodeCheckSigAlt E op (strip vm))"
    unfolding opcodeCheckSigAlt_def strip_simps strip_update
    by (intro sim_pop_pair sim_if sim_push check_sig_alt_sim) (simp_all add: c)
qed

lemma checkSigAltVerify_handler: "script_handler E (opcodeCheckSigAltVerify E)"
  by (rule verifyI [where c = ErrVerify, OF _ checkSigAlt_handler])
    (simp add: opcodeCheckSigAltVerify_def opcodeVerify_def [abs_def])


subsection \<open>Several signatures\<close>

text \<open>The loop of \<open>opcodeCheckMultiSig\<close> with the push that follows it.\<close>

definition multisig_push ::
  "env \<Rightarrow> parsedOpcode list \<Rightarrow> byte list list \<Rightarrow> Signature option option \<Rightarrow> byte list list \<Rightarrow> Engine \<Rightarrow>
   script_error + Engine" where
  "multisig_push E script sigs parsed pubKeys vm =
     bindE (multisig_loop E script sigs parsed pubKeys vm) (\<lambda>(success, vm). push_bool success vm)"

definition parse_next :: "byte list \<Rightarrow> Signature option option \<Rightarrow> script_error + Signature option" where
  "parse_next rawSig parsed =
     (case parsed of
        Some p \<Rightarrow> Inr p
      | None \<Rightarrow>
          bindE (checkHashTypeEncoding (rawSig ! (length rawSig - 1))) (\<lambda>_.
          bindE (checkSignatureEncoding (take (length rawSig - 1) rawSig)) (\<lambda>_.
          case ParseDERSignature (take (length rawSig - 1) rawSig) of
            Inl EcPanic \<Rightarrow> Inl IndexPanic
          | Inl _ \<Rightarrow> Inr None
          | Inr p \<Rightarrow> Inr (Some p))))"

definition try_key ::
  "env \<Rightarrow> parsedOpcode list \<Rightarrow> SigHashType \<Rightarrow> Signature \<Rightarrow> PublicKey \<Rightarrow>
   (bool \<Rightarrow> Engine \<Rightarrow> script_error + Engine) \<Rightarrow> Engine \<Rightarrow> script_error + Engine" where
  "try_key E script ht sig key k vm =
     bindE (sig_prefix_hash E ht vm) (\<lambda>(p, vm).
     bindE (calcSignatureHash (SigHashOptimization E) (HashB E) script ht (vm_tx vm) (txIdx vm) p) (\<lambda>h.
     let (valid, vm) = verify_cached E h sig key vm in k valid vm))"

lemma multisig_push_simps [simp]:
  "multisig_push E script [] parsed keys vm = push_bool True vm"
  "multisig_push E script (raw # sigs) parsed [] vm = push_bool False vm"
  by (simp_all add: multisig_push_def)

lemma multisig_loop_Cons:
  "multisig_loop E script (raw # sigs) parsed (key # keys) vm =
     (if length (raw # sigs) > length (key # keys) then Inr (False, vm)
      else if length raw = 0 then multisig_loop E script (raw # sigs) parsed keys vm
      else bindE (parse_next raw parsed) (\<lambda>q. case q of
          None \<Rightarrow> multisig_loop E script (raw # sigs) (Some None) keys vm
        | Some sig \<Rightarrow> bindE (checkPubKeyEncoding key) (\<lambda>_. case ParsePubKey (IsOnCurve E) key of
            Inl e \<Rightarrow> multisig_loop E script (raw # sigs) (Some (Some sig)) keys vm
          | Inr pk \<Rightarrow> bindE (sig_prefix_hash E (raw ! (length raw - 1)) vm) (\<lambda>(p, vm).
              bindE (calcSignatureHash (SigHashOptimization E) (HashB E) script (raw ! (length raw - 1))
                (vm_tx vm) (txIdx vm) p) (\<lambda>h.
              let (valid, vm) = verify_cached E h sig pk vm in
              if valid then multisig_loop E script sigs None keys vm
              else multisig_loop E script (raw # sigs) (Some (Some sig)) keys vm)))))"
  by (simp only: multisig_loop.simps Let_def parse_next_def ec_case ParsePubKey_no_panic if_False)

lemma multisig_push_Cons:
  "multisig_push E script (raw # sigs) parsed (key # keys) vm =
     (if length (raw # sigs) > length (key # keys) then push_bool False vm
      else if length raw = 0 then multisig_push E script (raw # sigs) parsed keys vm
      else bindE (parse_next raw parsed) (\<lambda>q. case q of
          None \<Rightarrow> multisig_push E script (raw # sigs) (Some None) keys vm
        | Some sig \<Rightarrow> bindE (checkPubKeyEncoding key) (\<lambda>_. case ParsePubKey (IsOnCurve E) key of
            Inl e \<Rightarrow> multisig_push E script (raw # sigs) (Some (Some sig)) keys vm
          | Inr pk \<Rightarrow> try_key E script (raw ! (length raw - 1)) sig pk (\<lambda>valid.
              if valid then multisig_push E script sigs None keys
              else multisig_push E script (raw # sigs) (Some (Some sig)) keys) vm)))"
proof -
  define loop where "loop = multisig_loop E script"
  define go where "go sig pk = bindE (sig_prefix_hash E (raw ! (length raw - 1)) vm) (\<lambda>(p, vm).
      bindE (calcSignatureHash (SigHashOptimization E) (HashB E) script (raw ! (length raw - 1))
        (vm_tx vm) (txIdx vm) p) (\<lambda>h.
      let (valid, vm) = verify_cached E h sig pk vm in
      if valid then loop sigs None keys vm else loop (raw # sigs) (Some (Some sig)) keys vm))" for sig pk
  have eq: "loop (raw # sigs) parsed (key # keys) vm =
      (if length (raw # sigs) > length (key # keys) then Inr (False, vm)
       else if length raw = 0 then loop (raw # sigs) parsed keys vm
       else bindE (parse_next raw parsed) (\<lambda>q. case q of
           None \<Rightarrow> loop (raw # sigs) (Some None) keys vm
         | Some sig \<Rightarrow> bindE (checkPubKeyEncoding key) (\<lambda>_. case ParsePubKey (IsOnCurve E) key of
             Inl e \<Rightarrow> loop (raw # sigs) (Some (Some sig)) keys vm
           | Inr pk \<Rightarrow> go sig pk)))"
    unfolding loop_def go_def by (rule multisig_loop_Cons)
  have tried: "bindE (go sig pk) (\<lambda>(success, vm). push_bool success vm) =
      try_key E script (raw ! (length raw - 1)) sig pk (\<lambda>valid vm.
        bindE (if valid then loop sigs None keys vm else loop (raw # sigs) (Some (Some sig)) keys vm)
          (\<lambda>(success, vm). push_bool success vm)) vm" for sig pk
    by (auto simp: go_def try_key_def bindE_assoc intro!: bindE_cong split: prod.split)
  show ?thesis
    unfolding multisig_push_def loop_def [symmetric] eq
    by (cases "parse_next raw parsed"; cases "checkPubKeyEncoding key"; cases "ParsePubKey (IsOnCurve E) key")
      (auto simp: tried split: option.split intro!: arg_cong [where f = "\<lambda>k. try_key E script ht sig pk k vm" for ht sig pk])
qed


lemma try_key_framed:
  assumes "\<And>b c t. framed vm (k b (vm\<lparr>vm_tx := (vm_tx vm)\<lparr>CachedHash := t\<rparr>, sigCache := c\<rparr>))"
  shows "framed vm (try_key E script ht sig key k vm)"
proof -
  obtain p t where p: "sig_prefix_hash E ht vm = Inr (p, vm\<lparr>vm_tx := (vm_tx vm)\<lparr>CachedHash := t\<rparr>\<rparr>)"
    by (rule prefix_hash_shape)
  show ?thesis
    unfolding try_key_def p bindE_Inr prod.case
    by (intro framed_bind, subst verify_cached_shape) (simp add: assms)
qed

lemma framed_trans: "same_frame vm v \<Longrightarrow> framed v r \<Longrightarrow> framed vm r"
  by (auto simp: framed_def intro: same_frame_trans)

lemma multisig_push_framed: "framed vm (multisig_push E script sigs parsed keys vm)"
proof (induction keys arbitrary: sigs parsed vm)
  case Nil
  then show ?case by (cases sigs) (auto intro: framed_push)
next
  case (Cons key keys)
  have later: "framed vm (multisig_push E script s q keys (vm\<lparr>vm_tx := (vm_tx vm)\<lparr>CachedHash := t\<rparr>, sigCache := c\<rparr>))"
    for s q t c
    by (rule framed_trans [OF _ Cons.IH]) simp
  show ?case
  proof (cases sigs)
    case (Cons raw rest)
    show ?thesis
      unfolding Cons multisig_push_Cons
      by (intro framed_if framed_bind framed_push same_frame_refl Cons.IH)
        (auto intro!: framed_bind try_key_framed Cons.IH later split: option.split sum.split)
  qed (simp add: framed_push)
qed

lemma try_key_handled:
  assumes "vm_core vm" "\<And>b v. vm_core v \<Longrightarrow> handled (k b v)"
  shows "handled (try_key E script ht sig key k vm)"
proof -
  obtain p t where p: "sig_prefix_hash E ht vm = Inr (p, vm\<lparr>vm_tx := (vm_tx vm)\<lparr>CachedHash := t\<rparr>\<rparr>)"
    by (rule prefix_hash_shape)
  define v where "v = vm\<lparr>vm_tx := (vm_tx vm)\<lparr>CachedHash := t\<rparr>\<rparr>"
  have v: "vm_core v" using assms(1) by (simp add: v_def)
  have "calcSignatureHash opt H ops ht (vm_tx v) (txIdx v) q \<noteq> Inl IndexPanic" for opt H ops ht q
    by (rule calc_total [OF v, where opt = opt and H = H and ops = ops and ht = ht and p = q]) simp_all
  then show ?thesis
    unfolding try_key_def p v_def [symmetric] bindE_Inr prod.case
    by (intro handled_bind, simp, subst verify_cached_shape) (simp add: v assms(2))
qed

lemma parse_next_no_panic: "parse_next raw parsed \<noteq> Inl IndexPanic"
  unfolding parse_next_def ec_case
  by (auto simp: bindE_eq_Inl_iff checked_signature(1) split: option.split sum.split if_split)

lemma multisig_push_handled: "vm_core vm \<Longrightarrow> handled (multisig_push E script sigs parsed keys vm)"
proof (induction keys arbitrary: sigs parsed vm)
  case Nil
  then show ?case by (cases sigs) auto
next
  case (Cons key keys)
  show ?case
  proof (cases sigs)
    case (Cons raw rest)
    with Cons.prems show ?thesis
      unfolding Cons multisig_push_Cons
      by (intro handled_if handled_bind parse_next_no_panic)
        (auto intro!: handled_bind try_key_handled Cons.IH split: option.split sum.split)
  qed (simp add: Cons.prems)
qed


lemma try_key_sim:
  assumes "env_ok E" "curve_ok E" "vm_core vm" "cache_ok E (sigCache vm)" "low_sig sig"
    and "ParsePubKey (IsOnCurve E) b = Inr key"
    and "\<And>b v. vm_core v \<Longrightarrow> cache_ok E (sigCache v) \<Longrightarrow> sim_result E (k b v) (k b (strip v))"
  shows "sim_result E (try_key E script ht sig key k vm) (try_key E script ht sig key k (strip vm))"
proof -
  obtain p t where p: "sig_prefix_hash E ht vm = Inr (p, vm\<lparr>vm_tx := (vm_tx vm)\<lparr>CachedHash := t\<rparr>\<rparr>)"
    "sig_prefix_hash E ht (strip vm) = Inr (p, strip (vm\<lparr>vm_tx := (vm_tx vm)\<lparr>CachedHash := t\<rparr>\<rparr>))"
    by (rule prefix_hash_shape)
  define v where "v = vm\<lparr>vm_tx := (vm_tx vm)\<lparr>CachedHash := t\<rparr>\<rparr>"
  have v: "vm_core v" "cache_ok E (sigCache v)" using assms(3,4) by (simp_all add: v_def)
  show ?thesis
    unfolding try_key_def p v_def [symmetric] bindE_Inr prod.case strip_simps
  proof (rule sim_bind_same)
    fix h
    assume h: "calcSignatureHash (SigHashOptimization E) (HashB E) script ht (vm_tx v) (txIdx v) p = Inr h"
    have "length h = HashSize"
      by (rule calc_total [OF v(1), where opt = "SigHashOptimization E" and H = "HashB E" and ops = script
            and ht = ht and p = p])
        (use h assms(1) in \<open>auto simp: env_ok_def\<close>)
    note eq = verify_cached_eq [OF assms(2) v(2) this assms(5,6)]
    have "sim_result E (k (Signature_Verify E sig h key) (v\<lparr>sigCache := cache_after E h sig key v\<rparr>))
        (k (Signature_Verify E sig h key) (strip v))"
      using assms(7) [of "v\<lparr>sigCache := cache_after E h sig key v\<rparr>"] v(1) eq(2) by simp
    then show "sim_result E (let (valid, vm) = verify_cached E h sig key v in k valid vm)
        (let (valid, vm) = verify_cached E h sig key (strip v) in k valid vm)"
      by (subst verify_cached_shape) (simp add: verify_cached_none eq(1))
  qed
qed

lemma parse_next_low:
  assumes "parse_next raw parsed = Inr (Some sig)" "\<And>s. parsed = Some (Some s) \<Longrightarrow> low_sig s"
  shows "low_sig sig"
  using assms checked_signature(2)
  unfolding parse_next_def ec_case
  by (auto simp: bindE_eq_Inr_iff split: option.splits sum.splits if_splits)

lemma multisig_push_sim:
  assumes "env_ok E" "curve_ok E"
  shows "vm_core vm \<Longrightarrow> cache_ok E (sigCache vm) \<Longrightarrow> (\<And>s. parsed = Some (Some s) \<Longrightarrow> low_sig s) \<Longrightarrow>
    sim_result E (multisig_push E script sigs parsed keys vm)
      (multisig_push E script sigs parsed keys (strip vm))"
proof (induction keys arbitrary: sigs parsed vm)
  case Nil
  then show ?case by (cases sigs) (auto intro: sim_push)
next
  case (Cons key keys)
  note low = parse_next_low [OF _ Cons.prems(3)]
  show ?case
  proof (cases sigs)
    case (Cons raw rest)
    show ?thesis
      unfolding Cons multisig_push_Cons
    proof (intro sim_if sim_bind_same)
      fix q
      assume q: "parse_next raw parsed = Inr q"
      show "sim_result E
          (case q of None \<Rightarrow> multisig_push E script (raw # rest) (Some None) keys vm
           | Some sig \<Rightarrow> bindE (checkPubKeyEncoding key) (\<lambda>_. case ParsePubKey (IsOnCurve E) key of
               Inl e \<Rightarrow> multisig_push E script (raw # rest) (Some (Some sig)) keys vm
             | Inr pk \<Rightarrow> try_key E script (raw ! (length raw - 1)) sig pk (\<lambda>valid.
                 if valid then multisig_push E script rest None keys
                 else multisig_push E script (raw # rest) (Some (Some sig)) keys) vm))
          (case q of None \<Rightarrow> multisig_push E script (raw # rest) (Some None) keys (strip vm)
           | Some sig \<Rightarrow> bindE (checkPubKeyEncoding key) (\<lambda>_. case ParsePubKey (IsOnCurve E) key of
               Inl e \<Rightarrow> multisig_push E script (raw # rest) (Some (Some sig)) keys (strip vm)
             | Inr pk \<Rightarrow> try_key E script (raw ! (length raw - 1)) sig pk (\<lambda>valid.
                 if valid then multisig_push E script rest None keys
                 else multisig_push E script (raw # rest) (Some (Some sig)) keys) (strip vm)))"
        using low [OF q [THEN trans]] Cons.prems
        by (auto intro!: sim_bind_same try_key_sim [OF assms] Cons.IH split: option.split sum.split)
    qed (use Cons.prems in \<open>auto intro: sim_push Cons.IH\<close>)
  qed (simp add: Cons.prems sim_push)
qed

lemma handled_bind_pair:
  "m \<noteq> Inl IndexPanic \<Longrightarrow> (\<And>a b. m = Inr (a, b) \<Longrightarrow> handled (f a b)) \<Longrightarrow>
    handled (bindE m (\<lambda>(a, b). f a b))"
  by (rule handled_bind) auto

lemma PopInt_facts:
  "PopInt k s \<noteq> Inl IndexPanic" "PopInt k s = Inr (n, t) \<Longrightarrow> items_ok s \<Longrightarrow> items_ok t"
  using makeScriptNum_no_panic
  by (cases s rule: rev_cases; auto simp: PopInt_def bindE_eq_Inl_iff bindE_eq_Inr_iff)+

lemma pop_items_no_panic: "pop_items n s \<noteq> Inl IndexPanic"
proof (induction n arbitrary: s)
  case (Suc n)
  then show ?case by (cases s rule: rev_cases) (auto simp: bindE_eq_Inl_iff)
qed simp

lemma pop_items_keeps: "pop_items n s = Inr (xs, t) \<Longrightarrow> items_ok s \<Longrightarrow> items_ok t"
proof (induction n arbitrary: s xs)
  case (Suc n)
  then show ?case by (cases s rule: rev_cases) (auto simp: bindE_eq_Inr_iff)
qed simp

lemma checkMultiSig_handler: "script_handler E (opcodeCheckMultiSig E)"
proof
  fix op and vm vm' :: Engine
  have "framed vm (opcodeCheckMultiSig E op vm)"
    unfolding opcodeCheckMultiSig_def Let_def multisig_push_def [symmetric]
    by (intro framed_bind_pair framed_bind framed_if framed_error framed_trans [OF _ multisig_push_framed]) simp
  moreover assume "opcodeCheckMultiSig E op vm = Inr vm'"
  ultimately show "same_frame vm vm'" by (simp add: framed_def)
next
  fix op and vm :: Engine
  assume vm: "vm_core vm"
  have core: "vm_core (vm\<lparr>numOps := numOps vm + n, dstack := s\<rparr>)"
    if "items_ok s" "\<not> n < 0" "\<not> MaxOpsPerScript < numOps vm + n" for s n
    using vm that by (simp add: vm_core_def)
  show "handled (opcodeCheckMultiSig E op vm)"
    unfolding opcodeCheckMultiSig_def Let_def multisig_push_def [symmetric]
    by (intro handled_bind_pair handled_bind PopInt_facts(1) pop_items_no_panic
        if_split [where P = handled, THEN iffD2] conjI impI multisig_push_handled core)
      (use core_items [OF vm] PopInt_facts(2) pop_items_keeps subScript_ok core in \<open>fastforce+\<close>)
next
  fix op and vm :: Engine
  assume *: "env_ok E" "curve_ok E" "vm_core vm" "cache_ok E (sigCache vm)"
  have core: "vm_core (vm\<lparr>numOps := numOps vm + n, dstack := s\<rparr>)"
    if "items_ok s" "\<not> n < 0" "\<not> MaxOpsPerScript < numOps vm + n" for s n
    using *(3) that by (simp add: vm_core_def)
  show "sim_result E (opcodeCheckMultiSig E op vm) (opcodeCheckMultiSig E op (strip vm))"
    unfolding opcodeCheckMultiSig_def Let_def multisig_push_def [symmetric] strip_simps strip_update
      strip_queries
    by (intro sim_pop_pair sim_bind_same sim_if sim_error multisig_push_sim [OF *(1,2)] core)
      (use core_items [OF *(3)] PopInt_facts(2) pop_items_keeps *(4) in \<open>fastforce+\<close>)
qed


lemma checkMultiSigVerify_handler: "script_handler E (opcodeCheckMultiSigVerify E)"
  by (rule verifyI [OF opcodeCheckMultiSigVerify_def checkMultiSig_handler])

section \<open>The opcode table\<close>

lemmas simple_handlers = data_handlers depth_handler stack_handlers splice_handlers byte_handlers
  bitwise_handlers rotation_handlers unary_handlers binary_handlers mod_shift_handlers within_handler
  numEqualVerify_handler nop_handler fixed_handlers control_handlers else_handler endif_handler
  altstack_handlers lock_time_handlers opcodeVerify_handler

lemmas crypto_handlers = hash_handlers sha256_handler checkSig_handler checkSigVerify_handler
  checkMultiSig_handler checkMultiSigVerify_handler checkSigAlt_handler checkSigAltVerify_handler

lemma section_handlers:
  "list_all (\<lambda>p. script_handler E (snd p)) control_ops"
  "list_all (\<lambda>p. script_handler E (snd p)) stack_ops"
  "list_all (\<lambda>p. script_handler E (snd p)) splice_ops"
  "list_all (\<lambda>p. script_handler E (snd p)) bitwise_ops"
  "list_all (\<lambda>p. script_handler E (snd p)) byte_ops"
  "list_all (\<lambda>p. script_handler E (snd p)) rotation_ops"
  "list_all (\<lambda>p. script_handler E (snd p)) numeric_ops"
  "list_all (\<lambda>p. script_handler E (snd p)) (crypto_ops E)"
  "list_all (\<lambda>p. script_handler E (snd p)) reserved_ops"
  "list_all (\<lambda>p. script_handler E (snd p)) stake_ops"
  "list_all (\<lambda>p. script_handler E (snd p)) (alt_ops E)"
  by (simp_all only: table_defs list.pred_inject snd_conv simple_handlers crypto_handlers simp_thms)

lemma handler_if:
  "script_handler E f \<Longrightarrow> script_handler E g \<Longrightarrow> script_handler E (if b then f else g)"
  by simp

lemma opfunc_handler: "script_handler E (opfunc E v)"
proof -
  have all: "list_all (\<lambda>p. script_handler E (snd p)) (named_ops E)"
    by (simp only: named_ops_def list_all_append section_handlers simp_thms)
  have "script_handler E (data_op v)"
    unfolding data_op_def by (intro handler_if simple_handlers)
  moreover have "script_handler E (undefined_op v)"
    unfolding undefined_op_def by (intro handler_if simple_handlers)
  moreover have "script_handler E h" if "map_of (named_ops E) v = Some h" for h
    using map_of_SomeD [OF that] all unfolding list_all_iff by fastforce
  ultimately show ?thesis
    unfolding opfunc_def
    by (intro handler_if) (assumption, cases "map_of (named_ops E) v", simp_all only: option.case)
qed

interpretation table: script_handler E "opfunc E v" for E v
  by (rule opfunc_handler)

end
