(* ===== verification/Engine.thy ===== *)
theory Engine
  imports Handlers
begin

text \<open>
  The script engine, after \<open>src/txscript/engine.go\<close>: the execution of one opcode,
  the step to the next opcode or script, and the execution of the signature
  script, the public key script and, for a pay-to-script-hash output, the script
  that the signature script pushed last.
\<close>

unbundle bit_operations_syntax

section \<open>Execution\<close>

text \<open>The limits on the number of operations and on the size of a push.\<close>

definition count_op :: "parsedOpcode \<Rightarrow> Engine \<Rightarrow> script_error + Engine" where
  "count_op pop vm =
     (if pvalue pop > OP_16 then
        let vm = vm\<lparr>numOps := numOps vm + 1\<rparr> in
        if numOps vm > MaxOpsPerScript then Inl (LimitErr ErrTooManyOperations) else Inr vm
      else if length (pop_data pop) > MaxScriptElementSize then Inl (LimitErr ErrElementTooBig)
      else Inr vm)"

definition executeOpcode :: "env \<Rightarrow> parsedOpcode \<Rightarrow> Engine \<Rightarrow> script_error + Engine" where
  "executeOpcode E pop vm =
     (if isDisabled pop then Inl (OpcodeErr ErrDisabledOpcode)
      else if alwaysIllegal pop then Inl (OpcodeErr ErrReservedOpcode)
      else
        bindE (count_op pop vm) (\<lambda>vm.
        if \<not> isBranchExecuting vm \<and> \<not> isConditional pop then Inr vm
        else
          bindE
            (if isBranchExecuting vm \<and> pvalue pop \<ge> 0 \<and> pvalue pop \<le> OP_PUSHDATA4
             then checkMinimalDataPush pop else Inr ())
          (\<lambda>_. opfunc E (pvalue pop) pop vm)))"

definition validPC :: "Engine \<Rightarrow> script_error + unit" where
  "validPC vm =
     (if scriptIdx vm \<ge> length (scripts vm) then Inl (FinalErr ErrInvalidProgramCounter)
      else if scriptOff vm \<ge> length (scripts vm ! scriptIdx vm)
      then Inl (FinalErr ErrInvalidProgramCounter)
      else Inr ())"

definition curPC :: "Engine \<Rightarrow> script_error + nat \<times> nat" where
  "curPC vm = bindE (validPC vm) (\<lambda>_. Inr (scriptIdx vm, scriptOff vm))"

definition CheckErrorCondition :: "bool \<Rightarrow> Engine \<Rightarrow> script_error + Engine" where
  "CheckErrorCondition finalScript vm =
     (if scriptIdx vm < length (scripts vm) then Inl (FinalErr ErrScriptUnfinished)
      else if finalScript \<and> hasFlag vm ScriptVerifyCleanStack \<and> Depth (dstack vm) \<noteq> 1
      then Inl (MalleabilityErr ErrCleanStack)
      else if Depth (dstack vm) < 1 then Inl (FinalErr ErrEmptyStack)
      else
        bindE (PopBool (dstack vm)) (\<lambda>(v, s).
        if \<not> v then Inl (FinalErr ErrEvalFalse) else Inr (vm\<lparr>dstack := s\<rparr>)))"

text \<open>The choice of the next script in \<open>Step\<close>.\<close>

definition next_script :: "Engine \<Rightarrow> script_error + Engine" where
  "next_script vm =
     (if scriptIdx vm = 0 \<and> bip16 vm then
        Inr (vm\<lparr>scriptIdx := scriptIdx vm + 1, savedFirstStack := GetStack vm\<rparr>)
      else if scriptIdx vm = 1 \<and> bip16 vm then
        bindE (CheckErrorCondition False (vm\<lparr>scriptIdx := scriptIdx vm + 1\<rparr>)) (\<lambda>vm.
        let saved = savedFirstStack vm in
        if length saved = 0 then Inl IndexPanic
        else
          bindE (parsed_ok (saved ! (length saved - 1))) (\<lambda>pops.
          Inr (SetStack (take (length saved - 1) saved) (vm\<lparr>scripts := scripts vm @ [pops]\<rparr>))))
      else Inr (vm\<lparr>scriptIdx := scriptIdx vm + 1\<rparr>))"

text \<open>The end of a script in \<open>Step\<close>.\<close>

definition end_script :: "Engine \<Rightarrow> script_error + bool \<times> Engine" where
  "end_script vm =
     (if length (condStack vm) \<noteq> 0 then Inl (OpcodeErr ErrUnbalancedConditional)
      else
        bindE (next_script (vm\<lparr>astack := drop_all (astack vm), numOps := 0, scriptOff := 0\<rparr>)) (\<lambda>vm.
        let vm = (if scriptIdx vm < length (scripts vm) \<and>
                     scriptOff vm \<ge> length (scripts vm ! scriptIdx vm)
                  then vm\<lparr>scriptIdx := scriptIdx vm + 1\<rparr> else vm);
            vm = vm\<lparr>lastCodeSep := 0\<rparr>
        in
        if scriptIdx vm \<ge> length (scripts vm) then Inr (True, vm) else Inr (False, vm)))"

definition Step :: "env \<Rightarrow> Engine \<Rightarrow> script_error + bool \<times> Engine" where
  "Step E vm =
     bindE (validPC vm) (\<lambda>_.
     bindE (executeOpcode E (scripts vm ! scriptIdx vm ! scriptOff vm) vm) (\<lambda>vm.
     if Depth (dstack vm) + Depth (astack vm) > MaxStackSize then Inl (LimitErr ErrStackOverflow)
     else
       let vm = vm\<lparr>scriptOff := scriptOff vm + 1\<rparr> in
       if scriptOff vm \<ge> length (scripts vm ! scriptIdx vm) then end_script vm
       else Inr (False, vm)))"

section \<open>Whole scripts\<close>

text \<open>A step keeps the program, or moves on to a later script.\<close>

lemma count_op_frame: "count_op pop vm = Inr v \<Longrightarrow> same_frame vm v"
  by (auto simp: count_op_def Let_def split: if_splits)

lemma framed_opfunc: "framed vm (opfunc E v op vm)"
  by (auto simp: framed_def intro: table.frame)

lemma executeOpcode_frame:
  assumes "executeOpcode E pop vm = Inr vm'"
  shows "same_frame vm vm'"
proof -
  have "framed vm (executeOpcode E pop vm)"
    unfolding executeOpcode_def
    by (intro framed_if framed_bind framed_error framed_trans [OF _ framed_opfunc])
      (auto intro: count_op_frame simp: framed_def)
  with assms show ?thesis by (simp add: framed_def)
qed

lemma CheckErrorCondition_frame:
  "CheckErrorCondition b vm = Inr vm' \<Longrightarrow> \<exists>s. vm' = vm\<lparr>dstack := s\<rparr>"
  by (auto simp: CheckErrorCondition_def bindE_eq_Inr_iff split: if_splits)

lemma next_script_progress:
  assumes "next_script vm = Inr vm'"
  shows "scriptIdx vm' = scriptIdx vm + 1 \<and> scriptOff vm' = scriptOff vm \<and>
    (scripts vm' = scripts vm \<or> scriptIdx vm = 1 \<and> (\<exists>pops. scripts vm' = scripts vm @ [pops]))"
  using assms
  by (auto simp: next_script_def Let_def bindE_eq_Inr_iff SetStack_def split: if_splits
      dest!: CheckErrorCondition_frame)

definition steps_left :: "Engine \<Rightarrow> nat \<times> nat" where
  "steps_left vm =
     ((if scriptIdx vm \<le> 1 then length (scripts vm) + 1 else length (scripts vm)) - scriptIdx vm,
      length (scripts vm ! scriptIdx vm) - scriptOff vm)"

lemma end_script_progress:
  assumes "end_script vm = Inr (False, vm')" "scriptIdx vm < length (scripts vm)"
  shows "fst (steps_left vm') < fst (steps_left vm)"
proof -
  obtain v where v: "next_script (vm\<lparr>astack := drop_all (astack vm), numOps := 0, scriptOff := 0\<rparr>) = Inr v"
      "scripts vm' = scripts v" "scriptIdx vm' \<ge> scriptIdx v" "scriptIdx vm' < length (scripts v)"
    using assms(1) by (auto simp: end_script_def Let_def bindE_eq_Inr_iff split: if_splits)
  from next_script_progress [OF v(1)] v(2-4) assms(2) show ?thesis
    by (auto simp: steps_left_def)
qed

text \<open>What \<open>Step\<close> does after the opcode.\<close>

definition after_op :: "Engine \<Rightarrow> script_error + bool \<times> Engine" where
  "after_op vm =
     (if Depth (dstack vm) + Depth (astack vm) > MaxStackSize then Inl (LimitErr ErrStackOverflow)
      else
        let vm = vm\<lparr>scriptOff := scriptOff vm + 1\<rparr> in
        if scriptOff vm \<ge> length (scripts vm ! scriptIdx vm) then end_script vm
        else Inr (False, vm))"

lemma Step_eq:
  "Step E vm = bindE (validPC vm) (\<lambda>_.
    bindE (executeOpcode E (scripts vm ! scriptIdx vm ! scriptOff vm) vm) after_op)"
  by (simp add: Step_def after_op_def [abs_def])

lemma validPC_ok: "validPC vm = Inr u \<longleftrightarrow>
    scriptIdx vm < length (scripts vm) \<and> scriptOff vm < length (scripts vm ! scriptIdx vm)"
  by (auto simp: validPC_def)

lemma same_frameD:
  "same_frame vm v \<Longrightarrow> scripts v = scripts vm" "same_frame vm v \<Longrightarrow> scriptIdx v = scriptIdx vm"
  "same_frame vm v \<Longrightarrow> scriptOff v = scriptOff vm" "same_frame vm v \<Longrightarrow> bip16 v = bip16 vm"
  "same_frame vm v \<Longrightarrow> savedFirstStack v = savedFirstStack vm"
  "same_frame vm v \<Longrightarrow> vm_version v = vm_version vm" "same_frame vm v \<Longrightarrow> vm_flags v = vm_flags vm"
  by (simp_all add: same_frame_def)

lemma step_progress:
  assumes "Step E vm = Inr (False, vm')"
  shows "(steps_left vm', steps_left vm) \<in> less_than <*lex*> less_than"
proof -
  obtain v where pc: "scriptIdx vm < length (scripts vm)" "scriptOff vm < length (scripts vm ! scriptIdx vm)"
    and v: "executeOpcode E (scripts vm ! scriptIdx vm ! scriptOff vm) vm = Inr v"
      "after_op v = Inr (False, vm')"
    using assms unfolding Step_eq bindE_eq_Inr_iff validPC_ok by blast
  note f = same_frameD(1-3) [OF executeOpcode_frame [OF v(1)]]
  show ?thesis
  proof (cases "scriptOff v + 1 \<ge> length (scripts v ! scriptIdx v)")
    case True
    with v(2) have "end_script (v\<lparr>scriptOff := scriptOff v + 1\<rparr>) = Inr (False, vm')"
      by (simp add: after_op_def split: if_splits)
    from end_script_progress [OF this] pc(1) f(1,2)
    have "fst (steps_left vm') < fst (steps_left (v\<lparr>scriptOff := scriptOff v + 1\<rparr>))" by simp
    also have "\<dots> = fst (steps_left vm)" using f by (simp add: steps_left_def)
    finally show ?thesis by (cases "steps_left vm'"; cases "steps_left vm") simp
  next
    case False
    with v(2) have "vm' = v\<lparr>scriptOff := scriptOff v + 1\<rparr>"
      by (simp add: after_op_def split: if_splits)
    with False pc(2) f show ?thesis by (simp add: steps_left_def)
  qed
qed

text \<open>The loop of \<open>Execute\<close>.\<close>

function run_steps :: "env \<Rightarrow> Engine \<Rightarrow> script_error + Engine" where
  "run_steps E vm = bindE (Step E vm) (\<lambda>(done, vm). if done then Inr vm else run_steps E vm)"
  by auto

termination
  by (relation "inv_image (less_than <*lex*> less_than) (\<lambda>(E, vm). steps_left vm)")
    (auto dest: step_progress)

declare run_steps.simps [simp del]

definition Execute :: "env \<Rightarrow> Engine \<Rightarrow> script_error + Engine" where
  "Execute E vm =
     (if vm_version vm \<noteq> DefaultScriptVersion then Inr vm
      else bindE (run_steps E vm) (CheckErrorCondition True))"

definition NewEngine ::
  "byte list \<Rightarrow> MsgTx \<Rightarrow> int \<Rightarrow> ScriptFlags \<Rightarrow> uint16 \<Rightarrow> SigCache option \<Rightarrow> script_error + Engine" where
  "NewEngine scriptPubKey tx idx flags scriptVersion cache =
     (if idx < 0 \<or> idx \<ge> int (length (tx_TxIn tx)) then Inl (ApiErr ErrInvalidIndex)
      else
        let scriptSig = SignatureScript (tx_TxIn tx ! nat idx) in
        if length scriptSig = 0 \<and> length scriptPubKey = 0 then Inl (FinalErr ErrEvalFalse)
        else
          let vm = \<lparr>scripts = [], savedFirstStack = [], sigCache = cache, scriptIdx = 0, scriptOff = 0,
                    lastCodeSep = 0, dstack = [], astack = [], vm_tx = tx, txIdx = idx, condStack = [],
                    numOps = 0, vm_flags = flags, vm_version = scriptVersion, bip16 = False\<rparr>
          in
          if hasFlag vm ScriptVerifySigPushOnly \<and> \<not> IsPushOnlyScript scriptSig
          then Inl (MalleabilityErr ErrNotPushOnly)
          else
            bindE (if scriptVersion = DefaultScriptVersion
                   then HasP2SHScriptSigStakeOpCodes scriptVersion scriptSig scriptPubKey
                   else Inr ()) (\<lambda>_.
            bindE (foldE (\<lambda>scr parsed.
                     if length scr > MaxScriptSize then Inl (LimitErr ErrScriptTooBig)
                     else bindE (parsed_ok scr) (\<lambda>pops. Inr (parsed @ [pops])))
                   [scriptSig, scriptPubKey] []) (\<lambda>parsed.
            let vm = vm\<lparr>scripts := parsed,
                        scriptIdx := (if length scriptSig = 0 then 1 else 0)\<rparr>
            in
            if isAnyKindOfScriptHash (scripts vm ! 1) then
              if \<not> isPushOnly (scripts vm ! 0) then Inl (MalleabilityErr ErrNotPushOnly)
              else Inr (vm\<lparr>bip16 := True\<rparr>)
            else Inr vm)))"


section \<open>Opcodes of parsed scripts\<close>

text \<open>Only the push opcodes carry data.\<close>

definition op_ok :: "parsedOpcode \<Rightarrow> bool" where
  "op_ok pop \<longleftrightarrow> (pvalue pop > OP_16 \<longrightarrow> pop_data pop = [])"

lemma parsed_op_ok:
  assumes "parsed_ok s = Inr pops"
  shows "list_all op_ok pops"
proof -
  have "op_ok pop" if "valid_pop pop" "pop_bytes pop = Inr b" for pop b
  proof -
    have "op_length (pop_opcode pop) = 1" if v: "pvalue pop > OP_16"
    proof -
      have "\<not> pvalue pop \<le> OP_DATA_75" using less_le_trans [OF v, of OP_DATA_75] by auto
      then have "op_length (opcodeArray (pvalue pop)) = 1" using v by (auto simp: opcodeArray_def)
      then show ?thesis using \<open>valid_pop pop\<close> by (simp add: valid_pop_def)
    qed
    then show ?thesis using that by (auto simp: op_ok_def pop_bytes_plain)
  qed
  then have "list_all valid_pop pops \<Longrightarrow> unparseScript pops = Inr t \<Longrightarrow> list_all op_ok pops" for t
    by (induction pops arbitrary: t) (auto simp: bindE_eq_Inr_iff)
  with assms show ?thesis by (auto simp: parsed_ok_iff parseScript_ok_iff)
qed

lemma checkMinimalDataPush_no_panic: "checkMinimalDataPush pop \<noteq> Inl IndexPanic"
  by (auto simp: checkMinimalDataPush_def Let_def split: if_splits)

lemma count_op_ok:
  assumes "vm_core vm" "op_ok pop"
  shows "count_op pop vm \<noteq> Inl IndexPanic"
    and "count_op pop vm = Inr v \<Longrightarrow> vm_core v \<and> push_ok pop \<and> dstack v = dstack vm \<and>
      astack v = astack vm \<and> condStack v = condStack vm"
  using assms by (auto simp: count_op_def op_ok_def push_ok_def Let_def vm_core_def split: if_splits)

lemma executeOpcode_handled:
  assumes "env_ok E" "vm_core vm" "sizes_ok vm" "op_ok pop"
  shows "handled (executeOpcode E pop vm)"
proof -
  note count = count_op_ok [OF assms(2,4)]
  have op: "handled (opfunc E (pvalue pop) pop v)" if "count_op pop vm = Inr v" for v
  proof -
    note v = count(2) [OF that]
    then have "sizes_ok v" using assms(3) by (simp add: sizes_ok_def)
    with v show ?thesis using table.keeps [OF assms(1)] by simp
  qed
  show ?thesis
    unfolding executeOpcode_def
  proof (intro handled_if handled_bind)
    fix v
    assume v: "count_op pop vm = Inr v"
    show "handled (Inr v)" using count(2) [OF v] by simp
    show "handled (opfunc E (pvalue pop) pop v)" by (rule op [OF v])
    show "(if isBranchExecuting v \<and> 0 \<le> pvalue pop \<and> pvalue pop \<le> OP_PUSHDATA4
        then checkMinimalDataPush pop else Inr ()) \<noteq> Inl IndexPanic"
      using checkMinimalDataPush_no_panic by simp
  qed (use count(1) in simp_all)
qed

lemma count_op_sim:
  "cache_ok E (sigCache vm) \<Longrightarrow> sim_result E (count_op pop vm) (count_op pop (strip vm))"
  by (auto simp: count_op_def Let_def intro: sim_same)

lemma executeOpcode_sim:
  assumes "env_ok E" "curve_ok E" "vm_core vm" "cache_ok E (sigCache vm)" "op_ok pop"
  shows "sim_result E (executeOpcode E pop vm) (executeOpcode E pop (strip vm))"
  unfolding executeOpcode_def
proof (intro sim_if sim_error sim_bind [OF count_op_sim [OF assms(4)]])
  fix v
  assume v: "count_op pop vm = Inr v" "cache_ok E (sigCache v)"
  have "sim_result E (opfunc E (pvalue pop) pop v) (opfunc E (pvalue pop) pop (strip v))"
    using count_op_ok(2) [OF assms(3,5) v(1)] v(2) by (intro table.cached assms) simp_all
  then show "sim_result E
      (if \<not> isBranchExecuting v \<and> \<not> isConditional pop then Inr v
       else bindE (if isBranchExecuting v \<and> 0 \<le> pvalue pop \<and> pvalue pop \<le> OP_PUSHDATA4
          then checkMinimalDataPush pop else Inr ()) (\<lambda>_. opfunc E (pvalue pop) pop v))
      (if \<not> isBranchExecuting (strip v) \<and> \<not> isConditional pop then Inr (strip v)
       else bindE (if isBranchExecuting (strip v) \<and> 0 \<le> pvalue pop \<and> pvalue pop \<le> OP_PUSHDATA4
          then checkMinimalDataPush pop else Inr ()) (\<lambda>_. opfunc E (pvalue pop) pop (strip v)))"
    unfolding strip_queries by (intro sim_if sim_same v(2) sim_bind_same)
qed


section \<open>The engine stays well-formed\<close>

lemma opfunc_named:
  assumes "(v, h) \<in> set (named_ops E)" "\<not> v \<le> OP_16"
  shows "opfunc E v = h"
proof -
  have "distinct (map (\<lambda>p. unat (fst p)) (named_ops E))"
    using arg_cong [OF named_ops_keys [of E], of distinct] by simp
  then have "distinct (map fst (named_ops E))"
    by (simp add: distinct_map inj_on_def)
  then have "map_of (named_ops E) v = Some h" using assms(1) by simp
  with assms(2) show ?thesis by (simp add: opfunc_def)
qed

lemma hash160_op: "opfunc E OP_HASH160 = opcodeHash160 E"
  by (rule opfunc_named) (simp_all add: named_ops_def crypto_ops_def)

lemma stake_op:
  assumes "isStakeOpcode (pop_opcode pop)"
  shows "opfunc E (pvalue pop) = opcodeNop"
proof -
  have "unat OP_SSTX \<le> unat (pvalue pop)" "unat (pvalue pop) \<le> unat OP_SSTXCHANGE"
    using assms by (simp_all add: isStakeOpcode_def word_le_nat_alt)
  then have "unat (pvalue pop) \<in> {186, 187, 188, 189}" by auto
  then have "pvalue pop \<in> {0xba, 0xbb, 0xbc, 0xbd}"
    by (auto simp: word_unat_eq_iff)
  then show ?thesis
    by (intro opfunc_named) (auto simp: named_ops_def stake_ops_def)
qed

lemma executing [simp]: "condStack vm = [] \<Longrightarrow> isBranchExecuting vm"
  by (simp add: isBranchExecuting_def)

text \<open>In an executing branch a push leaves an item, and a tag of a stake transaction does nothing.\<close>

lemma push_executes:
  assumes "executeOpcode E pop vm = Inr v" "\<not> pvalue pop > OP_16" "condStack vm = []"
  shows "dstack v \<noteq> []" "condStack v = []"
proof -
  have "opfunc E (pvalue pop) pop vm = Inr v"
    using assms by (auto simp: executeOpcode_def count_op_def bindE_eq_Inr_iff split: if_splits)
  then have "data_op (pvalue pop) pop vm = Inr v" using assms(2) by (simp add: opfunc_def not_less)
  then have "\<exists>x. v = vm\<lparr>dstack := dstack vm @ [x]\<rparr>"
    unfolding data_op_def
    by (auto simp: opcodeFalse_def opcodePushData_def opcode1Negate_def opcodeReserved_def opcodeN_def
        on_dstack_def PushByteArray_def PushInt_def bindE_eq_Inr_iff split: if_splits)
  then show "dstack v \<noteq> []" "condStack v = []" using assms(3) by auto
qed

lemma stake_executes:
  assumes "executeOpcode E pop vm = Inr v" "isStakeOpcode (pop_opcode pop)" "condStack vm = []"
  shows "dstack v = dstack vm" "condStack v = []"
proof -
  obtain u where u: "count_op pop vm = Inr u" "opfunc E (pvalue pop) pop u = Inr v"
    using assms(1,3) by (auto simp: executeOpcode_def bindE_eq_Inr_iff count_op_def Let_def split: if_splits)
  then have "v = u" unfolding stake_op [OF assms(2)] by (auto simp: opcodeNop_def split: if_splits)
  with u(1) assms(3) show "dstack v = dstack vm" "condStack v = []"
    by (auto simp: count_op_def Let_def split: if_splits)
qed

lemma hash_needs_item:
  assumes "pvalue pop = OP_HASH160" "dstack vm = []" "condStack vm = []"
  shows "executeOpcode E pop vm \<noteq> Inr v"
proof
  assume "executeOpcode E pop vm = Inr v"
  then obtain u where u: "count_op pop vm = Inr u" "opfunc E OP_HASH160 pop u = Inr v"
    using assms by (auto simp: executeOpcode_def bindE_eq_Inr_iff count_op_def Let_def split: if_splits)
  then have "dstack u = []" using assms(2) by (auto simp: count_op_def Let_def split: if_splits)
  with u(2) show False by (simp add: hash160_op opcodeHash160_def hash_top_def on_dstack_def)
qed

text \<open>
  The state of a pay-to-script-hash execution: the stack after a signature script
  that is not empty holds the script to run; without one, the hash opcode of the
  public key script is still to come and will find an empty stack.
\<close>

definition hash_pos :: "parsedOpcode list \<Rightarrow> nat" where
  "hash_pos pops = (if isScriptHash pops then 0 else 1)"

definition p2sh_ok :: "Engine \<Rightarrow> bool" where
  "p2sh_ok vm \<longleftrightarrow> (bip16 vm \<longrightarrow>
     length (scripts vm) = (if scriptIdx vm \<le> 1 then 2 else 3) \<and>
     (scriptIdx vm \<le> 1 \<longrightarrow> isAnyKindOfScriptHash (scripts vm ! 1)) \<and>
     (scriptIdx vm = 0 \<longrightarrow>
        isPushOnly (scripts vm ! 0) \<and> condStack vm = [] \<and> (scriptOff vm \<noteq> 0 \<longrightarrow> dstack vm \<noteq> [])) \<and>
     (scriptIdx vm = 1 \<longrightarrow> savedFirstStack vm \<noteq> [] \<or>
        dstack vm = [] \<and> condStack vm = [] \<and> scriptOff vm \<le> hash_pos (scripts vm ! 1)))"

definition engine_ok :: "Engine \<Rightarrow> bool" where
  "engine_ok vm \<longleftrightarrow> vm_core vm \<and> sizes_ok vm \<and> list_all (list_all op_ok) (scripts vm) \<and>
     Depth (savedFirstStack vm) \<le> MaxStackSize \<and> p2sh_ok vm"


text \<open>The state after the last opcode of a script.\<close>

definition script_end_ok :: "Engine \<Rightarrow> bool" where
  "script_end_ok vm \<longleftrightarrow> vm_core vm \<and> condStack vm = [] \<and> astack vm = [] \<and> scriptOff vm = 0 \<and>
     Depth (dstack vm) \<le> MaxStackSize \<and> Depth (savedFirstStack vm) \<le> MaxStackSize \<and>
     list_all (list_all op_ok) (scripts vm) \<and>
     (bip16 vm \<longrightarrow>
        length (scripts vm) = (if scriptIdx vm \<le> 1 then 2 else 3) \<and>
        (scriptIdx vm \<le> 1 \<longrightarrow> isAnyKindOfScriptHash (scripts vm ! 1)) \<and>
        (scriptIdx vm = 0 \<longrightarrow> dstack vm \<noteq> []) \<and> (scriptIdx vm = 1 \<longrightarrow> savedFirstStack vm \<noteq> []))"

text \<open>The state between two scripts, where the program counter may be past the end.\<close>

definition between_ok :: "Engine \<Rightarrow> bool" where
  "between_ok vm \<longleftrightarrow> items_ok (dstack vm) \<and> sizes_ok vm \<and> astack vm = [] \<and> condStack vm = [] \<and>
     (scriptIdx vm < length (scripts vm) \<longrightarrow> engine_ok vm)"

lemma hash_script_nonempty: "isAnyKindOfScriptHash pops \<Longrightarrow> hash_pos pops + 2 < length pops"
  by (auto simp: isAnyKindOfScriptHash_def isScriptHash_def isStakeScriptHash_def hash_pos_def)

lemma CheckErrorCondition_no_panic: "CheckErrorCondition b vm \<noteq> Inl IndexPanic"
  by (cases "dstack vm" rule: PopBool_cases)
    (auto simp: CheckErrorCondition_def split: if_splits)

lemma next_script_no_panic:
  assumes "script_end_ok vm"
  shows "next_script vm \<noteq> Inl IndexPanic"
proof -
  have saved: "savedFirstStack v = savedFirstStack vm"
    if "CheckErrorCondition False (vm\<lparr>scriptIdx := scriptIdx vm + 1\<rparr>) = Inr v" for v
    using CheckErrorCondition_frame [OF that] by auto
  have "parsed_ok s \<noteq> Inl IndexPanic" for s using parsed_ok_error by fastforce
  then show ?thesis
    using assms CheckErrorCondition_no_panic
    by (auto simp: next_script_def Let_def bindE_eq_Inl_iff script_end_ok_def saved)
qed

lemma next_script_between:
  assumes "script_end_ok vm" "next_script vm = Inr v"
  shows "between_ok v \<and> scriptOff v = 0 \<and> (bip16 v \<longrightarrow> scriptIdx v = 1 \<and> scripts v ! 1 \<noteq> [] \<or>
    length (scripts v) \<le> scriptIdx v + 1)"
proof -
  consider (first) "scriptIdx vm = 0" "bip16 vm" "v = vm\<lparr>scriptIdx := 1, savedFirstStack := dstack vm\<rparr>"
    | (hash) pops where "scriptIdx vm = 1" "bip16 vm" "savedFirstStack vm \<noteq> []"
        "list_all op_ok pops"
        "v = vm\<lparr>scriptIdx := 2, scripts := scripts vm @ [pops], dstack := butlast (savedFirstStack vm)\<rparr>"
    | (other) "bip16 vm \<longrightarrow> scriptIdx vm \<noteq> 0 \<and> scriptIdx vm \<noteq> 1" "v = vm\<lparr>scriptIdx := scriptIdx vm + 1\<rparr>"
    using assms
    by (auto simp: next_script_def Let_def bindE_eq_Inr_iff GetStack_def SetStack_def script_end_ok_def
        butlast_conv_take numeral_2_eq_2 dest!: CheckErrorCondition_frame split: if_splits)
      (blast intro: parsed_op_ok)
  then show ?thesis
  proof cases
    case first
    then show ?thesis
      using assms(1) hash_script_nonempty [of "scripts vm ! 1"]
      by (auto simp: script_end_ok_def between_ok_def engine_ok_def vm_core_def sizes_ok_def p2sh_ok_def Depth_def)
  next
    case hash
    have "items_ok (butlast (savedFirstStack vm))"
      using assms(1) by (auto simp: script_end_ok_def vm_core_def items_ok_def dest: in_set_butlastD)
    with hash show ?thesis
      using assms(1)
      by (auto simp: script_end_ok_def between_ok_def engine_ok_def vm_core_def sizes_ok_def p2sh_ok_def
          Depth_def nth_append MaxOpsPerScript_def)
  next
    case other
    then show ?thesis
      using assms(1)
      by (auto simp: script_end_ok_def between_ok_def engine_ok_def vm_core_def sizes_ok_def p2sh_ok_def Depth_def)
  qed
qed


definition step_ok :: "script_error + bool \<times> Engine \<Rightarrow> bool" where
  "step_ok r \<longleftrightarrow> (case r of
     Inl e \<Rightarrow> e \<noteq> IndexPanic
   | Inr (done, vm) \<Rightarrow>
       if done then items_ok (dstack vm) \<and> sizes_ok vm \<and> astack vm = [] \<and> condStack vm = [] \<and>
         length (scripts vm) \<le> scriptIdx vm
       else engine_ok vm)"

lemma engine_ok_next:
  "engine_ok vm \<Longrightarrow> \<not> bip16 vm \<Longrightarrow> scriptIdx vm + 1 < length (scripts vm) \<Longrightarrow>
    engine_ok (vm\<lparr>scriptIdx := scriptIdx vm + 1\<rparr>)"
  by (simp add: engine_ok_def vm_core_def sizes_ok_def p2sh_ok_def)

lemma lastCodeSep_id: "lastCodeSep vm = 0 \<Longrightarrow> vm\<lparr>lastCodeSep := 0\<rparr> = vm"
  by simp

lemma end_script_ok:
  assumes "condStack vm = [] \<Longrightarrow>
    script_end_ok (vm\<lparr>astack := drop_all (astack vm), numOps := 0, scriptOff := 0\<rparr>)"
  shows "step_ok (end_script vm)"
proof (cases "condStack vm = []")
  case True
  define w where "w = vm\<lparr>astack := drop_all (astack vm), numOps := 0, scriptOff := 0\<rparr>"
  have w: "script_end_ok w" using assms True by (simp add: w_def)
  show ?thesis
  proof (cases "next_script w")
    case (Inl e)
    with next_script_no_panic [OF w] True show ?thesis by (auto simp: end_script_def step_ok_def w_def)
  next
    case (Inr v)
    note v = next_script_between [OF w Inr]
    define u where "u = (if scriptIdx v < length (scripts v) \<and> scriptOff v \<ge> length (scripts v ! scriptIdx v)
      then v\<lparr>scriptIdx := scriptIdx v + 1\<rparr> else v)"
    have "between_ok u"
      using v by (auto simp: u_def between_ok_def sizes_ok_def engine_ok_next [simplified])
    then have u: "step_ok (let vm = u\<lparr>lastCodeSep := 0\<rparr> in
        if scriptIdx vm \<ge> length (scripts vm) then Inr (True, vm) else Inr (False, vm))"
      by (auto simp: step_ok_def between_ok_def sizes_ok_def Let_def engine_ok_def vm_core_def lastCodeSep_id)
    have "end_script vm = (let vm = u\<lparr>lastCodeSep := 0\<rparr> in
        if scriptIdx vm \<ge> length (scripts vm) then Inr (True, vm) else Inr (False, vm))"
      using True Inr by (simp add: end_script_def w_def u_def Let_def)
    with u show ?thesis by simp
  qed
qed (simp add: end_script_def step_ok_def)

text \<open>What the execution of the current opcode does to the state of a pay-to-script-hash execution.\<close>

lemma opcode_p2sh:
  assumes "engine_ok vm" "bip16 vm" "scriptOff vm < length (scripts vm ! scriptIdx vm)"
    and "executeOpcode E (scripts vm ! scriptIdx vm ! scriptOff vm) vm = Inr v"
  shows "scriptIdx vm = 0 \<Longrightarrow> dstack v \<noteq> [] \<and> condStack v = []"
    and "scriptIdx vm = 1 \<Longrightarrow> savedFirstStack vm \<noteq> [] \<or>
      dstack v = [] \<and> condStack v = [] \<and> scriptOff vm + 1 \<le> hash_pos (scripts vm ! 1)"
proof -
  note ok = assms(1,2)
  show "dstack v \<noteq> [] \<and> condStack v = []" if "scriptIdx vm = 0"
  proof -
    have "isPushOnly (scripts vm ! 0)" "condStack vm = []"
      using ok that by (auto simp: engine_ok_def p2sh_ok_def)
    then have "\<not> pvalue (scripts vm ! 0 ! scriptOff vm) > OP_16"
      using assms(3) that by (auto simp: isPushOnly_def list_all_length)
    with push_executes [of E "scripts vm ! 0 ! scriptOff vm" vm v] assms(4) that \<open>condStack vm = []\<close>
    show ?thesis by simp
  qed
  show "savedFirstStack vm \<noteq> [] \<or>
      dstack v = [] \<and> condStack v = [] \<and> scriptOff vm + 1 \<le> hash_pos (scripts vm ! 1)" if "scriptIdx vm = 1"
  proof (rule disjCI)
    assume "\<not> (dstack v = [] \<and> condStack v = [] \<and> scriptOff vm + 1 \<le> hash_pos (scripts vm ! 1))"
    moreover have "dstack v = [] \<and> condStack v = [] \<and> scriptOff vm + 1 \<le> hash_pos (scripts vm ! 1)"
      if "savedFirstStack vm = []"
    proof -
      have e: "dstack vm = []" "condStack vm = []" "scriptOff vm \<le> hash_pos (scripts vm ! 1)"
        "isAnyKindOfScriptHash (scripts vm ! 1)"
        using ok that \<open>scriptIdx vm = 1\<close> by (auto simp: engine_ok_def p2sh_ok_def)
      have "pvalue (scripts vm ! 1 ! hash_pos (scripts vm ! 1)) = OP_HASH160"
        using e(4)
        by (auto simp: hash_pos_def isAnyKindOfScriptHash_def isScriptHash_def isStakeScriptHash_def)
      from hash_needs_item [OF this e(1,2)] assms(4) \<open>scriptIdx vm = 1\<close>
      have "scriptOff vm \<noteq> hash_pos (scripts vm ! 1)" by auto
      with e(3) have off: "scriptOff vm = 0" "\<not> isScriptHash (scripts vm ! 1)" "hash_pos (scripts vm ! 1) = 1"
        by (auto simp: hash_pos_def split: if_splits)
      with e(4) have "isStakeOpcode (pop_opcode (scripts vm ! 1 ! 0))"
        by (simp add: isAnyKindOfScriptHash_def isStakeScriptHash_def)
      with stake_executes [of E _ vm v] assms(4) off \<open>scriptIdx vm = 1\<close> e(1,2) show ?thesis by simp
    qed
    ultimately show "savedFirstStack vm \<noteq> []" by blast
  qed
qed


lemma after_op_ok:
  assumes "engine_ok vm" "scriptOff vm < length (scripts vm ! scriptIdx vm)"
    and "executeOpcode E (scripts vm ! scriptIdx vm ! scriptOff vm) vm = Inr v" "vm_core v"
  shows "step_ok (after_op v)"
proof (cases "Depth (dstack v) + Depth (astack v) > MaxStackSize")
  case True
  then show ?thesis by (simp add: after_op_def step_ok_def)
next
  case False
  note f = same_frameD(1-5) [OF executeOpcode_frame [OF assms(3)]]
  note p = opcode_p2sh [OF assms(1) _ assms(2,3)]
  have ok: "list_all (list_all op_ok) (scripts v)" "Depth (savedFirstStack v) \<le> MaxStackSize" "p2sh_ok vm"
    using assms(1) f by (simp_all add: engine_ok_def)
  show ?thesis
  proof (cases "scriptOff v + 1 \<ge> length (scripts v ! scriptIdx v)")
    case True
    have "script_end_ok (v\<lparr>astack := drop_all (astack v), numOps := 0, scriptOff := 0\<rparr>)" if "condStack v = []"
      using p f ok assms(2,4) True False that hash_script_nonempty [of "scripts v ! 1"]
      by (auto simp: script_end_ok_def p2sh_ok_def vm_core_def Depth_def MaxOpsPerScript_def)
    then have "step_ok (end_script (v\<lparr>scriptOff := scriptOff v + 1\<rparr>))"
      by (intro end_script_ok) simp
    with True False show ?thesis by (simp add: after_op_def)
  next
    case more: False
    have "engine_ok (v\<lparr>scriptOff := scriptOff v + 1\<rparr>)"
      using p f ok assms(4) False
      by (auto simp: engine_ok_def p2sh_ok_def vm_core_def sizes_ok_def)
    with more False show ?thesis by (simp add: after_op_def step_ok_def)
  qed
qed

lemma Step_ok:
  assumes "env_ok E" "engine_ok vm"
  shows "step_ok (Step E vm)"
proof (cases "scriptOff vm < length (scripts vm ! scriptIdx vm)")
  case True
  have vm: "vm_core vm" "sizes_ok vm" "scriptIdx vm < length (scripts vm)"
    "list_all (list_all op_ok) (scripts vm)"
    using assms(2) by (auto simp: engine_ok_def vm_core_def)
  then have "op_ok (scripts vm ! scriptIdx vm ! scriptOff vm)"
    using True by (simp add: list_all_length)
  from executeOpcode_handled [OF assms(1) vm(1,2) this] after_op_ok [OF assms(2) True, of E] True vm(3)
  show ?thesis
    by (cases "executeOpcode E (scripts vm ! scriptIdx vm ! scriptOff vm) vm")
      (auto simp: Step_eq validPC_def step_ok_def [of "Inl _"])
next
  case False
  then show ?thesis by (simp add: Step_eq validPC_def step_ok_def)
qed

lemma run_steps_ok:
  "env_ok E \<Longrightarrow> engine_ok vm \<Longrightarrow> run_steps E vm \<noteq> Inl IndexPanic"
proof (induction E vm rule: run_steps.induct)
  case (1 E vm)
  show ?case
  proof (cases "Step E vm")
    case (Inl e)
    with Step_ok [OF 1(2,3)] show ?thesis by (simp add: run_steps.simps [of E vm] step_ok_def)
  next
    case (Inr r)
    obtain d v where r: "r = (d, v)" by (cases r)
    show ?thesis
    proof (cases d)
      case False
      with Step_ok [OF 1(2,3)] Inr r have "engine_ok v" by (simp add: step_ok_def)
      from 1(1) [OF Inr r [symmetric] False 1(2) this] show ?thesis
        by (simp add: run_steps.simps [of E vm] Inr r False)
    qed (simp add: run_steps.simps [of E vm] Inr r)
  qed
qed

lemma NewEngine_ok:
  assumes "NewEngine pk tx idx flags ver cache = Inr vm" "typed_ins tx"
  shows "engine_ok vm" and "sigCache vm = cache"
proof -
  define sig where "sig = SignatureScript (tx_TxIn tx ! nat idx)"
  obtain s0 s1 where p: "parsed_ok sig = Inr s0" "parsed_ok pk = Inr s1"
    and idx: "0 \<le> idx" "idx < int (length (tx_TxIn tx))"
    and bip: "isAnyKindOfScriptHash s1 \<Longrightarrow> isPushOnly s0"
    and vm: "vm = \<lparr>scripts = [s0, s1], savedFirstStack = [], sigCache = cache,
      scriptIdx = (if sig = [] then 1 else 0), scriptOff = 0, lastCodeSep = 0, dstack = [], astack = [],
      vm_tx = tx, txIdx = idx, condStack = [], numOps = 0, vm_flags = flags, vm_version = ver,
      bip16 = isAnyKindOfScriptHash s1\<rparr>"
    using assms(1) unfolding NewEngine_def Let_def sig_def [symmetric]
    by (auto simp: bindE_eq_Inr_iff split: if_splits)
  show "engine_ok vm"
    using parsed_op_ok [OF p(1)] parsed_op_ok [OF p(2)] idx bip assms(2)
    by (simp add: vm engine_ok_def vm_core_def sizes_ok_def p2sh_ok_def MaxOpsPerScript_def
        MaxStackSize_def Depth_def)
  show "sigCache vm = cache" by (simp add: vm)
qed


section \<open>The signature cache makes no difference\<close>

lemma strip_pc [simp]:
  "(strip vm)\<lparr>scriptOff := i\<rparr> = strip (vm\<lparr>scriptOff := i\<rparr>)"
  "(strip vm)\<lparr>scriptIdx := i\<rparr> = strip (vm\<lparr>scriptIdx := i\<rparr>)"
  "(strip vm)\<lparr>scripts := ops\<rparr> = strip (vm\<lparr>scripts := ops\<rparr>)"
  "(strip vm)\<lparr>savedFirstStack := s\<rparr> = strip (vm\<lparr>savedFirstStack := s\<rparr>)"
  "(strip vm)\<lparr>lastCodeSep := i\<rparr> = strip (vm\<lparr>lastCodeSep := i\<rparr>)"
  by (simp_all add: strip_def)

definition sim_step :: "env \<Rightarrow> script_error + bool \<times> Engine \<Rightarrow> script_error + bool \<times> Engine \<Rightarrow> bool" where
  "sim_step E r r' \<longleftrightarrow>
     (case r of Inl e \<Rightarrow> r' = Inl e
      | Inr (d, vm) \<Rightarrow> r' = Inr (d, strip vm) \<and> cache_ok E (sigCache vm))"

lemma CheckErrorCondition_sim:
  "cache_ok E (sigCache vm) \<Longrightarrow> sim_result E (CheckErrorCondition b vm) (CheckErrorCondition b (strip vm))"
  by (cases "dstack vm" rule: PopBool_cases) (auto simp: CheckErrorCondition_def intro: sim_same)

lemma next_script_sim:
  assumes "cache_ok E (sigCache vm)"
  shows "sim_result E (next_script vm) (next_script (strip vm))"
  unfolding next_script_def Let_def strip_simps strip_pc GetStack_def SetStack_def
  by (intro sim_if sim_bind sim_bind_same CheckErrorCondition_sim)
    (auto intro!: sim_same sim_bind_same simp: assms)

lemma end_script_sim:
  assumes "cache_ok E (sigCache vm)"
  shows "sim_step E (end_script vm) (end_script (strip vm))"
proof -
  define w where "w = vm\<lparr>astack := drop_all (astack vm), numOps := 0, scriptOff := 0\<rparr>"
  have "sim_result E (next_script w) (next_script (strip w))"
    by (rule next_script_sim) (simp add: w_def assms)
  then show ?thesis
    unfolding end_script_def strip_simps strip_update strip_pc w_def [symmetric]
    by (cases "next_script w") (auto simp: sim_result_def sim_step_def Let_def)
qed

lemma Step_sim:
  assumes "env_ok E" "curve_ok E" "engine_ok vm" "cache_ok E (sigCache vm)"
  shows "sim_step E (Step E vm) (Step E (strip vm))"
proof (cases "scriptOff vm < length (scripts vm ! scriptIdx vm)")
  case True
  have vm: "vm_core vm" "scriptIdx vm < length (scripts vm)" "list_all (list_all op_ok) (scripts vm)"
    using assms(3) by (auto simp: engine_ok_def vm_core_def)
  define op where "op = scripts vm ! scriptIdx vm ! scriptOff vm"
  have "op_ok op" using True vm by (simp add: list_all_length op_def)
  then have exec: "sim_result E (executeOpcode E op vm) (executeOpcode E op (strip vm))"
    using vm(1) assms by (intro executeOpcode_sim)
  have after: "sim_step E (after_op v) (after_op (strip v))" if "cache_ok E (sigCache v)" for v
    using end_script_sim [of E "v\<lparr>scriptOff := scriptOff v + 1\<rparr>"] that
    unfolding after_op_def Let_def strip_simps strip_pc by (simp add: sim_step_def [of _ "Inl _"] sim_step_def [of _ "Inr _"])
  show ?thesis
    using exec after True vm(2)
    by (cases "executeOpcode E op vm")
      (auto simp: Step_eq validPC_def op_def [symmetric] sim_result_def sim_step_def [of _ "Inl _"])
next
  case False
  then show ?thesis by (simp add: Step_eq validPC_def sim_step_def)
qed

lemma run_steps_sim:
  "env_ok E \<Longrightarrow> curve_ok E \<Longrightarrow> engine_ok vm \<Longrightarrow> cache_ok E (sigCache vm) \<Longrightarrow>
    sim_result E (run_steps E vm) (run_steps E (strip vm))"
proof (induction E vm rule: run_steps.induct)
  case (1 E vm)
  note step = Step_sim [OF 1(2-5)]
  show ?case
  proof (cases "Step E vm")
    case (Inl e)
    with step show ?thesis
      by (simp add: run_steps.simps [of E vm] run_steps.simps [of E "strip vm"] sim_step_def)
  next
    case (Inr r)
    obtain d v where r: "r = (d, v)" by (cases r)
    then have v: "Step E (strip vm) = Inr (d, strip v)" "cache_ok E (sigCache v)"
      using step Inr by (simp_all add: sim_step_def)
    show ?thesis
    proof (cases d)
      case True
      then show ?thesis
        using v by (simp add: run_steps.simps [of E vm] run_steps.simps [of E "strip vm"] Inr r sim_same)
    next
      case False
      with Step_ok [OF 1(2,4)] Inr r have "engine_ok v" by (simp add: step_ok_def)
      from 1(1) [OF Inr r [symmetric] False 1(2,3) this v(2)] False show ?thesis
        by (simp add: run_steps.simps [of E vm] run_steps.simps [of E "strip vm"] Inr r v(1))
    qed
  qed
qed

lemma Execute_sim:
  assumes "env_ok E" "curve_ok E" "engine_ok vm" "cache_ok E (sigCache vm)"
  shows "sim_result E (Execute E vm) (Execute E (strip vm))"
proof -
  have "sim_result E (bindE (run_steps E vm) (CheckErrorCondition True))
      (bindE (run_steps E (strip vm)) (CheckErrorCondition True))"
    by (rule sim_bind [OF run_steps_sim [OF assms]]) (rule CheckErrorCondition_sim)
  with assms(4) show ?thesis by (simp add: Execute_def sim_same)
qed

lemma NewEngine_sim:
  assumes "cache_ok E cache"
  shows "sim_result E (NewEngine pk tx idx flags ver cache) (NewEngine pk tx idx flags ver None)"
proof -
  have "sim_result E (Inr vm) (Inr (vm\<lparr>sigCache := None\<rparr>))" if "sigCache vm = cache" for vm
    using sim_same [of E vm] that assms by (simp add: strip_def)
  from this [of "\<lparr>scripts = ops, savedFirstStack = [], sigCache = cache, scriptIdx = i, scriptOff = 0,
      lastCodeSep = 0, dstack = [], astack = [], vm_tx = tx, txIdx = idx, condStack = [], numOps = 0,
      vm_flags = flags, vm_version = ver, bip16 = b\<rparr>" for ops i b]
  show ?thesis
    unfolding NewEngine_def Let_def hasFlag_def Engine.simps by (intro sim_if sim_error sim_bind_same) simp_all
qed

section \<open>Properties\<close>

text \<open>
  C11: The engine is well-typed: from a well-formed engine, in which no stack item
  is longer than the limit, the stacks and the operation count are within their
  limits, the input index is in range and only pushes carry data, a step does not
  panic; it fails with a script error, or finishes with clean alternative and
  condition stacks, or leaves a well-formed engine.
\<close>

theorem engine_step_typed:
  assumes "env_ok E" and "engine_ok vm"
  shows "case Step E vm of
      Inl e \<Rightarrow> e \<noteq> IndexPanic
    | Inr (done, vm') \<Rightarrow>
        if done then items_ok (dstack vm') \<and> sizes_ok vm' \<and> astack vm' = [] \<and> condStack vm' = [] \<and>
          length (scripts vm') \<le> scriptIdx vm'
        else engine_ok vm'"
  using Step_ok [OF assms] by (simp add: step_ok_def)

text \<open>
  C1: Validating an input never panics: whatever the scripts, flags, version and
  signature cache are, the engine that \<open>NewEngine\<close> makes for an input of a
  transaction executes to a verdict.
\<close>

theorem execute_no_panic:
  assumes "env_ok E" and "typed_ins tx" and "NewEngine pk tx idx flags ver cache = Inr vm"
  shows "Execute E vm \<noteq> Inl IndexPanic"
proof -
  have "run_steps E vm \<noteq> Inl IndexPanic"
    by (rule run_steps_ok [OF assms(1) NewEngine_ok(1) [OF assms(3,2)]])
  then show ?thesis
    using CheckErrorCondition_no_panic by (simp add: Execute_def bindE_eq_Inl_iff)
qed

text \<open>
  C3: The signature cache is transparent: with a cache that holds only signatures
  that verify, for keys on the curve, an input gets the same verdict and the same
  final engine as without a cache, and the cache it leaves holds only such
  signatures again.
\<close>

theorem sig_cache_transparent:
  assumes "env_ok E" and "curve_ok E" and "typed_ins tx" and "cache_ok E cache"
    and "NewEngine pk tx idx flags ver cache = Inr vm"
  shows "NewEngine pk tx idx flags ver None = Inr (strip vm) \<and>
    (case Execute E vm of
       Inl e \<Rightarrow> Execute E (strip vm) = Inl e
     | Inr vm' \<Rightarrow> Execute E (strip vm) = Inr (strip vm') \<and> cache_ok E (sigCache vm'))"
proof -
  have "sim_result E (Execute E vm) (Execute E (strip vm))"
    using NewEngine_ok [OF assms(5,3)] assms(4) by (intro Execute_sim assms) simp_all
  with NewEngine_sim [OF assms(4), of pk tx idx flags ver] assms(5) show ?thesis
    by (simp add: sim_result_def)
qed


section \<open>Witnesses\<close>

definition ex_env :: env where
  "ex_env = \<lparr>HashB = \<lambda>b. take 32 (b @ replicate 32 0), ripemd160 = \<lambda>b. take 20 (b @ replicate 20 0),
     sha1 = \<lambda>b. take 20 (b @ replicate 20 0), sha256 = \<lambda>b. take 32 (b @ replicate 32 0),
     IsOnCurve = \<lambda>x y. x = 1 \<and> y = 1, ecdsa_Verify = \<lambda>_ _ _ _. True,
     edwards_ParsePubKey = \<lambda>_. None, edwards_ParseSignature = \<lambda>_. None,
     edwards_Verify = \<lambda>_ _ _ _. False, schnorr_ParsePubKey = \<lambda>_. None,
     schnorr_ParseSignature = \<lambda>_. None, schnorr_Verify = \<lambda>_ _ _ _. False,
     SigHashOptimization = True, optimizeSigVerification = True, pick_entry = \<lambda>n. 0\<rparr>"

lemma ex_env_ok: "env_ok ex_env" "curve_ok ex_env"
  by (auto simp: env_ok_def curve_ok_def ex_env_def HashSize_def)

lemma ex_engine:
  obtains vm where "NewEngine [OP_1] ex_tx 0 0 0 None = Inr vm" "typed_ins ex_tx" "engine_ok vm"
proof -
  have "(case NewEngine [OP_1] ex_tx 0 0 0 None of Inl _ \<Rightarrow> False | Inr _ \<Rightarrow> True)" by code_simp
  then obtain vm where "NewEngine [OP_1] ex_tx 0 0 0 None = Inr vm" by (auto split: sum.splits)
  moreover have "typed_ins ex_tx" by code_simp
  ultimately show thesis using that NewEngine_ok by blast
qed


theorem engine_step_typed_witness:
  "\<exists>vm. NewEngine [OP_1] ex_tx 0 0 0 None = Inr vm \<and>
    (case Step ex_env vm of
      Inl e \<Rightarrow> e \<noteq> IndexPanic
    | Inr (done, vm') \<Rightarrow>
        if done then items_ok (dstack vm') \<and> sizes_ok vm' \<and> astack vm' = [] \<and> condStack vm' = [] \<and>
          length (scripts vm') \<le> scriptIdx vm'
        else engine_ok vm')"
proof -
  obtain vm where "NewEngine [OP_1] ex_tx 0 0 0 None = Inr vm" "engine_ok vm" by (rule ex_engine)
  with engine_step_typed [OF ex_env_ok(1), of vm] show ?thesis by blast
qed

theorem execute_no_panic_witness:
  "\<exists>vm. NewEngine [OP_1] ex_tx 0 0 0 None = Inr vm \<and> Execute ex_env vm \<noteq> Inl IndexPanic"
proof -
  obtain vm where "NewEngine [OP_1] ex_tx 0 0 0 None = Inr vm" "typed_ins ex_tx" by (rule ex_engine)
  with execute_no_panic [OF ex_env_ok(1), of ex_tx "[OP_1]" 0 0 0 None vm] show ?thesis by blast
qed

theorem sig_cache_transparent_witness:
  "\<exists>vm. NewEngine [OP_1] ex_tx 0 0 0 None = Inr (strip vm) \<and> sigCache vm = Some (NewSigCache 10) \<and>
    (case Execute ex_env vm of
       Inl e \<Rightarrow> Execute ex_env (strip vm) = Inl e
     | Inr vm' \<Rightarrow> Execute ex_env (strip vm) = Inr (strip vm') \<and> cache_ok ex_env (sigCache vm'))"
proof -
  have "(case NewEngine [OP_1] ex_tx 0 0 0 (Some (NewSigCache 10)) of Inl _ \<Rightarrow> False | Inr _ \<Rightarrow> True)"
    by code_simp
  then obtain vm where vm: "NewEngine [OP_1] ex_tx 0 0 0 (Some (NewSigCache 10)) = Inr vm"
    by (auto split: sum.splits)
  have "typed_ins ex_tx" by code_simp
  moreover have "cache_ok ex_env (Some (NewSigCache 10))" by (simp add: cache_ok_def NewSigCache_def)
  ultimately show ?thesis
    using sig_cache_transparent [OF ex_env_ok _ _ vm] NewEngine_ok(2) [OF vm] by blast
qed

end
