(* ===== verification/MultiSig.thy ===== *)
theory MultiSig
  imports Engine "HOL-Library.Sublist"
begin

text \<open>
  What the loop of \<open>opcodeCheckMultiSig\<close> decides.  It tries the public keys in
  order and moves to the next signature as soon as one verifies; this finds an
  assignment of the signatures to keys that keeps their order whenever there is
  one.
\<close>

section \<open>Assignments\<close>

definition matches :: "('s \<Rightarrow> 'k \<Rightarrow> bool) \<Rightarrow> 's list \<Rightarrow> 'k list \<Rightarrow> bool" where
  "matches valid sigs keys \<longleftrightarrow> (\<exists>ks. subseq ks keys \<and> list_all2 valid sigs ks)"

lemma matches_Nil [simp]: "matches valid [] keys"
  by (simp add: matches_def)

lemma matches_Cons_Nil [simp]: "\<not> matches valid (s # sigs) []"
  by (auto simp: matches_def list_all2_Cons1)

lemma matches_short: "length keys < length sigs \<Longrightarrow> \<not> matches valid sigs keys"
  by (auto simp: matches_def dest!: list_all2_lengthD list_emb_length)

lemma matches_Cons:
  "matches valid (s # sigs) (k # keys) \<longleftrightarrow>
    (if valid s k then matches valid sigs keys else matches valid (s # sigs) keys)"
proof -
  have "matches valid (s # sigs) (k # keys) \<longleftrightarrow>
      matches valid (s # sigs) keys \<or> valid s k \<and> matches valid sigs keys"
    by (auto simp: matches_def list_all2_Cons1 dest: subseq_Cons' elim: list_emb.cases)
  moreover have "matches valid sigs keys" if "matches valid (s # sigs) keys"
    using that by (auto simp: matches_def list_all2_Cons1 dest: subseq_Cons')
  ultimately show ?thesis by auto
qed


section \<open>Signatures of a transaction\<close>

text \<open>A signature with its hash type that a key verifies for the input of the engine.\<close>

definition sig_valid :: "env \<Rightarrow> parsedOpcode list \<Rightarrow> Engine \<Rightarrow> byte list \<Rightarrow> byte list \<Rightarrow> bool" where
  "sig_valid E script vm raw key =
     (case ParseDERSignature (take (length raw - 1) raw) of
        Inl _ \<Rightarrow> False
      | Inr sig \<Rightarrow>
          (case ParsePubKey (IsOnCurve E) key of
             Inl _ \<Rightarrow> False
           | Inr pk \<Rightarrow>
               (case calcSignatureHash (SigHashOptimization E) (HashB E) script (raw ! (length raw - 1))
                       (vm_tx vm) (txIdx vm) None of
                  Inl _ \<Rightarrow> False
                | Inr h \<Rightarrow> Signature_Verify E sig h pk)))"

text \<open>A signature whose encoding and hash type are accepted, for an input that it can sign.\<close>

definition raw_ok :: "Engine \<Rightarrow> byte list \<Rightarrow> bool" where
  "raw_ok vm raw \<longleftrightarrow> raw \<noteq> [] \<and>
     checkHashTypeEncoding (raw ! (length raw - 1)) = Inr () \<and>
     checkSignatureEncoding (take (length raw - 1) raw) = Inr () \<and>
     \<not> (raw ! (length raw - 1) AND sigHashMask = SigHashSingle \<and>
        int (length (tx_TxOut (vm_tx vm))) \<le> txIdx vm)"

text \<open>A transaction that remembers no hash but its own.\<close>

definition hash_cached :: "env \<Rightarrow> MsgTx \<Rightarrow> bool" where
  "hash_cached E tx \<longleftrightarrow> (\<forall>h. CachedHash tx = Some h \<longrightarrow> TxHash (HashB E) tx = Inr h)"

lemma calc_cached [simp]:
  "calcSignatureHash opt H ops ht (tx\<lparr>CachedHash := t\<rparr>) idx p = calcSignatureHash opt H ops ht tx idx p"
  by (simp add: calcSignatureHash_def prefix_hash_def committed_outs_def prefix_content_def
      witness_content_def Let_def cong: if_cong)

lemma TxHash_cached [simp]: "TxHash H (tx\<lparr>CachedHash := t\<rparr>) = TxHash H tx"
  by (simp add: TxHash_eq tx_bytes_def prefix_bytes_def serializedVersion_def)

lemma same_tx [simp]:
  "sig_valid E script (vm\<lparr>vm_tx := (vm_tx vm)\<lparr>CachedHash := t\<rparr>\<rparr>) = sig_valid E script vm"
  "raw_ok (vm\<lparr>vm_tx := (vm_tx vm)\<lparr>CachedHash := t\<rparr>\<rparr>) = raw_ok vm"
  by (simp_all add: fun_eq_iff sig_valid_def raw_ok_def cong: sum.case_cong)

text \<open>The hash that a signature check computes does not depend on what the transaction remembers.\<close>

lemma checked_hash:
  assumes "vm_core vm" "hash_cached E (vm_tx vm)"
  obtains p t where "sig_prefix_hash E ht vm = Inr (p, vm\<lparr>vm_tx := (vm_tx vm)\<lparr>CachedHash := t\<rparr>\<rparr>)"
    "hash_cached E ((vm_tx vm)\<lparr>CachedHash := t\<rparr>)"
    "calcSignatureHash opt (HashB E) ops ht (vm_tx vm) (txIdx vm) p =
      calcSignatureHash opt (HashB E) ops ht (vm_tx vm) (txIdx vm) None"
proof (cases "ht AND sigHashMask = SigHashAll \<and> optimizeSigVerification E")
  case True
  define h where "h = HashB E (tx_bytes ((vm_tx vm)\<lparr>SerType := TxSerializeNoWitness\<rparr>))"
  have h: "TxHash (HashB E) (vm_tx vm) = Inr h" by (simp add: TxHash_eq h_def)
  have "sig_prefix_hash E ht vm = Inr (Some h, vm\<lparr>vm_tx := (vm_tx vm)\<lparr>CachedHash := Some h\<rparr>\<rparr>)"
  proof (cases "CachedHash (vm_tx vm)")
    case None
    with True h show ?thesis by (simp add: sig_prefix_hash_def CachedTxHash_def)
  next
    case (Some g)
    with assms(2) h have "g = h" by (simp add: hash_cached_def)
    with Some have "vm\<lparr>vm_tx := (vm_tx vm)\<lparr>CachedHash := Some h\<rparr>\<rparr> = vm" by simp
    with Some \<open>g = h\<close> True show ?thesis by (simp add: sig_prefix_hash_def CachedTxHash_def)
  qed
  moreover have "hash_cached E ((vm_tx vm)\<lparr>CachedHash := Some h\<rparr>)" by (simp add: hash_cached_def h)
  moreover have "typed_ins (vm_tx vm)" "0 \<le> txIdx vm" "txIdx vm < int (length (tx_TxIn (vm_tx vm)))"
    using assms(1) by (simp_all add: vm_core_def)
  note cached_prefix_sound [OF this h]
  ultimately show thesis using that by blast
next
  case False
  then show thesis
    using that [of None "CachedHash (vm_tx vm)"] assms(2) by (auto simp: sig_prefix_hash_def)
qed


section \<open>The loop\<close>

definition parsed_sig :: "byte list \<Rightarrow> Signature option" where
  "parsed_sig raw = (case ParseDERSignature (take (length raw - 1) raw) of Inl _ \<Rightarrow> None | Inr s \<Rightarrow> Some s)"

lemma parse_next_ok:
  assumes "raw_ok vm raw" "parsed = None \<or> parsed = Some (parsed_sig raw)"
  shows "parse_next raw parsed = Inr (parsed_sig raw)"
proof -
  have "parse_next raw None = Inr (parsed_sig raw)"
    using assms(1) checked_signature(1) [of "take (length raw - 1) raw"]
    unfolding parse_next_def ec_case
    by (auto simp: raw_ok_def parsed_sig_def split: sum.split)
  with assms(2) show ?thesis by (auto simp: parse_next_def)
qed

lemma valid_parsed:
  "sig_valid E script vm raw key \<Longrightarrow> \<exists>sig pk. parsed_sig raw = Some sig \<and> ParsePubKey (IsOnCurve E) key = Inr pk"
  by (auto simp: sig_valid_def parsed_sig_def split: sum.splits)

lemma matches_invalid:
  "(\<And>k. \<not> valid s k) \<Longrightarrow> \<not> matches valid (s # sigs) keys"
  by (auto simp: matches_def list_all2_Cons1)

lemma raw_ok_hash:
  assumes "vm_core vm" "raw_ok vm raw"
  shows "\<exists>h. calcSignatureHash opt H ops (raw ! (length raw - 1)) (vm_tx vm) (txIdx vm) p = Inr h"
proof -
  define ht where "ht = raw ! (length raw - 1)"
  have "typed_ins (vm_tx vm)" "0 \<le> txIdx vm" "txIdx vm < int (length (tx_TxIn (vm_tx vm)))"
    and "\<not> (ht AND sigHashMask = SigHashSingle \<and> txIdx vm \<ge> int (length (tx_TxOut (vm_tx vm))))"
    using assms by (auto simp: vm_core_def raw_ok_def ht_def)
  note eq = calcSignatureHash_eq [OF this, of opt H ops p]
  obtain ins k where "committed_ins ht (vm_tx vm) (txIdx vm) = (ins, k)" by fastforce
  with eq show ?thesis unfolding ht_def [symmetric] by (auto simp: Let_def)
qed

lemma loop_matches:
  assumes "vm_core vm" "hash_cached E (vm_tx vm)" "sigCache vm = None"
    and "list_all (raw_ok vm) sigs" "list_all (\<lambda>key. checkPubKeyEncoding key = Inr ()) keys"
    and "parsed = None \<or> parsed = Some (parsed_sig (hd sigs))"
  shows "\<exists>vm'. multisig_loop E script sigs parsed keys vm =
      Inr (matches (sig_valid E script vm) sigs keys, vm') \<and> dstack vm' = dstack vm"
  using assms
proof (induction keys arbitrary: sigs parsed vm)
  case Nil
  then show ?case by (cases sigs) auto
next
  case (Cons key keys)
  define go where "go = multisig_loop E script"
  define valid where "valid = sig_valid E script vm"
  show ?case
  proof (cases sigs)
    case sigs: (Cons raw rest)
    have keys: "list_all (\<lambda>key. checkPubKeyEncoding key = Inr ()) keys" "checkPubKeyEncoding key = Inr ()"
      and raw: "raw_ok vm raw" "list_all (raw_ok vm) rest"
      using Cons.prems(4,5) sigs by simp_all
    have later: "\<exists>vm'. go s q keys (vm\<lparr>vm_tx := (vm_tx vm)\<lparr>CachedHash := t\<rparr>\<rparr>) =
          Inr (matches valid s keys, vm') \<and> dstack vm' = dstack vm"
      if "hash_cached E ((vm_tx vm)\<lparr>CachedHash := t\<rparr>)" "list_all (raw_ok vm) s"
        "q = None \<or> q = Some (parsed_sig (hd s))" for s q t
      using Cons.IH [of "vm\<lparr>vm_tx := (vm_tx vm)\<lparr>CachedHash := t\<rparr>\<rparr>" s q] Cons.prems(1,3) keys(1) that
      by (simp add: go_def valid_def)
    have again: "\<exists>vm'. go (raw # rest) (Some (parsed_sig raw)) keys vm =
          Inr (matches valid (raw # rest) keys, vm') \<and> dstack vm' = dstack vm"
      using later [of "CachedHash (vm_tx vm)" "raw # rest" "Some (parsed_sig raw)"] Cons.prems(2) raw by simp
    have parse: "parse_next raw parsed = Inr (parsed_sig raw)" "raw \<noteq> []"
      using parse_next_ok [OF raw(1)] Cons.prems(6) raw(1) by (auto simp: sigs raw_ok_def)
    have m: "matches valid (raw # rest) (key # keys) =
        (if valid raw key then matches valid rest keys else matches valid (raw # rest) keys)"
      by (rule matches_Cons)
    consider (short) "length (raw # rest) > length (key # keys)"
      | (skip) "\<not> length (raw # rest) > length (key # keys)"
          "parsed_sig raw = None \<or> (\<exists>e. ParsePubKey (IsOnCurve E) key = Inl e)"
      | (check) sig pk where "\<not> length (raw # rest) > length (key # keys)" "parsed_sig raw = Some sig"
          "ParsePubKey (IsOnCurve E) key = Inr pk"
      by (cases "parsed_sig raw"; cases "ParsePubKey (IsOnCurve E) key") auto
    then show ?thesis
    proof cases
      case short
      then show ?thesis
        using matches_short [of "key # keys" "raw # rest" valid]
        by (simp add: sigs valid_def [symmetric] multisig_loop_Cons del: multisig_loop.simps)
    next
      case skip
      then have "\<not> valid raw key" using valid_parsed by (fastforce simp: valid_def)
      moreover have "go (raw # rest) parsed (key # keys) vm = go (raw # rest) (Some (parsed_sig raw)) keys vm"
        using skip parse keys(2) by (cases "parsed_sig raw") (auto simp: go_def multisig_loop_Cons simp del: multisig_loop.simps)
      ultimately show ?thesis using again m by (simp add: sigs valid_def [symmetric] go_def [symmetric])
    next
      case check
      obtain p t where t: "sig_prefix_hash E (raw ! (length raw - 1)) vm =
          Inr (p, vm\<lparr>vm_tx := (vm_tx vm)\<lparr>CachedHash := t\<rparr>\<rparr>)"
          "hash_cached E ((vm_tx vm)\<lparr>CachedHash := t\<rparr>)"
        and p: "calcSignatureHash (SigHashOptimization E) (HashB E) script (raw ! (length raw - 1)) (vm_tx vm)
            (txIdx vm) p =
          calcSignatureHash (SigHashOptimization E) (HashB E) script (raw ! (length raw - 1)) (vm_tx vm)
            (txIdx vm) None"
        by (rule checked_hash [OF Cons.prems(1,2)])
      obtain h where h: "calcSignatureHash (SigHashOptimization E) (HashB E) script (raw ! (length raw - 1))
          (vm_tx vm) (txIdx vm) None = Inr h"
        using raw_ok_hash [OF Cons.prems(1) raw(1)] by blast
      define v where "v = vm\<lparr>vm_tx := (vm_tx vm)\<lparr>CachedHash := t\<rparr>\<rparr>"
      have "valid raw key = Signature_Verify E sig h pk"
        using check h by (auto simp: valid_def sig_valid_def parsed_sig_def split: sum.splits)
      moreover have "go (raw # rest) parsed (key # keys) vm =
          (if Signature_Verify E sig h pk then go rest None keys v else go (raw # rest) (Some (Some sig)) keys v)"
        using check parse keys(2) t(1) p h Cons.prems(3)
        by (simp add: go_def multisig_loop_Cons verify_cached_none v_def del: multisig_loop.simps)
      ultimately show ?thesis
        using later [OF t(2), of rest None] later [OF t(2), of "raw # rest" "Some (Some sig)"] raw check(2) m
        by (simp add: sigs valid_def [symmetric] go_def [symmetric] v_def)
    qed
  qed simp
qed


lemma pop_items_append: "pop_items (length xs) (s @ xs) = Inr (rev xs, s)"
proof (induction xs arbitrary: s rule: rev_induct)
  case (snoc x xs)
  then show ?case using PopByteArray_snoc [of "s @ xs" x] by simp
qed simp

lemma subseq_rev: "subseq xs ys \<Longrightarrow> subseq (rev xs) (rev ys)"
  by (induction rule: list_emb.induct) (auto intro: subseq_rev_drop_many list_emb_append_mono)

lemma matches_rev: "matches valid (rev sigs) (rev keys) = matches valid sigs keys"
proof -
  have "matches valid (rev sigs) (rev keys)" if "matches valid sigs keys" for valid :: "'a \<Rightarrow> 'b \<Rightarrow> bool" and sigs keys
  proof -
    from that obtain ks where "subseq ks keys" "list_all2 valid sigs ks" by (auto simp: matches_def)
    then show ?thesis by (auto simp: matches_def list_all2_rev intro!: exI [of _ "rev ks"] subseq_rev)
  qed
  from this [of valid sigs keys] this [of valid "rev sigs" "rev keys"] show ?thesis by auto
qed

lemma PopInt_push: "makeScriptNum x k = Inr n \<Longrightarrow> PopInt k (s @ [x]) = Inr (n, s)"
  by (simp add: PopInt_def)

lemma Int32_small: "0 \<le> n \<Longrightarrow> n \<le> 20 \<Longrightarrow> scriptNum_Int32 n = n"
  by (simp add: scriptNum_Int32_def maxInt32_def minInt32_def)

lemma same_input [simp]:
  "sig_valid E script (vm\<lparr>numOps := n, dstack := s\<rparr>) = sig_valid E script vm"
  "raw_ok (vm\<lparr>numOps := n, dstack := s\<rparr>) = raw_ok vm"
  by (simp_all add: fun_eq_iff sig_valid_def raw_ok_def cong: sum.case_cong)

section \<open>Properties\<close>

text \<open>
  C2: \<open>OP_CHECKMULTISIG\<close> decides threshold signatures.  With well-formed
  signatures and keys on the stack, it replaces them and the two counts by true
  if and only if each signature can be assigned to a key that verifies it, to
  different keys in the order of the stack; trying the keys greedily misses no
  assignment.
\<close>

theorem multisig_matching:
  assumes "vm_core vm" and "hash_cached E (vm_tx vm)" and "sigCache vm = None"
    and "dstack vm = s @ sigs @ [m] @ keys @ [n]"
    and "makeScriptNum n 4 = Inr (int (length keys))" and "makeScriptNum m 4 = Inr (int (length sigs))"
    and "length sigs \<le> length keys" and "length keys \<le> 20"
    and "numOps vm + int (length keys) \<le> MaxOpsPerScript"
    and "list_all (raw_ok vm) sigs" and "list_all (\<lambda>key. checkPubKeyEncoding key = Inr ()) keys"
  shows "\<exists>vm'. opcodeCheckMultiSig E op vm = Inr vm' \<and>
    dstack vm' = s @ [fromBool (\<exists>ks. subseq ks keys \<and> list_all2 (sig_valid E
      (fold (\<lambda>sig scr. removeOpcodeByData scr sig) (rev sigs) (scripts vm ! scriptIdx vm)) vm) sigs ks)]"
proof -
  define script where "script = fold (\<lambda>sig scr. removeOpcodeByData scr sig) (rev sigs) (scripts vm ! scriptIdx vm)"
  define v where "v = vm\<lparr>numOps := numOps vm + int (length keys), dstack := s\<rparr>"
  have v: "vm_core v" "hash_cached E (vm_tx v)" "sigCache v = None"
    using assms(1-4,9) by (simp_all add: v_def vm_core_def)
  have "\<exists>vm'. multisig_loop E script (rev sigs) None (rev keys) v =
      Inr (matches (sig_valid E script v) (rev sigs) (rev keys), vm') \<and> dstack vm' = dstack v"
    using assms(10,11) by (intro loop_matches v) (simp_all add: v_def)
  then obtain vm' where loop: "multisig_loop E script (rev sigs) None (rev keys) v =
      Inr (matches (sig_valid E script vm) sigs keys, vm')" "dstack vm' = s"
    by (auto simp: matches_rev v_def)
  have num: "PopInt mathLen (s @ sigs @ [m] @ keys @ [n]) = Inr (int (length keys), s @ sigs @ [m] @ keys)"
      "PopInt mathLen (s @ sigs @ [m]) = Inr (int (length sigs), s @ sigs)"
    using PopInt_push [OF assms(5), of "s @ sigs @ [m] @ keys"] PopInt_push [OF assms(6), of "s @ sigs"]
    by (simp_all add: mathOpCodeMaxScriptNumLen_def)
  have pops: "pop_items (length keys) (s @ sigs @ [m] @ keys) = Inr (rev keys, s @ sigs @ [m])"
      "pop_items (length sigs) (s @ sigs) = Inr (rev sigs, s)"
    using pop_items_append [of keys "s @ sigs @ [m]"] pop_items_append [of sigs s] by simp_all
  have "opcodeCheckMultiSig E op vm = push_bool (matches (sig_valid E script vm) sigs keys) vm'"
    unfolding opcodeCheckMultiSig_def assms(4) num bindE_Inr prod.case Let_def
    using assms(7-9) loop(1) subScript_ok [OF v(1)]
    by (simp add: Int32_small num [simplified] pops [simplified] MaxPubKeysPerMultiSig_def script_def v_def)
  then show ?thesis
    by (simp add: push_bool_def PushBool_def PushByteArray_def loop(2) matches_def script_def)
qed


definition ex_key :: "byte list" where
  "ex_key = 0x04 # (replicate 31 0 @ [1]) @ (replicate 31 0 @ [1])"

definition ex_sig :: "byte list" where
  "ex_sig = [0x30, 6, 2, 1, 1, 2, 1, 1, 0x01]"

definition ex_pop :: parsedOpcode where
  "ex_pop = \<lparr>pop_opcode = opcodeArray OP_CHECKMULTISIG, pop_data = []\<rparr>"

definition ex_vm :: Engine where
  "ex_vm = \<lparr>scripts = [[ex_pop]], savedFirstStack = [], sigCache = None, scriptIdx = 0, scriptOff = 0,
     lastCodeSep = 0, dstack = [[7], ex_sig, [1], ex_key, ex_key, [2]], astack = [], vm_tx = ex_tx, txIdx = 0,
     condStack = [], numOps = 1, vm_flags = 0, vm_version = 0, bip16 = False\<rparr>"

theorem multisig_matching_witness:
  "\<exists>vm'. opcodeCheckMultiSig ex_env ex_pop ex_vm = Inr vm' \<and> dstack vm' = [[7], [1]]"
proof -
  have pre: "vm_core ex_vm" "sigCache ex_vm = None" "CachedHash (vm_tx ex_vm) = None"
      "dstack ex_vm = [[7]] @ [ex_sig] @ [[1]] @ [ex_key, ex_key] @ [[2]]"
      "makeScriptNum [2] 4 = Inr (int (length [ex_key, ex_key]))"
      "makeScriptNum [1] 4 = Inr (int (length [ex_sig]))"
      "length [ex_sig] \<le> length [ex_key, ex_key]" "length [ex_key, ex_key] \<le> 20"
      "numOps ex_vm + int (length [ex_key, ex_key]) \<le> MaxOpsPerScript"
      "list_all (raw_ok ex_vm) [ex_sig]"
      "list_all (\<lambda>key. checkPubKeyEncoding key = Inr ()) [ex_key, ex_key]"
    by code_simp+
  have cached: "hash_cached ex_env (vm_tx ex_vm)" using pre(3) by (simp add: hash_cached_def)
  define script where
    "script = fold (\<lambda>sig scr. removeOpcodeByData scr sig) (rev [ex_sig]) (scripts ex_vm ! scriptIdx ex_vm)"
  obtain h where "calcSignatureHash (SigHashOptimization ex_env) (HashB ex_env) script
      (ex_sig ! (length ex_sig - 1)) (vm_tx ex_vm) (txIdx ex_vm) None = Inr h"
    using raw_ok_hash [OF pre(1), of ex_sig] pre(10) unfolding list.pred_inject by blast
  moreover have "ParseDERSignature (take (length ex_sig - 1) ex_sig) = Inr \<lparr>sig_R = 1, sig_S = 1\<rparr>"
    "ParsePubKey (IsOnCurve ex_env) ex_key = Inr \<lparr>key_X = 1, key_Y = 1\<rparr>"
    by code_simp+
  ultimately have "sig_valid ex_env script ex_vm ex_sig ex_key"
    unfolding sig_valid_def by (simp only: sum.case) (simp add: Signature_Verify_def ex_env_def)
  then have "\<exists>ks. subseq ks [ex_key, ex_key] \<and> list_all2 (sig_valid ex_env script ex_vm) [ex_sig] ks"
    by (intro exI [of _ "[ex_key]"]) simp
  then show ?thesis
    using multisig_matching [OF pre(1) cached pre(2,4-11), of ex_pop]
    by (simp add: script_def fromBool_def)
qed

end
