(* ===== verification/Address.thy ===== *)
theory Address
  imports EngineState
begin

text \<open>
  Addresses, after \<open>src/fnoutil/address.go\<close>: the five kinds of destination,
  their constructors, what they put into a script, and their encoding as
  strings with the identifiers of the networks of \<open>src/chaincfg\<close>.

  Base 58 with a checksum comes from a package outside the sources and is a pair of
  fields of the record \<open>addr_env\<close>, which extends the cryptographic functions by
  it and by the serialization of Ed25519 keys.
\<close>

unbundle bit_operations_syntax

section \<open>Networks\<close>

record AddressParams =
  NetworkAddressPrefix :: string
  PubKeyAddrID :: "byte list"
  PubKeyHashAddrID :: "byte list"
  PKHEdwardsAddrID :: "byte list"
  PKHSchnorrAddrID :: "byte list"
  ScriptHashAddrID :: "byte list"

definition MainNetParams :: AddressParams where
  "MainNetParams =
     \<lparr>NetworkAddressPrefix = ''F'', PubKeyAddrID = [0x15, 0x86], PubKeyHashAddrID = [0x08, 0x3f],
      PKHEdwardsAddrID = [0x08, 0x1f], PKHSchnorrAddrID = [0x08, 0x01], ScriptHashAddrID = [0x08, 0x1a]\<rparr>"

definition TestNetParams :: AddressParams where
  "TestNetParams =
     \<lparr>NetworkAddressPrefix = ''T'', PubKeyAddrID = [0x28, 0xf7], PubKeyHashAddrID = [0x0f, 0x21],
      PKHEdwardsAddrID = [0x0f, 0x01], PKHSchnorrAddrID = [0x0e, 0xe3], ScriptHashAddrID = [0x0e, 0xfc]\<rparr>"

definition SimNetParams :: AddressParams where
  "SimNetParams =
     \<lparr>NetworkAddressPrefix = ''S'', PubKeyAddrID = [0x27, 0x6f], PubKeyHashAddrID = [0x0e, 0x91],
      PKHEdwardsAddrID = [0x0e, 0x71], PKHSchnorrAddrID = [0x0e, 0x53], ScriptHashAddrID = [0x0e, 0x6c]\<rparr>"

definition RegNetParams :: AddressParams where
  "RegNetParams =
     \<lparr>NetworkAddressPrefix = ''R'', PubKeyAddrID = [0x25, 0xe5], PubKeyHashAddrID = [0x0e, 0x00],
      PKHEdwardsAddrID = [0x0d, 0xe0], PKHSchnorrAddrID = [0x0d, 0xc2], ScriptHashAddrID = [0x0d, 0xdb]\<rparr>"

section \<open>Addresses\<close>

datatype base58_error = ErrChecksum | ErrInvalidFormat

record addr_env = env +
  edwards_Serialize :: "PublicKey \<Rightarrow> byte list"
  CheckEncode :: "byte list \<Rightarrow> byte list \<Rightarrow> string"
  CheckDecode :: "string \<Rightarrow> base58_error + byte list \<times> byte list"

datatype addr_error =
    ErrChecksumMismatch
  | ErrUnknownAddressType
  | ErrInvalidPubKeyFormat
  | AddrErr string
  | KeyErr ec_error

datatype PubKeyFormat = PKFUncompressed | PKFCompressed

datatype Address =
    AddressPubKeyHash AddressParams "byte list" "byte list"
  | AddressScriptHash AddressParams "byte list" "byte list"
  | AddressSecpPubKey AddressParams PubKeyFormat PublicKey "byte list"
  | AddressEdwardsPubKey AddressParams PublicKey "byte list"
  | AddressSecSchnorrPubKey AddressParams PublicKey "byte list"

definition Hash160 :: "('a env_scheme) \<Rightarrow> byte list \<Rightarrow> byte list" where
  "Hash160 E buf = ripemd160 E (HashB E buf)"

definition newAddressPubKeyHash :: "AddressParams \<Rightarrow> byte list \<Rightarrow> byte list \<Rightarrow> addr_error + Address" where
  "newAddressPubKeyHash net pkHash netID =
     (if length pkHash \<noteq> 20 then Inl (AddrErr ''pkHash must be 20 bytes'')
      else Inr (AddressPubKeyHash net pkHash netID))"

definition NewAddressPubKeyHash :: "byte list \<Rightarrow> AddressParams \<Rightarrow> int \<Rightarrow> addr_error + Address" where
  "NewAddressPubKeyHash pkHash net algo =
     (if algo = STEcdsaSecp256k1 then newAddressPubKeyHash net pkHash (PubKeyHashAddrID net)
      else if algo = STEd25519 then newAddressPubKeyHash net pkHash (PKHEdwardsAddrID net)
      else if algo = STSchnorrSecp256k1 then newAddressPubKeyHash net pkHash (PKHSchnorrAddrID net)
      else Inl (AddrErr ''unknown ECDSA algorithm''))"

definition newAddressScriptHashFromHash ::
  "AddressParams \<Rightarrow> byte list \<Rightarrow> byte list \<Rightarrow> addr_error + Address" where
  "newAddressScriptHashFromHash net scriptHash netID =
     (if length scriptHash \<noteq> 20 then Inl (AddrErr ''scriptHash must be 20 bytes'')
      else Inr (AddressScriptHash net scriptHash netID))"

definition NewAddressScriptHashFromHash :: "byte list \<Rightarrow> AddressParams \<Rightarrow> addr_error + Address" where
  "NewAddressScriptHashFromHash scriptHash net =
     newAddressScriptHashFromHash net scriptHash (ScriptHashAddrID net)"

definition NewAddressScriptHash ::
  "'a env_scheme \<Rightarrow> byte list \<Rightarrow> AddressParams \<Rightarrow> addr_error + Address" where
  "NewAddressScriptHash E serializedScript net =
     newAddressScriptHashFromHash net (Hash160 E serializedScript) (ScriptHashAddrID net)"

text \<open>Errors of the key parsers are passed on.\<close>

definition parse_key :: "'a env_scheme \<Rightarrow> byte list \<Rightarrow> addr_error + PublicKey" where
  "parse_key E b = (case ParsePubKey (IsOnCurve E) b of Inl e \<Rightarrow> Inl (KeyErr e) | Inr k \<Rightarrow> Inr k)"

definition NewAddressSecpPubKey ::
  "'a env_scheme \<Rightarrow> byte list \<Rightarrow> AddressParams \<Rightarrow> addr_error + Address" where
  "NewAddressSecpPubKey E serializedPubKey net =
     bindE (parse_key E serializedPubKey) (\<lambda>pubKey.
     let b = serializedPubKey ! 0 in
     if b = 0x02 \<or> b = 0x03
     then Inr (AddressSecpPubKey net PKFCompressed pubKey (PubKeyHashAddrID net))
     else if b = 0x04
     then Inr (AddressSecpPubKey net PKFUncompressed pubKey (PubKeyHashAddrID net))
     else Inl ErrInvalidPubKeyFormat)"

definition NewAddressSecpPubKeyCompressed ::
  "'a env_scheme \<Rightarrow> PublicKey \<Rightarrow> AddressParams \<Rightarrow> addr_error + Address" where
  "NewAddressSecpPubKeyCompressed E pubkey params =
     NewAddressSecpPubKey E (SerializeCompressed pubkey) params"

definition NewAddressEdwardsPubKey ::
  "'a env_scheme \<Rightarrow> byte list \<Rightarrow> AddressParams \<Rightarrow> addr_error + Address" where
  "NewAddressEdwardsPubKey E serializedPubKey net =
     (case edwards_ParsePubKey E serializedPubKey of
        None \<Rightarrow> Inl (AddrErr ''invalid Edwards key'')
      | Some pubKey \<Rightarrow> Inr (AddressEdwardsPubKey net pubKey (PKHEdwardsAddrID net)))"

text \<open>\<open>ParsePubKey\<close> of \<open>src/fnoec/secp256k1/schnorr/pubkey.go\<close>\<close>

definition SchnorrParsePubKey :: "'a env_scheme \<Rightarrow> byte list \<Rightarrow> addr_error + PublicKey" where
  "SchnorrParsePubKey E pubKeyStr =
     (if length pubKeyStr \<noteq> PubKeyBytesLenCompressed
      then Inl (AddrErr ''bad pubkey byte string size'')
      else if pubKeyStr ! 0 AND NOT 0x1 \<noteq> pubkeyCompressed
      then Inl (AddrErr ''wrong pubkey type (not compressed)'')
      else parse_key E pubKeyStr)"

definition NewAddressSecSchnorrPubKey ::
  "'a env_scheme \<Rightarrow> byte list \<Rightarrow> AddressParams \<Rightarrow> addr_error + Address" where
  "NewAddressSecSchnorrPubKey E serializedPubKey net =
     bindE (SchnorrParsePubKey E serializedPubKey) (\<lambda>pubKey.
     Inr (AddressSecSchnorrPubKey net pubKey (PKHSchnorrAddrID net)))"

section \<open>Methods\<close>

text \<open>\<open>serialize\<close> of the key addresses, and the hash of the others\<close>

fun ScriptAddress :: "addr_env \<Rightarrow> Address \<Rightarrow> byte list" where
  "ScriptAddress E (AddressPubKeyHash net h netID) = h"
| "ScriptAddress E (AddressScriptHash net h netID) = h"
| "ScriptAddress E (AddressSecpPubKey net PKFUncompressed key netID) = SerializeUncompressed key"
| "ScriptAddress E (AddressSecpPubKey net PKFCompressed key netID) = SerializeCompressed key"
| "ScriptAddress E (AddressEdwardsPubKey net key netID) = edwards_Serialize E key"
| "ScriptAddress E (AddressSecSchnorrPubKey net key netID) = PublicKey_Serialize key"

fun addr_Hash160 :: "addr_env \<Rightarrow> Address \<Rightarrow> byte list" where
  "addr_Hash160 E (AddressPubKeyHash net h netID) = h"
| "addr_Hash160 E (AddressScriptHash net h netID) = h"
| "addr_Hash160 E (AddressSecpPubKey net fmt key netID) =
     copy_array 20 (Hash160 E (SerializeCompressed key))"
| "addr_Hash160 E (AddressEdwardsPubKey net key netID) =
     copy_array 20 (Hash160 E (edwards_Serialize E key))"
| "addr_Hash160 E (AddressSecSchnorrPubKey net key netID) =
     copy_array 20 (Hash160 E (PublicKey_Serialize key))"

fun IsForNet :: "Address \<Rightarrow> AddressParams \<Rightarrow> bool" where
  "IsForNet (AddressPubKeyHash _ h netID) net \<longleftrightarrow>
     netID = PubKeyHashAddrID net \<or> netID = PKHEdwardsAddrID net \<or> netID = PKHSchnorrAddrID net"
| "IsForNet (AddressScriptHash _ h netID) net \<longleftrightarrow> netID = ScriptHashAddrID net"
| "IsForNet (AddressSecpPubKey _ fmt key netID) net \<longleftrightarrow> netID = PubKeyHashAddrID net"
| "IsForNet (AddressEdwardsPubKey _ key netID) net \<longleftrightarrow> netID = PKHEdwardsAddrID net"
| "IsForNet (AddressSecSchnorrPubKey _ key netID) net \<longleftrightarrow> netID = PubKeyHashAddrID net"

fun DSA :: "Address \<Rightarrow> AddressParams \<Rightarrow> int" where
  "DSA (AddressPubKeyHash _ h netID) net =
     (if netID = PubKeyHashAddrID net then STEcdsaSecp256k1
      else if netID = PKHEdwardsAddrID net then STEd25519
      else if netID = PKHSchnorrAddrID net then STSchnorrSecp256k1 else -1)"
| "DSA (AddressScriptHash _ h netID) net = -1"
| "DSA (AddressSecpPubKey _ fmt key netID) net =
     (if netID = PubKeyHashAddrID net then STEcdsaSecp256k1
      else if netID = PKHSchnorrAddrID net then STSchnorrSecp256k1 else -1)"
| "DSA (AddressEdwardsPubKey _ key netID) net = STEd25519"
| "DSA (AddressSecSchnorrPubKey _ key netID) net = STSchnorrSecp256k1"

fun Net :: "Address \<Rightarrow> AddressParams" where
  "Net (AddressPubKeyHash net h netID) = net"
| "Net (AddressScriptHash net h netID) = net"
| "Net (AddressSecpPubKey net fmt key netID) = net"
| "Net (AddressEdwardsPubKey net key netID) = net"
| "Net (AddressSecSchnorrPubKey net key netID) = net"

text \<open>\<open>AddressPubKeyHash()\<close> of the three key addresses; the others have no such method.\<close>

fun as_pubkey_hash :: "addr_env \<Rightarrow> Address \<Rightarrow> Address option" where
  "as_pubkey_hash E (AddressSecpPubKey net fmt key netID) =
     Some (AddressPubKeyHash net
       (copy_array 20 (Hash160 E (ScriptAddress E (AddressSecpPubKey net fmt key netID)))) netID)"
| "as_pubkey_hash E (AddressEdwardsPubKey net key netID) =
     Some (AddressPubKeyHash net (copy_array 20 (Hash160 E (edwards_Serialize E key))) netID)"
| "as_pubkey_hash E (AddressSecSchnorrPubKey net key netID) =
     Some (AddressPubKeyHash net (copy_array 20 (Hash160 E (PublicKey_Serialize key))) netID)"
| "as_pubkey_hash E _ = None"

section \<open>Strings\<close>

definition encodeAddress :: "addr_env \<Rightarrow> byte list \<Rightarrow> byte list \<Rightarrow> string" where
  "encodeAddress E hash160 netID = CheckEncode E (take 20 hash160) netID"

definition encodePKAddress :: "addr_env \<Rightarrow> byte list \<Rightarrow> byte list \<Rightarrow> int \<Rightarrow> string" where
  "encodePKAddress E serializedPK netID algo =
     (let suite = (if algo = STEcdsaSecp256k1 \<or> algo = STEd25519 \<or> algo = STSchnorrSecp256k1
                   then word_of_int algo else 0 :: byte)
      in
      if algo = STEcdsaSecp256k1 \<or> algo = STSchnorrSecp256k1 then
        case parse_key E serializedPK of
          Inl _ \<Rightarrow> ''''
        | Inr pub \<Rightarrow>
            let pubSerComp = SerializeCompressed pub;
                suite = (if pubSerComp ! 0 = 0x03 then suite OR 0x80 else suite)
            in CheckEncode E (suite # drop 1 pubSerComp) netID
      else CheckEncode E (suite # serializedPK) netID)"

fun EncodeAddress :: "addr_env \<Rightarrow> Address \<Rightarrow> string" where
  "EncodeAddress E (AddressPubKeyHash net h netID) = encodeAddress E h netID"
| "EncodeAddress E (AddressScriptHash net h netID) = encodeAddress E h netID"
| "EncodeAddress E (AddressSecpPubKey net fmt key netID) =
     encodeAddress E (Hash160 E (ScriptAddress E (AddressSecpPubKey net fmt key netID))) netID"
| "EncodeAddress E (AddressEdwardsPubKey net key netID) =
     encodeAddress E (Hash160 E (edwards_Serialize E key)) netID"
| "EncodeAddress E (AddressSecSchnorrPubKey net key netID) =
     encodeAddress E (Hash160 E (PublicKey_Serialize key)) netID"

fun addr_String :: "addr_env \<Rightarrow> Address \<Rightarrow> string" where
  "addr_String E (AddressPubKeyHash net h netID) = EncodeAddress E (AddressPubKeyHash net h netID)"
| "addr_String E (AddressScriptHash net h netID) = EncodeAddress E (AddressScriptHash net h netID)"
| "addr_String E (AddressSecpPubKey net fmt key netID) =
     encodePKAddress E (ScriptAddress E (AddressSecpPubKey net fmt key netID)) (PubKeyAddrID net)
       STEcdsaSecp256k1"
| "addr_String E (AddressEdwardsPubKey net key netID) =
     encodePKAddress E (edwards_Serialize E key) (PubKeyAddrID net) STEd25519"
| "addr_String E (AddressSecSchnorrPubKey net key netID) =
     encodePKAddress E (PublicKey_Serialize key) (PubKeyAddrID net) STSchnorrSecp256k1"

definition NewAddressPubKey :: "addr_env \<Rightarrow> byte list \<Rightarrow> AddressParams \<Rightarrow> addr_error + Address" where
  "NewAddressPubKey E decoded net =
     (if length decoded = 33 then
        let suite = decoded ! 0 AND NOT 0x80;
            ybit = (decoded ! 0 AND 0x80 \<noteq> 0);
            toAppend = (if ybit then 0x03 else 0x02 :: byte)
        in
        if uint suite = STEcdsaSecp256k1 then NewAddressSecpPubKey E (toAppend # drop 1 decoded) net
        else if uint suite = STEd25519 then NewAddressEdwardsPubKey E decoded net
        else if uint suite = STSchnorrSecp256k1
        then NewAddressSecSchnorrPubKey E (toAppend # drop 1 decoded) net
        else Inl ErrUnknownAddressType
      else Inl ErrUnknownAddressType)"

definition detectNetworkForAddress :: "string \<Rightarrow> AddressParams option" where
  "detectNetworkForAddress addr =
     (if length addr < 1 then None
      else
        let networkChar = take 1 addr in
        if networkChar = NetworkAddressPrefix MainNetParams then Some MainNetParams
        else if networkChar = NetworkAddressPrefix TestNetParams then Some TestNetParams
        else if networkChar = NetworkAddressPrefix SimNetParams then Some SimNetParams
        else if networkChar = NetworkAddressPrefix RegNetParams then Some RegNetParams
        else None)"

definition DecodeAddress :: "addr_env \<Rightarrow> string \<Rightarrow> addr_error + Address" where
  "DecodeAddress E addr =
     (case CheckDecode E addr of
        Inl ErrChecksum \<Rightarrow> Inl ErrChecksumMismatch
      | Inl _ \<Rightarrow> Inl (AddrErr ''decoded address is of unknown format'')
      | Inr (decoded, netID) \<Rightarrow>
          (case detectNetworkForAddress addr of
             None \<Rightarrow> Inl ErrUnknownAddressType
           | Some net \<Rightarrow>
               if netID = PubKeyAddrID net then NewAddressPubKey E decoded net
               else if netID = PubKeyHashAddrID net
               then NewAddressPubKeyHash decoded net STEcdsaSecp256k1
               else if netID = PKHEdwardsAddrID net then NewAddressPubKeyHash decoded net STEd25519
               else if netID = PKHSchnorrAddrID net
               then NewAddressPubKeyHash decoded net STSchnorrSecp256k1
               else if netID = ScriptHashAddrID net then NewAddressScriptHashFromHash decoded net
               else Inl ErrUnknownAddressType))"

section \<open>Compressed keys\<close>

lemma split_zeros: "\<exists>n y. x = replicate n (0 :: byte) @ y \<and> (y = [] \<or> y ! 0 \<noteq> 0)"
proof (induction x)
  case (Cons b x)
  then obtain n y where "x = replicate n 0 @ y" "y = [] \<or> y ! 0 \<noteq> 0" by blast
  then show ?case
    by (cases "b = 0") (metis append_Cons replicate_Suc, metis append_Nil nth_Cons_0 replicate_0)
qed simp

lemma SetBytes_zeros: "SetBytes (replicate n 0 @ y) = SetBytes y"
  by (induction n) simp_all

lemma big_Bytes_padded: "replicate (length x - length (big_Bytes (SetBytes x))) 0 @ big_Bytes (SetBytes x) = x"
proof -
  obtain n y where x: "x = replicate n (0 :: byte) @ y" "y = [] \<or> y ! 0 \<noteq> 0"
    using split_zeros by blast
  have "big_Bytes (SetBytes y) = y"
    using x(2) big_Bytes_SetBytes [of y]
    by (cases "y = []") (simp_all add: big_Bytes_def SetBytes_def of_be_bytes_def)
  then show ?thesis by (simp add: x(1) SetBytes_zeros)
qed

lemma compressed_format: "(f :: byte) AND NOT 0x1 = 2 \<longleftrightarrow> f = 2 \<or> f = 3"
proof
  assume "f AND NOT 0x1 = 2"
  moreover have "f = (f AND NOT 0x1) OR (f AND 0x1)" by (simp flip: bit.conj_disj_distrib)
  moreover have "f AND 0x1 = 0 \<or> f AND 0x1 = 1" by (simp add: and_one_eq mod_2_eq_odd)
  ultimately show "f = 2 \<or> f = 3" by auto
qed auto

lemma decompress_parity: "decompressPoint x ybit = Inr y \<Longrightarrow> isOdd y = ybit"
  by (auto simp: decompressPoint_def Let_def split: if_splits)

lemma parse_key_compressed:
  assumes "parse_key E b = Inr k" "length b = 33"
  shows "SerializeCompressed k = b" "b ! 0 = 2 \<or> b ! 0 = 3"
proof -
  obtain f x where b: "b = f # x" "length x = 32" using assms(2) by (cases b) auto
  have p: "ParsePubKey (IsOnCurve E) b = Inr k"
    using assms(1) by (auto simp: parse_key_def split: sum.splits)
  then have f: "f = 2 \<or> f = 3" and d: "decompressPoint (SetBytes x) (f AND 1 = 1) = Inr (key_Y k)"
    and kx: "key_X k = SetBytes x"
    using b by (auto simp: ParsePubKey_def PubKeyBytesLenUncompressed_def PubKeyBytesLenCompressed_def
        pubkeyCompressed_def bindE_eq_Inr_iff compressed_format [simplified] Let_def split: if_splits)
  show "b ! 0 = 2 \<or> b ! 0 = 3" using f b by simp
  have "(if isOdd (key_Y k) then pubkeyCompressed OR 0x1 else pubkeyCompressed) = f"
    using decompress_parity [OF d] f by (auto simp: pubkeyCompressed_def)
  then show "SerializeCompressed k = b"
    using big_Bytes_padded [of x] b kx by (simp add: SerializeCompressed_def paddedAppend_def)
qed

text \<open>
  A key of another length is uncompressed: the bytes of both coordinates, which
  its compressed form shortens.
\<close>

lemma parse_key_uncompressed:
  assumes "parse_key E b = Inr k" "length b \<noteq> 33" "b ! 0 = 4"
  shows "length b = 65" "SerializeUncompressed k = b"
    "SerializeCompressed k = (if isOdd (key_Y k) then 3 else 2) # take 32 (drop 1 b)"
proof -
  have p: "ParsePubKey (IsOnCurve E) b = Inr k"
    using assms(1) by (auto simp: parse_key_def split: sum.splits)
  then show len: "length b = 65"
    using assms(2) by (auto simp: ParsePubKey_def PubKeyBytesLenUncompressed_def PubKeyBytesLenCompressed_def
        Let_def split: if_splits)
  define x y where "x = take 32 (drop 1 b)" and "y = drop 33 b"
  have "drop 1 b = x @ y"
    using append_take_drop_id [of 32 "drop 1 b"] by (simp add: x_def y_def)
  then have b: "b = 4 # x @ y" using assms(3) len by (cases b) auto
  have l: "length x = 32" "length y = 32" using len by (simp_all add: x_def y_def)
  from p len have k: "key_X k = SetBytes x" "key_Y k = SetBytes y"
    by (auto simp: ParsePubKey_def PubKeyBytesLenUncompressed_def x_def y_def bindE_eq_Inr_iff Let_def split: if_splits)
  have "paddedAppend 32 d (big_Bytes (SetBytes x)) = d @ x" "paddedAppend 32 d (big_Bytes (SetBytes y)) = d @ y" for d
    using big_Bytes_padded [of x] big_Bytes_padded [of y] by (simp_all add: paddedAppend_def l)
  then show "SerializeUncompressed k = b"
    "SerializeCompressed k = (if isOdd (key_Y k) then 3 else 2) # take 32 (drop 1 b)"
    by (simp_all add: SerializeUncompressed_def SerializeCompressed_def k b pubkeyUncompressed_def pubkeyCompressed_def
        l)
qed

section \<open>Properties\<close>

definition known_net :: "AddressParams \<Rightarrow> bool" where
  "known_net net \<longleftrightarrow> net \<in> {MainNetParams, TestNetParams, SimNetParams, RegNetParams}"

text \<open>
  What is used of the base 58 codec: decoding inverts encoding, and the
  identifiers have been chosen such that the first letter of the string is the
  one of the network, for payloads of 20 bytes, and of 33 bytes for keys.
\<close>

definition base58_ok :: "addr_env \<Rightarrow> bool" where
  "base58_ok E \<longleftrightarrow>
     (\<forall>b netID. length netID = 2 \<longrightarrow> CheckDecode E (CheckEncode E b netID) = Inr (b, netID)) \<and>
     (\<forall>net b. known_net net \<longrightarrow> length b = 20 \<longrightarrow>
        (\<forall>f \<in> {PubKeyHashAddrID, PKHEdwardsAddrID, PKHSchnorrAddrID, ScriptHashAddrID}.
           take 1 (CheckEncode E b (f net)) = NetworkAddressPrefix net)) \<and>
     (\<forall>net b. known_net net \<longrightarrow> length b = 33 \<longrightarrow>
        take 1 (CheckEncode E b (PubKeyAddrID net)) = NetworkAddressPrefix net)"

lemmas suite_defs = STEcdsaSecp256k1_def STEd25519_def STSchnorrSecp256k1_def

lemmas net_defs = MainNetParams_def TestNetParams_def SimNetParams_def RegNetParams_def

lemma net_ids:
  assumes "known_net net"
  shows "length (PubKeyAddrID net) = 2" "length (PubKeyHashAddrID net) = 2"
    "length (PKHEdwardsAddrID net) = 2" "length (PKHSchnorrAddrID net) = 2"
    "length (ScriptHashAddrID net) = 2"
    "distinct [PubKeyAddrID net, PubKeyHashAddrID net, PKHEdwardsAddrID net, PKHSchnorrAddrID net,
       ScriptHashAddrID net]"
    "NetworkAddressPrefix net \<noteq> []"
  using assms by (auto simp: known_net_def net_defs)

lemma detect_net:
  "known_net net \<Longrightarrow> take 1 addr = NetworkAddressPrefix net \<Longrightarrow> detectNetworkForAddress addr = Some net"
  by (cases addr) (auto simp: known_net_def detectNetworkForAddress_def net_defs)

lemma encoded:
  assumes "base58_ok E" "known_net net"
  shows "length b = 20 \<Longrightarrow> f \<in> {PubKeyHashAddrID, PKHEdwardsAddrID, PKHSchnorrAddrID, ScriptHashAddrID} \<Longrightarrow>
      CheckDecode E (CheckEncode E b (f net)) = Inr (b, f net) \<and>
      detectNetworkForAddress (CheckEncode E b (f net)) = Some net"
    "length b = 33 \<Longrightarrow> CheckDecode E (CheckEncode E b (PubKeyAddrID net)) = Inr (b, PubKeyAddrID net) \<and>
      detectNetworkForAddress (CheckEncode E b (PubKeyAddrID net)) = Some net"
  using assms net_ids [OF assms(2)] detect_net [OF assms(2)]
  by (auto simp: base58_ok_def)

text \<open>The string of a key address carries the suite, the oddness of Y and X.\<close>

lemma key_string:
  assumes "base58_ok E" "known_net net" "parse_key E b = Inr k" "SerializeCompressed k = c" "length c = 33"
    "c ! 0 = 2 \<or> c ! 0 = 3" and "algo = STEcdsaSecp256k1 \<or> algo = STSchnorrSecp256k1"
  shows "DecodeAddress E (encodePKAddress E b (PubKeyAddrID net) algo) =
    (if algo = STEcdsaSecp256k1 then NewAddressSecpPubKey E c net
     else NewAddressSecSchnorrPubKey E c net)"
proof -
  define s :: byte where "s = (if c ! 0 = 3 then word_of_int algo OR 0x80 else word_of_int algo)"
  have enc: "encodePKAddress E b (PubKeyAddrID net) algo = CheckEncode E (s # drop 1 c) (PubKeyAddrID net)"
    using assms(3,4,7) by (auto simp: encodePKAddress_def s_def)
  have "(if s AND 0x80 \<noteq> 0 then 3 else 2) # drop 1 c = c"
    using assms(5-7) by (cases c) (auto simp: s_def STEcdsaSecp256k1_def STSchnorrSecp256k1_def)
  moreover have "uint (s AND NOT 0x80) = algo"
    using assms(7) by (auto simp: s_def STEcdsaSecp256k1_def STSchnorrSecp256k1_def)
  ultimately have "NewAddressPubKey E (s # drop 1 c) net =
      (if algo = STEcdsaSecp256k1 then NewAddressSecpPubKey E c net
       else NewAddressSecSchnorrPubKey E c net)"
    using assms(5,7)
    by (auto simp: NewAddressPubKey_def Let_def suite_defs)
  then show ?thesis
    using encoded(2) [OF assms(1,2), of "s # drop 1 c"] assms(5) by (simp add: enc DecodeAddress_def)
qed

lemma new_secp_key:
  assumes "NewAddressSecpPubKey E b net = Inr a" "length b = 33"
  obtains k where "parse_key E b = Inr k"
    "a = AddressSecpPubKey net PKFCompressed k (PubKeyHashAddrID net)"
  using assms parse_key_compressed(2) [of E b]
  by (auto simp: NewAddressSecpPubKey_def bindE_eq_Inr_iff Let_def split: if_splits)

lemma new_secp_key_uncompressed:
  assumes "NewAddressSecpPubKey E b net = Inr a" "length b \<noteq> 33"
  obtains k where "parse_key E b = Inr k" "b ! 0 = 4"
    "a = AddressSecpPubKey net PKFUncompressed k (PubKeyHashAddrID net)"
proof -
  from assms(1) obtain k where k: "parse_key E b = Inr k" by (auto simp: NewAddressSecpPubKey_def bindE_eq_Inr_iff)
  then have "b ! 0 AND NOT 0x1 = 4"
    using assms(2) by (auto simp: parse_key_def ParsePubKey_def PubKeyBytesLenCompressed_def pubkeyUncompressed_def
        Let_def split: sum.splits if_splits)
  then have "b ! 0 \<noteq> 2" "b ! 0 \<noteq> 3" by auto
  with assms(1) k show thesis by (intro that) (auto simp: NewAddressSecpPubKey_def Let_def split: if_splits)
qed

lemma new_secp_key_no_panic: "NewAddressSecpPubKey E b net \<noteq> Inl (KeyErr EcPanic)"
  using ParsePubKey_no_panic [of "IsOnCurve E" b]
  by (auto simp: NewAddressSecpPubKey_def parse_key_def Let_def bindE_eq_Inl_iff split: sum.splits if_splits)

lemma new_schnorr_key:
  assumes "NewAddressSecSchnorrPubKey E b net = Inr a"
  obtains k where "parse_key E b = Inr k" "length b = 33"
    "a = AddressSecSchnorrPubKey net k (PKHSchnorrAddrID net)"
  using assms
  by (auto simp: NewAddressSecSchnorrPubKey_def SchnorrParsePubKey_def PubKeyBytesLenCompressed_def
      bindE_eq_Inr_iff split: if_splits)

lemma new_hash_address:
  assumes "known_net net" "NewAddressPubKeyHash h net algo = Inr a"
  obtains f where "f \<in> {PubKeyHashAddrID, PKHEdwardsAddrID, PKHSchnorrAddrID}" "length h = 20"
    "a = AddressPubKeyHash net h (f net)" "DSA a net = algo"
proof -
  have h: "length h = 20"
    using assms(2) by (auto simp: NewAddressPubKeyHash_def newAddressPubKeyHash_def split: if_splits)
  note ids = net_ids(6) [OF assms(1)]
  consider "algo = STEcdsaSecp256k1" | "algo = STEd25519" | "algo = STSchnorrSecp256k1"
    using assms(2) by (auto simp: NewAddressPubKeyHash_def split: if_splits)
  then show thesis
  proof cases
    case 1
    with assms(2) h show ?thesis
      by (intro that [of PubKeyHashAddrID])
        (auto simp: NewAddressPubKeyHash_def newAddressPubKeyHash_def suite_defs)
  next
    case 2
    with assms(2) h ids show ?thesis
      by (intro that [of PKHEdwardsAddrID])
        (auto simp: NewAddressPubKeyHash_def newAddressPubKeyHash_def suite_defs)
  next
    case 3
    with assms(2) h ids show ?thesis
      by (intro that [of PKHSchnorrAddrID])
        (auto simp: NewAddressPubKeyHash_def newAddressPubKeyHash_def suite_defs)
  qed
qed

lemma pubkey_hash_string:
  assumes E: "base58_ok E" and net: "known_net net" and a: "NewAddressPubKeyHash h net algo = Inr a"
  shows "DecodeAddress E (addr_String E a) = Inr a \<and> DSA a net = algo \<and> ScriptAddress E a = h \<and> IsForNet a net"
proof -
  from net a obtain f where f: "f \<in> {PubKeyHashAddrID, PKHEdwardsAddrID, PKHSchnorrAddrID}"
    "length h = 20" "a = AddressPubKeyHash net h (f net)" "DSA a net = algo"
    by (rule new_hash_address)
  then have "DecodeAddress E (CheckEncode E h (f net)) = Inr (AddressPubKeyHash net h (f net))"
    using encoded(1) [OF E net, of h f] net_ids(6) [OF net]
    by (auto simp: DecodeAddress_def NewAddressPubKeyHash_def newAddressPubKeyHash_def suite_defs)
  with f show ?thesis by (auto simp: encodeAddress_def)
qed

lemma script_hash_string:
  assumes E: "base58_ok E" and net: "known_net net" and a: "NewAddressScriptHashFromHash h net = Inr a"
  shows "DecodeAddress E (addr_String E a) = Inr a \<and> ScriptAddress E a = h \<and> IsForNet a net"
proof -
  from a have h: "length h = 20" and "a = AddressScriptHash net h (ScriptHashAddrID net)"
    by (auto simp: NewAddressScriptHashFromHash_def newAddressScriptHashFromHash_def split: if_splits)
  moreover have "DecodeAddress E (CheckEncode E h (ScriptHashAddrID net)) = NewAddressScriptHashFromHash h net"
    using encoded(1) [OF E net, of h ScriptHashAddrID] net_ids(6) [OF net] h
    by (auto simp: DecodeAddress_def)
  ultimately show ?thesis using a by (auto simp: encodeAddress_def)
qed

lemma secp_key_string:
  assumes E: "base58_ok E" and net: "known_net net" and a: "NewAddressSecpPubKey E b net = Inr a"
    and b: "length b = 33"
  shows "DecodeAddress E (addr_String E a) = Inr a \<and> ScriptAddress E a = b \<and> IsForNet a net"
proof -
  from a b obtain k where "parse_key E b = Inr k"
    "a = AddressSecpPubKey net PKFCompressed k (PubKeyHashAddrID net)" by (rule new_secp_key)
  with key_string [OF E net _ _ b, of b k STEcdsaSecp256k1] parse_key_compressed [OF _ b, of E k] a
  show ?thesis by simp
qed

lemma secp_key_string_uncompressed:
  assumes E: "base58_ok E" and net: "known_net net" and a: "NewAddressSecpPubKey E b net = Inr a"
    and b: "length b \<noteq> 33"
  shows "ScriptAddress E a = b \<and> IsForNet a net \<and> (\<exists>k. parse_key E b = Inr k \<and>
    DecodeAddress E (addr_String E a) = NewAddressSecpPubKey E (SerializeCompressed k) net) \<and>
    DecodeAddress E (addr_String E a) \<noteq> Inr a"
proof -
  from a b obtain k where k: "parse_key E b = Inr k" "b ! 0 = 4"
    "a = AddressSecpPubKey net PKFUncompressed k (PubKeyHashAddrID net)" by (rule new_secp_key_uncompressed)
  note u = parse_key_uncompressed [OF k(1) b k(2)]
  have c: "length (SerializeCompressed k) = 33" "SerializeCompressed k ! 0 = 2 \<or> SerializeCompressed k ! 0 = 3"
    by (simp_all add: u(1,3))
  from key_string [OF E net k(1) refl c, of STEcdsaSecp256k1]
  have dec: "DecodeAddress E (addr_String E a) = NewAddressSecpPubKey E (SerializeCompressed k) net"
    by (simp add: k(3) u(2))
  moreover have "NewAddressSecpPubKey E (SerializeCompressed k) net \<noteq> Inr a"
    using new_secp_key [OF _ c(1), of E net a] k(3) by blast
  ultimately show ?thesis using k(1,3) u(2) by simp
qed

lemma schnorr_key_string:
  assumes E: "base58_ok E" and net: "known_net net" and a: "NewAddressSecSchnorrPubKey E b net = Inr a"
  shows "DecodeAddress E (addr_String E a) = Inr a \<and> ScriptAddress E a = b"
proof -
  from a obtain k where "parse_key E b = Inr k" "length b = 33"
    "a = AddressSecSchnorrPubKey net k (PKHSchnorrAddrID net)" by (rule new_schnorr_key)
  with key_string [OF E net, of b k b STSchnorrSecp256k1] parse_key_compressed [of E b k] a
  show ?thesis by (simp add: PublicKey_Serialize_def suite_defs)
qed

text \<open>
  C16: Which addresses survive their encoding.  For a network of the code and a
  base 58 codec that inverts itself and respects the prefixes of the networks,
  decoding the string of a public key hash, a script hash, a compressed secp256k1
  key or a Schnorr key gives the address back.  The string of an uncompressed
  secp256k1 key does not: it stands for the address of the compressed key.  A hash
  address remembers its algorithm, and what a key address of either form puts into
  a script are the bytes it was made from.  (For Ed25519 keys see
  \<open>key_address_defects\<close>.)
\<close>

theorem address_roundtrip:
  assumes E: "base58_ok E" and net: "known_net net"
  shows "(NewAddressPubKeyHash h net algo = Inr a \<longrightarrow>
      DecodeAddress E (addr_String E a) = Inr a \<and> DSA a net = algo \<and> ScriptAddress E a = h \<and> IsForNet a net) \<and>
    (NewAddressScriptHashFromHash h net = Inr a \<longrightarrow>
      DecodeAddress E (addr_String E a) = Inr a \<and> ScriptAddress E a = h \<and> IsForNet a net) \<and>
    (NewAddressSecpPubKey E b net = Inr a \<and> length b = 33 \<longrightarrow>
      DecodeAddress E (addr_String E a) = Inr a \<and> ScriptAddress E a = b \<and> IsForNet a net) \<and>
    (NewAddressSecpPubKey E b net = Inr a \<and> length b \<noteq> 33 \<longrightarrow>
      ScriptAddress E a = b \<and> IsForNet a net \<and> DecodeAddress E (addr_String E a) \<noteq> Inr a \<and>
      (\<exists>k. parse_key E b = Inr k \<and>
        DecodeAddress E (addr_String E a) = NewAddressSecpPubKey E (SerializeCompressed k) net)) \<and>
    (NewAddressSecSchnorrPubKey E b net = Inr a \<longrightarrow>
      DecodeAddress E (addr_String E a) = Inr a \<and> ScriptAddress E a = b)"
  using pubkey_hash_string [OF E net] script_hash_string [OF E net] secp_key_string [OF E net]
    secp_key_string_uncompressed [OF E net] schnorr_key_string [OF E net]
  by blast

text \<open>
  A codec for the examples: the letter of the network, then the identifier and
  the payload byte by byte.
\<close>

definition ex_ids :: "AddressParams \<Rightarrow> byte list list" where
  "ex_ids net = [PubKeyAddrID net, PubKeyHashAddrID net, PKHEdwardsAddrID net, PKHSchnorrAddrID net,
     ScriptHashAddrID net]"

definition ex_letters :: "(byte list \<times> string) list" where
  "ex_letters = concat (map (\<lambda>net. map (\<lambda>netID. (netID, NetworkAddressPrefix net)) (ex_ids net))
     [MainNetParams, TestNetParams, SimNetParams, RegNetParams])"

definition ex_encode :: "byte list \<Rightarrow> byte list \<Rightarrow> string" where
  "ex_encode b netID =
     (case map_of ex_letters netID of None \<Rightarrow> ''X'' | Some l \<Rightarrow> l) @ map (char_of \<circ> unat) (netID @ b)"

definition ex_decode :: "string \<Rightarrow> base58_error + byte list \<times> byte list" where
  "ex_decode s =
     (let bs = map (word_of_nat \<circ> of_char) (drop 1 s) in Inr (drop 2 bs, take 2 bs))"

definition ex_addr_env :: addr_env where
  "ex_addr_env =
     \<lparr>HashB = (\<lambda>_. replicate 32 0), ripemd160 = (\<lambda>_. replicate 20 0), sha1 = (\<lambda>_. replicate 20 0),
      sha256 = (\<lambda>_. replicate 32 0), IsOnCurve = (\<lambda>_ _. True), ecdsa_Verify = (\<lambda>_ _ _ _. True),
      edwards_ParsePubKey = (\<lambda>b. Some \<lparr>key_X = 0, key_Y = int (of_le_bytes (take 32 b))\<rparr>),
      edwards_ParseSignature = (\<lambda>_. None), edwards_Verify = (\<lambda>_ _ _ _. True),
      schnorr_ParsePubKey = (\<lambda>_. None), schnorr_ParseSignature = (\<lambda>_. None),
      schnorr_Verify = (\<lambda>_ _ _ _. True), SigHashOptimization = False,
      optimizeSigVerification = False, pick_entry = (\<lambda>_. 0),
      edwards_Serialize = (\<lambda>k. le_bytes 32 (nat (key_Y k))),
      CheckEncode = ex_encode, CheckDecode = ex_decode\<rparr>"

lemma byte_of_char [simp]: "word_of_nat (unat (b :: byte) mod 256) = b"
proof -
  have "unat b < 256" using unsigned_less [of b] by simp
  then show ?thesis by simp
qed

lemma ex_letters_single: "list_all (\<lambda>(netID, l). length l = 1) ex_letters"
  by code_simp

lemma ex_decode_encode:
  assumes "length netID = 2"
  shows "ex_decode (ex_encode b netID) = Inr (b, netID)"
proof -
  have "length l = 1" if "map_of ex_letters netID = Some l" for l
    using ex_letters_single map_of_SomeD [OF that] by (auto simp: list_all_iff)
  with assms show ?thesis
    by (cases "map_of ex_letters netID") (simp_all add: ex_decode_def ex_encode_def comp_def)
qed

lemma ex_letters_of:
  "list_all (\<lambda>net. list_all (\<lambda>netID. map_of ex_letters netID = Some (NetworkAddressPrefix net)) (ex_ids net) \<and>
       length (NetworkAddressPrefix net) = 1)
     [MainNetParams, TestNetParams, SimNetParams, RegNetParams]"
  by code_simp

lemma ex_encode_letter:
  "known_net net \<Longrightarrow> netID \<in> set (ex_ids net) \<Longrightarrow>
    take 1 (ex_encode b netID) = NetworkAddressPrefix net"
  using ex_letters_of by (auto simp: known_net_def ex_encode_def list_all_iff)

lemma ex_base58_ok: "base58_ok ex_addr_env"
  using ex_encode_letter by (auto simp: base58_ok_def ex_addr_env_def ex_decode_encode ex_ids_def)

text \<open>An uncompressed key of the examples.\<close>

definition ex_long_key :: "byte list" where
  "ex_long_key = 4 # (replicate 31 0 @ [1]) @ replicate 31 0 @ [2]"

lemma ex_long_address:
  "NewAddressSecpPubKey ex_addr_env ex_long_key SimNetParams = Inr (AddressSecpPubKey SimNetParams PKFUncompressed
     \<lparr>key_X = 1, key_Y = 2\<rparr> (PubKeyHashAddrID SimNetParams))"
proof -
  have parts: "length ex_long_key = 65" "ex_long_key ! 0 = 4" "take 32 (drop 1 ex_long_key) = replicate 31 0 @ [1]"
    "drop 33 ex_long_key = replicate 31 0 @ [2]"
    by (simp_all add: ex_long_key_def)
  have val: "SetBytes (replicate 31 0 @ [1]) = 1" "SetBytes (replicate 31 0 @ [2]) = 2"
    unfolding SetBytes_zeros by (simp_all add: SetBytes_def of_be_bytes_def)
  have "IsOnCurve ex_addr_env x y" for x y by (simp add: ex_addr_env_def)
  then have "parse_key ex_addr_env ex_long_key = Inr \<lparr>key_X = 1, key_Y = 2\<rparr>"
    unfolding parse_key_def ParsePubKey_def parts val
    by (simp add: PubKeyBytesLenUncompressed_def pubkeyUncompressed_def curve_P_def)
  then show ?thesis by (simp add: NewAddressSecpPubKey_def parts(2))
qed

theorem address_roundtrip_witness:
  "let h = replicate 20 7; a = AddressPubKeyHash SimNetParams h [0x0e, 0x53] in
   NewAddressPubKeyHash h SimNetParams STSchnorrSecp256k1 = Inr a \<and>
   DecodeAddress ex_addr_env (addr_String ex_addr_env a) = Inr a \<and>
   (\<exists>a. NewAddressSecpPubKey ex_addr_env ex_long_key SimNetParams = Inr a \<and>
     ScriptAddress ex_addr_env a = ex_long_key \<and> DecodeAddress ex_addr_env (addr_String ex_addr_env a) \<noteq> Inr a)"
proof -
  have net: "known_net SimNetParams" by (simp add: known_net_def)
  note R = address_roundtrip [OF ex_base58_ok net]
  have "length ex_long_key \<noteq> 33" by (simp add: ex_long_key_def)
  with R [of "[]" 0 _ ex_long_key] ex_long_address
  have "\<exists>a. NewAddressSecpPubKey ex_addr_env ex_long_key SimNetParams = Inr a \<and>
     ScriptAddress ex_addr_env a = ex_long_key \<and> DecodeAddress ex_addr_env (addr_String ex_addr_env a) \<noteq> Inr a"
    by blast
  with R [of "replicate 20 7" STSchnorrSecp256k1 "AddressPubKeyHash SimNetParams (replicate 20 7) [0x0e, 0x53]" "[]"]
  show ?thesis
    by (simp add: NewAddressPubKeyHash_def newAddressPubKeyHash_def suite_defs SimNetParams_def)
qed

text \<open>
  C17: Two defects of the key addresses.  The string of an Ed25519 key is decoded by
  parsing the byte of the signature suite as the first byte of the key,
  so it does not give the address back; and an address of a Schnorr key is not
  recognised as one of its own network.
\<close>

theorem key_address_defects:
  assumes "base58_ok E" "known_net net"
  shows "(NewAddressEdwardsPubKey E b net = Inr a \<and> length (ScriptAddress E a) = 32 \<longrightarrow>
      DecodeAddress E (addr_String E a) = NewAddressEdwardsPubKey E (1 # ScriptAddress E a) net) \<and>
    (NewAddressSecSchnorrPubKey E b net = Inr a \<longrightarrow> \<not> IsForNet a net)"
proof (intro conjI impI)
  assume a: "NewAddressEdwardsPubKey E b net = Inr a \<and> length (ScriptAddress E a) = 32"
  then obtain k where k: "a = AddressEdwardsPubKey net k (PKHEdwardsAddrID net)"
    by (auto simp: NewAddressEdwardsPubKey_def split: option.splits)
  with a encoded(2) [OF assms, of "1 # edwards_Serialize E k"]
  show "DecodeAddress E (addr_String E a) = NewAddressEdwardsPubKey E (1 # ScriptAddress E a) net"
    by (simp add: encodePKAddress_def DecodeAddress_def NewAddressPubKey_def suite_defs)
next
  assume "NewAddressSecSchnorrPubKey E b net = Inr a"
  then obtain k where "a = AddressSecSchnorrPubKey net k (PKHSchnorrAddrID net)"
    by (rule new_schnorr_key)
  then show "\<not> IsForNet a net" using net_ids(6) [OF assms(2)] by auto
qed

theorem key_address_defects_witness:
  "let b = replicate 31 9 @ [3];
       a = AddressEdwardsPubKey MainNetParams \<lparr>key_X = 0, key_Y = int (of_le_bytes b)\<rparr> [0x08, 0x1f] in
   NewAddressEdwardsPubKey ex_addr_env b MainNetParams = Inr a \<and>
   ScriptAddress ex_addr_env a = b \<and>
   DecodeAddress ex_addr_env (addr_String ex_addr_env a) \<noteq> Inr a"
proof -
  define b :: "byte list" where "b = replicate 31 9 @ [3]"
  define a where "a = AddressEdwardsPubKey MainNetParams \<lparr>key_X = 0, key_Y = int (of_le_bytes b)\<rparr> [0x08, 0x1f]"
  have len: "length b = 32" by (simp add: b_def)
  have new: "NewAddressEdwardsPubKey ex_addr_env b MainNetParams = Inr a"
    using len by (simp add: NewAddressEdwardsPubKey_def ex_addr_env_def a_def MainNetParams_def)
  have ser: "ScriptAddress ex_addr_env a = b"
    using le_bytes_of_le_bytes [of b] len by (simp add: a_def ex_addr_env_def)
  have "of_le_bytes (take 32 (1 # b)) \<noteq> of_le_bytes b"
  proof
    assume "of_le_bytes (take 32 (1 # b)) = of_le_bytes b"
    then have "take 32 (1 # b) = b"
      using le_bytes_of_le_bytes [of "take 32 (1 # b)"] le_bytes_of_le_bytes [of b] len by simp
    then have "take 32 (1 # b) ! 0 = b ! 0" by (rule arg_cong)
    then show False by (simp add: b_def nth_append)
  qed
  then have "NewAddressEdwardsPubKey ex_addr_env (1 # b) MainNetParams \<noteq> Inr a"
    by (simp add: NewAddressEdwardsPubKey_def ex_addr_env_def a_def)
  with key_address_defects [OF ex_base58_ok, of MainNetParams b a] new ser len
  have "NewAddressEdwardsPubKey ex_addr_env b MainNetParams = Inr a \<and>
      ScriptAddress ex_addr_env a = b \<and> DecodeAddress ex_addr_env (addr_String ex_addr_env a) \<noteq> Inr a"
    by (simp add: known_net_def)
  then show ?thesis unfolding Let_def a_def b_def .
qed

end
