(* ===== verification/PayScript.thy ===== *)
theory PayScript
  imports Address Opcodes
begin

text \<open>
  Building scripts: the script builder of \<open>src/txscript/scriptbuilder.go\<close>, and the
  constructors of the payment, stake and data scripts of \<open>src/txscript/standard.go\<close>
  together with \<open>ExtractPkScriptAddrs\<close>, which reads addresses out of scripts.

  A nil address, of any type, is \<open>None\<close>.  A builder that has met an error
  keeps it and ignores further calls.
\<close>

unbundle bit_operations_syntax

section \<open>The builder\<close>

datatype build_error = ErrScriptNotCanonical | BuildErr script_error

record ScriptBuilder =
  sb_script :: "byte list"
  sb_err :: "build_error option"

definition NewScriptBuilder :: ScriptBuilder where
  "NewScriptBuilder = \<lparr>sb_script = [], sb_err = None\<rparr>"

definition AddOps :: "byte list \<Rightarrow> ScriptBuilder \<Rightarrow> ScriptBuilder" where
  "AddOps opcodes b =
     (if sb_err b \<noteq> None then b
      else if length (sb_script b) + length opcodes > MaxScriptSize
      then b\<lparr>sb_err := Some ErrScriptNotCanonical\<rparr>
      else b\<lparr>sb_script := sb_script b @ opcodes\<rparr>)"

definition AddOp :: "byte \<Rightarrow> ScriptBuilder \<Rightarrow> ScriptBuilder" where
  "AddOp opc b =
     (if sb_err b \<noteq> None then b
      else if length (sb_script b) + 1 > MaxScriptSize
      then b\<lparr>sb_err := Some ErrScriptNotCanonical\<rparr>
      else b\<lparr>sb_script := sb_script b @ [opc]\<rparr>)"

definition CanonicalDataSize :: "byte list \<Rightarrow> nat" where
  "CanonicalDataSize data =
     (let dataLen = length data in
      if dataLen = 0 then 1
      else if dataLen = 1 \<and> data ! 0 \<le> 16 then 1
      else if dataLen = 1 \<and> data ! 0 = 0x81 then 1
      else if dataLen < unat OP_PUSHDATA1 then 1 + dataLen
      else if dataLen \<le> 0xff then 2 + dataLen
      else if dataLen \<le> 0xffff then 3 + dataLen
      else 5 + dataLen)"

definition data_push :: "byte list \<Rightarrow> byte list" where
  "data_push data =
     (let dataLen = length data in
      if dataLen = 0 \<or> dataLen = 1 \<and> data ! 0 = 0 then [OP_0]
      else if dataLen = 1 \<and> data ! 0 \<le> 16 then [OP_1 - 1 + data ! 0]
      else if dataLen = 1 \<and> data ! 0 = 0x81 then [OP_1NEGATE]
      else
        (if dataLen < unat OP_PUSHDATA1 then [(OP_DATA_1 - 1) + word_of_nat dataLen]
         else if dataLen \<le> 0xff then [OP_PUSHDATA1, word_of_nat dataLen]
         else if dataLen \<le> 0xffff then OP_PUSHDATA2 # le_bytes 2 dataLen
         else OP_PUSHDATA4 # le_bytes 4 dataLen) @ data)"

definition addData :: "byte list \<Rightarrow> ScriptBuilder \<Rightarrow> ScriptBuilder" where
  "addData data b = b\<lparr>sb_script := sb_script b @ data_push data\<rparr>"

definition AddFullData :: "byte list \<Rightarrow> ScriptBuilder \<Rightarrow> ScriptBuilder" where
  "AddFullData data b = (if sb_err b \<noteq> None then b else addData data b)"

definition AddData :: "byte list \<Rightarrow> ScriptBuilder \<Rightarrow> ScriptBuilder" where
  "AddData data b =
     (if sb_err b \<noteq> None then b
      else if length (sb_script b) + CanonicalDataSize data > MaxScriptSize
      then b\<lparr>sb_err := Some ErrScriptNotCanonical\<rparr>
      else if length data > MaxScriptElementSize then b\<lparr>sb_err := Some ErrScriptNotCanonical\<rparr>
      else addData data b)"

definition AddInt64 :: "int \<Rightarrow> ScriptBuilder \<Rightarrow> script_error + ScriptBuilder" where
  "AddInt64 val b =
     (if sb_err b \<noteq> None then Inr b
      else if length (sb_script b) + 1 > MaxScriptSize
      then Inr (b\<lparr>sb_err := Some ErrScriptNotCanonical\<rparr>)
      else if val = 0 then Inr (b\<lparr>sb_script := sb_script b @ [OP_0]\<rparr>)
      else if val = -1 \<or> val \<ge> 1 \<and> val \<le> 16
      then Inr (b\<lparr>sb_script := sb_script b @ [word_of_int (uint (OP_1 - 1) + val)]\<rparr>)
      else bindE (scriptNum_Bytes val) (\<lambda>data. Inr (AddData data b)))"

definition sb_Reset :: "ScriptBuilder \<Rightarrow> ScriptBuilder" where
  "sb_Reset b = b\<lparr>sb_script := [], sb_err := None\<rparr>"

definition sb_Script :: "ScriptBuilder \<Rightarrow> build_error + byte list" where
  "sb_Script b = (case sb_err b of None \<Rightarrow> Inr (sb_script b) | Some e \<Rightarrow> Inl e)"

section \<open>Payment scripts\<close>

definition payToPubKeyHashScript :: "byte list \<Rightarrow> build_error + byte list" where
  "payToPubKeyHashScript pubKeyHash =
     sb_Script (AddOp OP_CHECKSIG (AddOp OP_EQUALVERIFY (AddData pubKeyHash (AddOp OP_HASH160
       (AddOp OP_DUP NewScriptBuilder)))))"

definition pay_hash_alt :: "int \<Rightarrow> byte list \<Rightarrow> build_error + byte list" where
  "pay_hash_alt suite pubKeyHash =
     sb_Script (AddOp OP_CHECKSIGALT (AddData [word_of_int suite] (AddOp OP_EQUALVERIFY
       (AddData pubKeyHash (AddOp OP_HASH160 (AddOp OP_DUP NewScriptBuilder))))))"

definition payToPubKeyHashEdwardsScript :: "byte list \<Rightarrow> build_error + byte list" where
  "payToPubKeyHashEdwardsScript pubKeyHash = pay_hash_alt STEd25519 pubKeyHash"

definition payToPubKeyHashSchnorrScript :: "byte list \<Rightarrow> build_error + byte list" where
  "payToPubKeyHashSchnorrScript pubKeyHash = pay_hash_alt STSchnorrSecp256k1 pubKeyHash"

definition payToScriptHashScript :: "byte list \<Rightarrow> build_error + byte list" where
  "payToScriptHashScript scriptHash =
     sb_Script (AddOp OP_EQUAL (AddData scriptHash (AddOp OP_HASH160 NewScriptBuilder)))"

definition payToPubKeyScript :: "byte list \<Rightarrow> build_error + byte list" where
  "payToPubKeyScript serializedPubKey =
     sb_Script (AddOp OP_CHECKSIG (AddData serializedPubKey NewScriptBuilder))"

definition pay_key_alt :: "int \<Rightarrow> byte list \<Rightarrow> build_error + byte list" where
  "pay_key_alt suite serializedPubKey =
     sb_Script (AddOp OP_CHECKSIGALT (AddData [word_of_int suite]
       (AddData serializedPubKey NewScriptBuilder)))"

definition payToEdwardsPubKeyScript :: "byte list \<Rightarrow> build_error + byte list" where
  "payToEdwardsPubKeyScript serializedPubKey = pay_key_alt STEd25519 serializedPubKey"

definition payToSchnorrPubKeyScript :: "byte list \<Rightarrow> build_error + byte list" where
  "payToSchnorrPubKeyScript serializedPubKey = pay_key_alt STSchnorrSecp256k1 serializedPubKey"

definition unsupported :: build_error where
  "unsupported = BuildErr (ApiErr ErrUnsupportedAddress)"

definition PayToAddrScript :: "addr_env \<Rightarrow> Address option \<Rightarrow> build_error + byte list" where
  "PayToAddrScript E addr =
     (case addr of
        None \<Rightarrow> Inl unsupported
      | Some a \<Rightarrow>
          (case a of
             AddressPubKeyHash net h netID \<Rightarrow>
               let dsa = DSA a (Net a) in
               if dsa = STEcdsaSecp256k1 then payToPubKeyHashScript (ScriptAddress E a)
               else if dsa = STEd25519 then payToPubKeyHashEdwardsScript (ScriptAddress E a)
               else if dsa = STSchnorrSecp256k1 then payToPubKeyHashSchnorrScript (ScriptAddress E a)
               else Inl unsupported
           | AddressScriptHash net h netID \<Rightarrow> payToScriptHashScript (ScriptAddress E a)
           | AddressSecpPubKey net fmt key netID \<Rightarrow> payToPubKeyScript (ScriptAddress E a)
           | AddressEdwardsPubKey net key netID \<Rightarrow> payToEdwardsPubKeyScript (ScriptAddress E a)
           | AddressSecSchnorrPubKey net key netID \<Rightarrow> payToSchnorrPubKeyScript (ScriptAddress E a)))"

section \<open>Stake scripts\<close>

text \<open>The switch on the address that the functions for stake outputs share.\<close>

definition stake_addr_type :: "Address option \<Rightarrow> build_error + ScriptClass" where
  "stake_addr_type addr =
     (case addr of
        Some (AddressPubKeyHash net h netID) \<Rightarrow>
          if DSA (AddressPubKeyHash net h netID) net \<noteq> STEcdsaSecp256k1 then Inl unsupported
          else Inr PubKeyHashTy
      | Some (AddressScriptHash net h netID) \<Rightarrow> Inr ScriptHashTy
      | _ \<Rightarrow> Inl unsupported)"

definition tagged_pkh :: "byte \<Rightarrow> byte list \<Rightarrow> build_error + byte list" where
  "tagged_pkh tag pkh =
     sb_Script (AddOp OP_CHECKSIG (AddOp OP_EQUALVERIFY (AddData pkh (AddOp OP_HASH160 (AddOp OP_DUP
       (AddOp tag NewScriptBuilder))))))"

definition tagged_sh :: "byte \<Rightarrow> byte list \<Rightarrow> build_error + byte list" where
  "tagged_sh tag sh =
     sb_Script (AddOp OP_EQUAL (AddData sh (AddOp OP_HASH160 (AddOp tag NewScriptBuilder))))"

definition pay_tagged :: "addr_env \<Rightarrow> byte \<Rightarrow> Address option \<Rightarrow> build_error + byte list" where
  "pay_tagged E tag addr =
     bindE (stake_addr_type addr) (\<lambda>scriptType.
     let hash = ScriptAddress E (the addr) in
     if scriptType = PubKeyHashTy then tagged_pkh tag hash else tagged_sh tag hash)"

definition PayToSStx :: "addr_env \<Rightarrow> Address option \<Rightarrow> build_error + byte list" where
  "PayToSStx E addr = pay_tagged E OP_SSTX addr"

definition PayToSStxChange :: "addr_env \<Rightarrow> Address option \<Rightarrow> build_error + byte list" where
  "PayToSStxChange E addr = pay_tagged E OP_SSTXCHANGE addr"

definition PayToSSGen :: "addr_env \<Rightarrow> Address option \<Rightarrow> build_error + byte list" where
  "PayToSSGen E addr = pay_tagged E OP_SSGEN addr"

definition PayToSSGenPKHDirect :: "byte list \<Rightarrow> build_error + byte list" where
  "PayToSSGenPKHDirect pkh = tagged_pkh OP_SSGEN pkh"

definition PayToSSGenSHDirect :: "byte list \<Rightarrow> build_error + byte list" where
  "PayToSSGenSHDirect sh = tagged_sh OP_SSGEN sh"

definition PayToSSRtx :: "addr_env \<Rightarrow> Address option \<Rightarrow> build_error + byte list" where
  "PayToSSRtx E addr = pay_tagged E OP_SSRTX addr"

definition PayToSSRtxPKHDirect :: "byte list \<Rightarrow> build_error + byte list" where
  "PayToSSRtxPKHDirect pkh = tagged_pkh OP_SSRTX pkh"

definition PayToSSRtxSHDirect :: "byte list \<Rightarrow> build_error + byte list" where
  "PayToSSRtxSHDirect sh = tagged_sh OP_SSRTX sh"

definition op_return :: "byte list \<Rightarrow> build_error + byte list" where
  "op_return data = sb_Script (AddData data (AddOp OP_RETURN NewScriptBuilder))"

definition GenerateSStxAddrPush ::
  "addr_env \<Rightarrow> Address option \<Rightarrow> uint64 \<Rightarrow> uint16 \<Rightarrow> build_error + byte list" where
  "GenerateSStxAddrPush E addr amount limits =
     bindE (stake_addr_type addr) (\<lambda>scriptType.
     let adBytes = copy_array 20 (ScriptAddress E (the addr)) @ le_bytes 8 (unat amount) @
           le_bytes 2 (unat limits);
         adBytes = (if scriptType = ScriptHashTy then adBytes[27 := adBytes ! 27 OR 0x80] else adBytes)
     in op_return adBytes)"

definition GenerateSSGenBlockRef :: "hash \<Rightarrow> uint32 \<Rightarrow> build_error + byte list" where
  "GenerateSSGenBlockRef blockHash height =
     op_return (copy_array 32 blockHash @ le_bytes 4 (unat height))"

definition GenerateSSGenVotes :: "uint16 \<Rightarrow> build_error + byte list" where
  "GenerateSSGenVotes votebits = op_return (le_bytes 2 (unat votebits))"

definition GenerateProvablyPruneableOut :: "byte list \<Rightarrow> build_error + byte list" where
  "GenerateProvablyPruneableOut data =
     (if length data > MaxDataCarrierSize then Inl (BuildErr (ApiErr ErrTooMuchNullData))
      else op_return data)"

text \<open>\<open>pubkeys\<close> are the bytes of the \<open>ScriptAddress\<close> of the key addresses.\<close>

definition MultiSigScript :: "byte list list \<Rightarrow> int \<Rightarrow> build_error + byte list" where
  "MultiSigScript pubkeys nrequired =
     (if int (length pubkeys) < nrequired then Inl (BuildErr (ApiErr ErrTooManyRequiredSigs))
      else
        case bindE (AddInt64 nrequired NewScriptBuilder) (\<lambda>b.
               AddInt64 (int (length pubkeys)) (fold AddData pubkeys b)) of
          Inl e \<Rightarrow> Inl (BuildErr e)
        | Inr b \<Rightarrow> sb_Script (AddOp OP_CHECKMULTISIG b))"

section \<open>Addresses of a script\<close>

text \<open>\<open>if err == nil { addrs = append(addrs, addr) }\<close>\<close>

definition try_addr :: "addr_error + Address \<Rightarrow> script_error + Address list" where
  "try_addr r = (case r of Inl (KeyErr EcPanic) \<Rightarrow> Inl IndexPanic | Inl _ \<Rightarrow> Inr [] | Inr a \<Rightarrow> Inr [a])"

definition key_addr :: "addr_env \<Rightarrow> AddressParams \<Rightarrow> byte list \<Rightarrow> script_error + Address list" where
  "key_addr E net b =
     try_addr (bindE (parse_key E b) (\<lambda>pk. NewAddressSecpPubKeyCompressed E pk net))"

text \<open>\<open>suite, _ := ExtractPkScriptAltSigType(pkScript)\<close> for a script of an alternative form\<close>

definition alt_suite :: "byte list \<Rightarrow> script_error + int" where
  "alt_suite pkScript =
     (case ExtractPkScriptAltSigType pkScript of
        Inl IndexPanic \<Rightarrow> Inl IndexPanic | Inl _ \<Rightarrow> Inr (-1) | Inr suite \<Rightarrow> Inr suite)"

definition alt_key_addr ::
  "addr_env \<Rightarrow> AddressParams \<Rightarrow> int \<Rightarrow> byte list \<Rightarrow> script_error + Address list" where
  "alt_key_addr E net suite b =
     (if suite = STEd25519 then try_addr (NewAddressEdwardsPubKey E b net)
      else if suite = STSchnorrSecp256k1 then try_addr (NewAddressSecSchnorrPubKey E b net)
      else Inr [])"

function ExtractPkScriptAddrs ::
  "addr_env \<Rightarrow> uint16 \<Rightarrow> byte list \<Rightarrow> AddressParams \<Rightarrow> script_error + ScriptClass \<times> Address list \<times> int" where
  "ExtractPkScriptAddrs E version pkScript chainParams =
     (if version \<noteq> DefaultScriptVersion then Inl PlainErr
      else
        bindE (parsed_ok pkScript) (\<lambda>pops.
        let class = typeOfScript pops in
        case class of
          PubKeyHashTy \<Rightarrow>
            bindE (try_addr (NewAddressPubKeyHash (pop_data (pops ! 2)) chainParams STEcdsaSecp256k1))
              (\<lambda>addrs. Inr (class, addrs, 1))
        | PubkeyHashAltTy \<Rightarrow>
            bindE (alt_suite pkScript) (\<lambda>suite.
            bindE (try_addr (NewAddressPubKeyHash (pop_data (pops ! 2)) chainParams suite))
              (\<lambda>addrs. Inr (class, addrs, 1)))
        | PubKeyTy \<Rightarrow>
            bindE (key_addr E chainParams (pop_data (pops ! 0))) (\<lambda>addrs. Inr (class, addrs, 1))
        | PubkeyAltTy \<Rightarrow>
            bindE (alt_suite pkScript) (\<lambda>suite.
            bindE (alt_key_addr E chainParams suite (pop_data (pops ! 0)))
              (\<lambda>addrs. Inr (class, addrs, 1)))
        | ScriptHashTy \<Rightarrow>
            bindE (try_addr (NewAddressScriptHashFromHash (pop_data (pops ! 1)) chainParams))
              (\<lambda>addrs. Inr (class, addrs, 1))
        | MultiSigTy \<Rightarrow>
            let requiredSigs = asSmallInt (pop_opcode (pops ! 0));
                numPubKeys = asSmallInt (pop_opcode (pops ! (length pops - 2)))
            in bindE (foldE (\<lambda>i addrs.
                   bindE (key_addr E chainParams (pop_data (pops ! (i + 1)))) (\<lambda>a. Inr (addrs @ a)))
                 [0..<nat numPubKeys] [])
               (\<lambda>addrs. Inr (class, addrs, requiredSigs))
        | NullDataTy \<Rightarrow> Inr (class, [], 0)
        | NonStandardTy \<Rightarrow> Inr (class, [], 0)
        | _ \<Rightarrow>
            if length pkScript < 1 then Inl IndexPanic
            else
              (case ExtractPkScriptAddrs E version (drop 1 pkScript) chainParams of
                 Inl IndexPanic \<Rightarrow> Inl IndexPanic
               | Inl _ \<Rightarrow> Inr (class, [], 0)
               | Inr (_, localAddrs, requiredSigs) \<Rightarrow> Inr (class, localAddrs, requiredSigs))))"
  by pat_completeness auto

termination by (relation "measure (\<lambda>(E, v, s, p). length s)") auto

declare ExtractPkScriptAddrs.simps [simp del]

section \<open>Pushes\<close>

lemma byte_le_16: "(n :: byte) \<le> 16 \<longleftrightarrow> unat n \<le> 16"
  by (simp add: word_le_nat_alt)

lemma data_push_cases:
  assumes "length data \<le> MaxScriptElementSize"
  obtains (zero) "data = [] \<or> data = [0]" "data_push data = [OP_0]" "CanonicalDataSize data = 1"
  | (small) n where "data = [n]" "0 < unat n" "unat n \<le> 16" "data_push data = [0x50 + n]"
      "CanonicalDataSize data = 1"
  | (neg) "data = [0x81]" "data_push data = [OP_1NEGATE]" "CanonicalDataSize data = 1"
  | (short) "0 < length data" "length data \<le> 75"
      "\<not> (length data = 1 \<and> (data ! 0 \<le> 16 \<or> data ! 0 = 0x81))"
      "data_push data = word_of_nat (length data) # data" "CanonicalDataSize data = 1 + length data"
  | (one) "75 < length data" "length data \<le> 255"
      "data_push data = OP_PUSHDATA1 # le_bytes 1 (length data) @ data"
      "CanonicalDataSize data = 2 + length data"
  | (two) "255 < length data" "length data \<le> 65535"
      "data_push data = OP_PUSHDATA2 # le_bytes 2 (length data) @ data"
      "CanonicalDataSize data = 3 + length data"
proof -
  let ?l = "length data"
  consider "data = []" | n where "data = [n]" "n = 0" | n where "data = [n]" "0 < unat n" "unat n \<le> 16"
    | "data = [0x81]" | "0 < ?l" "?l \<le> 75" "\<not> (?l = 1 \<and> (data ! 0 \<le> 16 \<or> data ! 0 = 0x81))"
    | "75 < ?l" "?l \<le> 255" | "255 < ?l" "?l \<le> 65535"
  proof -
    have "?l \<le> 65535" using assms by (simp add: MaxScriptElementSize_def)
    moreover have "data = [data ! 0]" if "?l = 1" using that by (cases data) auto
    ultimately show ?thesis using that by (metis byte_le_16 gr0I length_0_conv not_le unat_eq_zero)
  qed
  then show thesis
  proof cases
    case 3
    then have "n \<le> 16" "n \<noteq> 0" by (auto simp: byte_le_16)
    with 3 show ?thesis by (intro small [of n]) (simp_all add: data_push_def CanonicalDataSize_def)
  next
    case 5
    then have "data_push data = word_of_nat ?l # data" "CanonicalDataSize data = 1 + ?l"
      by (auto simp: data_push_def CanonicalDataSize_def Let_def)
    with 5 show ?thesis by (intro short) simp_all
  next
    case 6
    then have "data_push data = OP_PUSHDATA1 # le_bytes 1 (length data) @ data"
      by (auto simp: data_push_def Let_def)
    with 6 show ?thesis by (intro one) (auto simp: CanonicalDataSize_def Let_def)
  next
    case 7
    then show ?thesis by (intro two) (auto simp: data_push_def CanonicalDataSize_def Let_def)
  qed (use zero neg in \<open>simp_all add: data_push_def CanonicalDataSize_def\<close>)
qed

text \<open>The opcode that a push is parsed to.\<close>

definition push_pop :: "byte list \<Rightarrow> parsedOpcode" where
  "push_pop data =
     \<lparr>pop_opcode = opcodeArray (hd (data_push data)),
      pop_data = (if CanonicalDataSize data = 1 then [] else data)\<rparr>"

lemma valid_push_pop [simp]: "valid_pop (push_pop data)"
  by (simp add: valid_pop_def push_pop_def)

lemma length_data_push:
  "length data \<le> MaxScriptElementSize \<Longrightarrow> length (data_push data) = CanonicalDataSize data"
  by (cases data rule: data_push_cases) simp_all

lemma small_op_length: "0 < unat n \<Longrightarrow> unat n \<le> 16 \<Longrightarrow> op_length (opcodeArray (0x50 + n)) = 1"
proof -
  assume n: "0 < unat n" "unat n \<le> 16"
  then have "unat (0x50 + n :: byte) = 80 + unat n" by (simp add: unat_word_ariths)
  moreover define v :: byte where "v = 0x50 + n"
  ultimately have "80 \<le> unat v" by simp
  then have "\<not> v \<le> 75" "v \<notin> {76, 77, 78}" by (auto simp: word_le_nat_alt)
  then show ?thesis by (simp add: opcodeArray_def flip: v_def)
qed

lemma push_pop_bytes:
  assumes "length data \<le> MaxScriptElementSize"
  shows "pop_bytes (push_pop data) = Inr (data_push data)"
  using assms
proof (cases data rule: data_push_cases)
  case (small n)
  then show ?thesis using small_op_length [of n] by (simp add: push_pop_def pop_bytes_plain)
next
  case short
  define v :: byte where "v = word_of_nat (length data)"
  have v: "unat v = length data" using short(2) by (simp add: v_def unat_of_nat)
  have "1 \<le> v \<and> v \<le> 75" using short(1,2) v by (simp add: word_le_nat_alt Suc_le_eq)
  then have "op_length (opcodeArray v) = int (length data) + 1"
    by (simp add: opcodeArray_def flip: v)
  with short v show ?thesis
    by (auto simp: push_pop_def pop_bytes_data [of _ "length data"] v_def)
next
  case one
  have "of_le_bytes (le_bytes 1 (length data)) = length data"
    using one(2) by (simp add: of_le_bytes_le_bytes del: le_bytes.simps)
  with one show ?thesis by (simp add: push_pop_def pop_bytes_push [of 1] opcodeArray_def)
next
  case two
  have "of_le_bytes (le_bytes 2 (length data)) = length data" 
    using two(2) by (simp add: of_le_bytes_le_bytes)
  with two show ?thesis by (simp add: push_pop_def pop_bytes_push [of 2] opcodeArray_def)
qed (simp_all add: push_pop_def pop_bytes_plain opcodeArray_def)

text \<open>Its handler pushes the data, with the one exception that a single zero byte is pushed as no byte.\<close>

lemma Bytes_small:
  assumes "0 < unat (n :: byte)" "unat n \<le> 16"
  shows "scriptNum_Bytes (uint n) = Inr [n]"
proof -
  have "n \<noteq> 0" using assms(1) by auto
  then have n: "uint n \<noteq> 0" "num_digits (uint n) = [n]"
    using num_digits_of_le_bytes [of n "[]"] by (simp_all add: uint_0_iff)
  moreover have "n AND 0x80 = 0" using byte_sign [of n] assms(2) by simp
  ultimately show ?thesis by (simp add: scriptNum_Bytes_def Let_def)
qed

lemma push_pop_exec:
  assumes "length data \<le> MaxScriptElementSize"
  shows "opfunc E (pvalue (push_pop data)) (push_pop data) vm =
    Inr (vm\<lparr>dstack := PushByteArray (if data = [0] then [] else data) (dstack vm)\<rparr>)"
  using assms
proof (cases data rule: data_push_cases)
  case (small n)
  define v :: byte where "v = 0x50 + n"
  have "unat v = 80 + unat n" using small by (simp add: v_def unat_word_ariths)
  then have "v \<le> 0x60" "v \<noteq> 0" "\<not> v \<le> 0x4e" "v \<noteq> 0x4f" "v \<noteq> 0x50"
    using small(2,3) by (auto simp: word_le_nat_alt)
  then have "opfunc E v = opcodeN" by (simp add: opfunc_def data_op_def)
  moreover have "n \<noteq> 0" using small(2) by auto
  ultimately show ?thesis using small Bytes_small [of n]
    by (simp add: push_pop_def opcodeN_def on_dstack_def PushInt_def v_def)
next
  case short
  define v :: byte where "v = word_of_nat (length data)"
  have "unat v = length data" using short(2) by (simp add: v_def unat_of_nat)
  then have "v \<le> 0x60" "v \<noteq> 0" "v \<le> 0x4e" using short(1,2) by (auto simp: word_le_nat_alt)
  then have "opfunc E v = opcodePushData" by (simp add: opfunc_def data_op_def)
  moreover have "data \<noteq> [0]" using short(3) by auto
  ultimately show ?thesis using short
    by (auto simp: push_pop_def opcodePushData_def on_dstack_def v_def)
next
  case neg
  have "scriptNum_Bytes (-1) = Inr [0x81]" by code_simp
  with neg show ?thesis
    by (simp add: push_pop_def opfunc_def data_op_def opcode1Negate_def on_dstack_def PushInt_def)
qed (auto simp: push_pop_def opfunc_def data_op_def opcodeFalse_def opcodePushData_def on_dstack_def)

lemma push_pop_minimal:
  assumes "length data \<le> MaxScriptElementSize" "pvalue (push_pop data) \<le> OP_PUSHDATA4"
  shows "checkMinimalDataPush (push_pop data) = Inr ()"
  using assms(1)
proof (cases data rule: data_push_cases)
  case (small n)
  then have "unat (0x50 + n :: byte) = 80 + unat n" by (simp add: unat_word_ariths)
  with small assms(2) show ?thesis by (simp add: push_pop_def word_le_nat_alt)
next
  case short
  then have "unat (word_of_nat (length data) :: byte) = length data" by (simp add: unat_of_nat)
  with short show ?thesis by (auto simp: checkMinimalDataPush_def push_pop_def Let_def)
qed (use assms(2) in \<open>auto simp: checkMinimalDataPush_def push_pop_def Let_def\<close>)

section \<open>What a builder holds\<close>

text \<open>A builder without error holds a script of \<open>n\<close> bytes that parses to \<open>pops\<close>.\<close>

definition builds :: "parsedOpcode list \<Rightarrow> nat \<Rightarrow> ScriptBuilder \<Rightarrow> bool" where
  "builds pops n b \<longleftrightarrow>
     sb_err b = None \<and> length (sb_script b) = n \<and> parsed_ok (sb_script b) = Inr pops"

abbreviation op_pop :: "byte \<Rightarrow> parsedOpcode" where
  "op_pop v \<equiv> \<lparr>pop_opcode = opcodeArray v, pop_data = []\<rparr>"

lemma unparse_snoc:
  "unparseScript pops = Inr s \<Longrightarrow> pop_bytes pop = Inr bs \<Longrightarrow> unparseScript (pops @ [pop]) = Inr (s @ bs)"
  by (induction pops arbitrary: s) (auto simp: bindE_eq_Inr_iff)

lemma parsed_snoc:
  assumes "parsed_ok s = Inr pops" "valid_pop pop" "pop_bytes pop = Inr bs"
  shows "parsed_ok (s @ bs) = Inr (pops @ [pop])"
  using assms unparse_snoc [of pops s pop bs] by (simp add: parsed_ok_iff parseScript_ok_iff)

lemma builds_New: "builds [] 0 NewScriptBuilder"
  by (simp add: builds_def NewScriptBuilder_def parsed_ok_iff)

lemma builds_AddOp:
  assumes "builds pops n b" "n < MaxScriptSize" "op_length (opcodeArray v) = 1"
  shows "builds (pops @ [op_pop v]) (Suc n) (AddOp v b)"
  using assms parsed_snoc [of "sb_script b" pops "op_pop v" "[v]"]
  by (simp add: builds_def AddOp_def pop_bytes_plain valid_pop_def)

lemma builds_AddData:
  assumes "builds pops n b" "n + CanonicalDataSize data \<le> MaxScriptSize"
    "length data \<le> MaxScriptElementSize"
  shows "builds (pops @ [push_pop data]) (n + CanonicalDataSize data) (AddData data b)"
  using assms parsed_snoc [of "sb_script b" pops, OF _ valid_push_pop push_pop_bytes]
  by (simp add: builds_def AddData_def addData_def length_data_push)

lemma builds_Script:
  "builds pops n b \<Longrightarrow> \<exists>s. sb_Script b = Inr s \<and> length s = n \<and> parsed_ok s = Inr pops"
  by (simp add: builds_def sb_Script_def)

lemma push_pop_data:
  "1 < length h \<Longrightarrow> length h \<le> 75 \<Longrightarrow>
    push_pop h = \<lparr>pop_opcode = opcodeArray (word_of_nat (length h)), pop_data = h\<rparr> \<and>
    CanonicalDataSize h = 1 + length h"
  by (auto simp: push_pop_def data_push_def CanonicalDataSize_def Let_def)

text \<open>The suites of the alternative signatures are pushed by small integer opcodes.\<close>

lemma push_pop_suite:
  "push_pop [1] = op_pop OP_1 \<and> CanonicalDataSize [1 :: byte] = 1"
  "push_pop [2] = op_pop OP_2 \<and> CanonicalDataSize [2 :: byte] = 1"
  by (simp_all add: push_pop_def data_push_def CanonicalDataSize_def)

lemmas build_limits = MaxScriptSize_def MaxScriptElementSize_def

text \<open>
  C15: What \<open>AddData\<close> adds to a script.  If the data is small enough for the
  engine and fits into the script, the script grows by exactly the bytes
  that \<open>CanonicalDataSize\<close> announces and parses to one more opcode.  That opcode
  is accepted as a minimal push, and executing it pushes the data, except
  that a single zero byte is pushed as the empty byte string.
\<close>

theorem add_data_pushes:
  assumes "sb_err b = None" "parsed_ok (sb_script b) = Inr pops"
    and "length (sb_script b) + CanonicalDataSize data \<le> MaxScriptSize"
    and "length data \<le> MaxScriptElementSize"
  shows "\<exists>pop. sb_err (AddData data b) = None \<and>
    length (sb_script (AddData data b)) = length (sb_script b) + CanonicalDataSize data \<and>
    parsed_ok (sb_script (AddData data b)) = Inr (pops @ [pop]) \<and>
    (pvalue pop \<le> OP_PUSHDATA4 \<longrightarrow> checkMinimalDataPush pop = Inr ()) \<and>
    opfunc E (pvalue pop) pop vm =
      Inr (vm\<lparr>dstack := PushByteArray (if data = [0] then [] else data) (dstack vm)\<rparr>)"
proof -
  have "builds (pops @ [push_pop data]) (length (sb_script b) + CanonicalDataSize data) (AddData data b)"
    using assms by (intro builds_AddData) (simp_all add: builds_def)
  then show ?thesis
    using push_pop_minimal [OF assms(4)] push_pop_exec [OF assms(4), of E vm]
    by (auto simp: builds_def)
qed

theorem add_data_pushes_witness:
  "\<forall>E vm. \<exists>pop. sb_err (AddData [0x81] NewScriptBuilder) = None \<and>
    parsed_ok (sb_script (AddData [0x81] NewScriptBuilder)) = Inr [pop] \<and>
    opfunc E (pvalue pop) pop vm = Inr (vm\<lparr>dstack := PushByteArray [0x81] (dstack vm)\<rparr>)"
proof (intro allI)
  fix E vm
  show "\<exists>pop. sb_err (AddData [0x81] NewScriptBuilder) = None \<and>
      parsed_ok (sb_script (AddData [0x81] NewScriptBuilder)) = Inr [pop] \<and>
      opfunc E (pvalue pop) pop vm = Inr (vm\<lparr>dstack := PushByteArray [0x81] (dstack vm)\<rparr>)"
    using add_data_pushes [of NewScriptBuilder "[]" "[0x81]" E vm]
    by (auto simp: NewScriptBuilder_def parsed_ok_iff CanonicalDataSize_def build_limits)
qed

section \<open>Payment scripts\<close>

definition builds_to :: "build_error + byte list \<Rightarrow> parsedOpcode list \<Rightarrow> bool" where
  "builds_to r pops \<longleftrightarrow> (\<exists>s. r = Inr s \<and> parsed_ok s = Inr pops \<and> s \<noteq> [])"

lemma builds_toI: "builds pops (Suc n) b \<Longrightarrow> builds_to (sb_Script b) pops"
  using builds_Script [of pops "Suc n" b] by (auto simp: builds_to_def)

abbreviation data_pop :: "byte list \<Rightarrow> parsedOpcode" where
  "data_pop h \<equiv> \<lparr>pop_opcode = opcodeArray (word_of_nat (length h)), pop_data = h\<rparr>"

lemma builds_AddData_short:
  assumes "builds pops n b" "n + 76 \<le> MaxScriptSize" "1 < length h" "length h \<le> 75"
  shows "builds (pops @ [data_pop h]) (Suc (n + length h)) (AddData h b)"
  using builds_AddData [of pops n b h] push_pop_data [OF assms(3,4)] assms by (simp add: build_limits)

lemma builds_AddData_suite:
  assumes "builds pops n b" "n < MaxScriptSize" "suite = STEd25519 \<or> suite = STSchnorrSecp256k1"
  shows "builds (pops @ [op_pop (word_of_int (80 + suite))]) (Suc n) (AddData [word_of_int suite] b)"
  using builds_AddData [of pops n b "[word_of_int suite]"] push_pop_suite assms
  by (auto simp: build_limits suite_defs)

lemmas builds_intros = builds_toI builds_AddOp builds_AddData_suite builds_AddData_short builds_New

lemma builds_pkh:
  assumes "length h = 20"
  shows "builds_to (payToPubKeyHashScript h)
    [op_pop OP_DUP, op_pop OP_HASH160, data_pop h, op_pop OP_EQUALVERIFY, op_pop OP_CHECKSIG]"
proof -
  have "builds_to (payToPubKeyHashScript h)
      ([] @ [op_pop OP_DUP] @ [op_pop OP_HASH160] @ [data_pop h] @ [op_pop OP_EQUALVERIFY] @ [op_pop OP_CHECKSIG])"
    unfolding payToPubKeyHashScript_def append_assoc [symmetric]
    by ((rule builds_intros)+, insert assms, simp_all add: build_limits opcodeArray_def)
  then show ?thesis by simp
qed

lemma builds_pkh_alt:
  assumes "length h = 20" "suite = STEd25519 \<or> suite = STSchnorrSecp256k1"
  shows "builds_to (pay_hash_alt suite h)
    [op_pop OP_DUP, op_pop OP_HASH160, data_pop h, op_pop OP_EQUALVERIFY,
     op_pop (word_of_int (80 + suite)), op_pop OP_CHECKSIGALT]"
proof -
  have "builds_to (pay_hash_alt suite h)
      ([] @ [op_pop OP_DUP] @ [op_pop OP_HASH160] @ [data_pop h] @ [op_pop OP_EQUALVERIFY] @
       [op_pop (word_of_int (80 + suite))] @ [op_pop OP_CHECKSIGALT])"
    unfolding pay_hash_alt_def append_assoc [symmetric]
    by ((rule builds_intros)+, insert assms, simp_all add: build_limits opcodeArray_def)
  then show ?thesis by simp
qed

lemma builds_sh:
  assumes "length h = 20"
  shows "builds_to (payToScriptHashScript h) [op_pop OP_HASH160, data_pop h, op_pop OP_EQUAL]"
proof -
  have "builds_to (payToScriptHashScript h)
      ([] @ [op_pop OP_HASH160] @ [data_pop h] @ [op_pop OP_EQUAL])"
    unfolding payToScriptHashScript_def append_assoc [symmetric]
    by ((rule builds_intros)+, insert assms, simp_all add: build_limits opcodeArray_def)
  then show ?thesis by simp
qed

lemma builds_key:
  assumes "1 < length k" "length k \<le> 75"
  shows "builds_to (payToPubKeyScript k) [data_pop k, op_pop OP_CHECKSIG]"
proof -
  have "builds_to (payToPubKeyScript k) ([] @ [data_pop k] @ [op_pop OP_CHECKSIG])"
    unfolding payToPubKeyScript_def append_assoc [symmetric]
    by ((rule builds_intros)+, insert assms, simp_all add: build_limits opcodeArray_def)
  then show ?thesis by simp
qed

lemma builds_key_alt:
  assumes "1 < length k" "length k \<le> 75" "suite = STEd25519 \<or> suite = STSchnorrSecp256k1"
  shows "builds_to (pay_key_alt suite k)
    [data_pop k, op_pop (word_of_int (80 + suite)), op_pop OP_CHECKSIGALT]"
proof -
  have "builds_to (pay_key_alt suite k)
      ([] @ [data_pop k] @ [op_pop (word_of_int (80 + suite))] @ [op_pop OP_CHECKSIGALT])"
    unfolding pay_key_alt_def append_assoc [symmetric]
    by ((rule builds_intros)+, insert assms, simp_all add: build_limits opcodeArray_def)
  then show ?thesis by simp
qed

lemma builds_tagged_pkh:
  assumes "length h = 20" "op_length (opcodeArray tag) = 1"
  shows "builds_to (tagged_pkh tag h)
    [op_pop tag, op_pop OP_DUP, op_pop OP_HASH160, data_pop h, op_pop OP_EQUALVERIFY, op_pop OP_CHECKSIG]"
proof -
  have "builds_to (tagged_pkh tag h)
      ([] @ [op_pop tag] @ [op_pop OP_DUP] @ [op_pop OP_HASH160] @ [data_pop h] @ [op_pop OP_EQUALVERIFY] @
       [op_pop OP_CHECKSIG])"
    unfolding tagged_pkh_def append_assoc [symmetric]
    by ((rule builds_intros)+, simp_all add: assms build_limits, simp_all add: opcodeArray_def)
  then show ?thesis by simp
qed

lemma builds_tagged_sh:
  assumes "length h = 20" "op_length (opcodeArray tag) = 1"
  shows "builds_to (tagged_sh tag h) [op_pop tag, op_pop OP_HASH160, data_pop h, op_pop OP_EQUAL]"
proof -
  have "builds_to (tagged_sh tag h)
      ([] @ [op_pop tag] @ [op_pop OP_HASH160] @ [data_pop h] @ [op_pop OP_EQUAL])"
    unfolding tagged_sh_def append_assoc [symmetric]
    by ((rule builds_intros)+, simp_all add: assms build_limits, simp_all add: opcodeArray_def)
  then show ?thesis by simp
qed

section \<open>Reading addresses back\<close>

lemmas class_defs = typeOfScript_def isPubkey_def isPubkeyAlt_def isPubkeyHash_def isPubkeyHashAlt_def
  isScriptHash_def isMultiSig_def isNullData_def isStakeSubmission_def isStakeGen_def
  isStakeRevocation_def isSStxChange_def stake_form_def

lemma data_pop_20: "length h = 20 \<Longrightarrow> data_pop h = \<lparr>pop_opcode = opcodeArray OP_DATA_20, pop_data = h\<rparr>"
  by simp

lemma class_pkh:
  "length h = 20 \<Longrightarrow> typeOfScript [op_pop OP_DUP, op_pop OP_HASH160, data_pop h, op_pop OP_EQUALVERIFY,
     op_pop OP_CHECKSIG] = PubKeyHashTy"
  by (simp add: class_defs)

lemma class_pkh_alt:
  "length h = 20 \<Longrightarrow> suite = STEd25519 \<or> suite = STSchnorrSecp256k1 \<Longrightarrow>
    typeOfScript [op_pop OP_DUP, op_pop OP_HASH160, data_pop h, op_pop OP_EQUALVERIFY,
      op_pop (word_of_int (80 + suite)), op_pop OP_CHECKSIGALT] = PubkeyHashAltTy"
  by (auto simp: class_defs isOneByteMaxDataPush_def suite_defs)

lemma class_sh:
  "length h = 20 \<Longrightarrow> typeOfScript [op_pop OP_HASH160, data_pop h, op_pop OP_EQUAL] = ScriptHashTy"
  by (simp add: class_defs isOneByteMaxDataPush_def)

lemma class_key: "length k = 33 \<or> length k = 65 \<Longrightarrow> typeOfScript [data_pop k, op_pop OP_CHECKSIG] = PubKeyTy"
  by (auto simp: class_defs)

lemma class_key_alt:
  "length k \<le> 75 \<Longrightarrow> suite = STEd25519 \<or> suite = STSchnorrSecp256k1 \<Longrightarrow>
    typeOfScript [data_pop k, op_pop (word_of_int (80 + suite)), op_pop OP_CHECKSIGALT] = PubkeyAltTy"
  by (auto simp: class_defs isOneByteMaxDataPush_def suite_defs)

text \<open>A tag of a stake output, and the class of the outputs that it marks.\<close>

definition stake_tag :: "byte \<Rightarrow> ScriptClass \<Rightarrow> bool" where
  "stake_tag tag class \<longleftrightarrow>
     (tag, class) \<in> {(OP_SSTX, StakeSubmissionTy), (OP_SSGEN, StakeGenTy), (OP_SSRTX, StakeRevocationTy),
       (OP_SSTXCHANGE, StakeSubChangeTy)}"

lemma class_tagged:
  assumes "stake_tag tag class" "length h = 20"
  shows "typeOfScript [op_pop tag, op_pop OP_DUP, op_pop OP_HASH160, data_pop h, op_pop OP_EQUALVERIFY,
      op_pop OP_CHECKSIG] = class"
    "typeOfScript [op_pop tag, op_pop OP_HASH160, data_pop h, op_pop OP_EQUAL] = class"
  using assms by (auto simp: stake_tag_def class_defs isOneByteMaxDataPush_def isSmallInt_def)

lemma extract_pkh:
  assumes "builds_to r [op_pop OP_DUP, op_pop OP_HASH160, data_pop h, op_pop OP_EQUALVERIFY,
      op_pop OP_CHECKSIG]"
    and "length h = 20" "NewAddressPubKeyHash h net STEcdsaSecp256k1 = Inr a"
  shows "\<exists>s. r = Inr s \<and> ExtractPkScriptAddrs E 0 s net = Inr (PubKeyHashTy, [a], 1)"
  using assms class_pkh [OF assms(2)]
  by (auto simp: builds_to_def ExtractPkScriptAddrs.simps DefaultScriptVersion_def try_addr_def)

lemma extract_sh:
  assumes "builds_to r [op_pop OP_HASH160, data_pop h, op_pop OP_EQUAL]"
    and "length h = 20" "NewAddressScriptHashFromHash h net = Inr a"
  shows "\<exists>s. r = Inr s \<and> ExtractPkScriptAddrs E 0 s net = Inr (ScriptHashTy, [a], 1)"
  using assms class_sh [OF assms(2)]
  by (auto simp: builds_to_def ExtractPkScriptAddrs.simps DefaultScriptVersion_def try_addr_def)

lemma alt_suite_pops:
  assumes "suite = STEd25519 \<or> suite = STSchnorrSecp256k1"
  shows "length h = 20 \<Longrightarrow> parsed_ok s = Inr [op_pop OP_DUP, op_pop OP_HASH160, data_pop h,
      op_pop OP_EQUALVERIFY, op_pop (word_of_int (80 + suite)), op_pop OP_CHECKSIGALT] \<Longrightarrow>
      alt_suite s = Inr suite"
    "length k \<le> 75 \<Longrightarrow> parsed_ok s = Inr [data_pop k, op_pop (word_of_int (80 + suite)),
      op_pop OP_CHECKSIGALT] \<Longrightarrow> alt_suite s = Inr suite"
  using assms
  by (auto simp: alt_suite_def ExtractPkScriptAltSigType_def isPubkeyAlt_def isPubkeyHashAlt_def
      isOneByteMaxDataPush_def extractOneBytePush_def suite_defs)

lemma extract_pkh_alt:
  assumes "builds_to r [op_pop OP_DUP, op_pop OP_HASH160, data_pop h, op_pop OP_EQUALVERIFY,
      op_pop (word_of_int (80 + suite)), op_pop OP_CHECKSIGALT]"
    and "length h = 20" "suite = STEd25519 \<or> suite = STSchnorrSecp256k1"
    and "NewAddressPubKeyHash h net suite = Inr a"
  shows "\<exists>s. r = Inr s \<and> ExtractPkScriptAddrs E 0 s net = Inr (PubkeyHashAltTy, [a], 1)"
  using assms(1,4) class_pkh_alt [OF assms(2,3)] alt_suite_pops(1) [OF assms(3,2)]
  by (auto simp: builds_to_def ExtractPkScriptAddrs.simps DefaultScriptVersion_def try_addr_def)

text \<open>The addresses found for a key, if its compressed form can be parsed again.\<close>

definition compressed_addrs :: "addr_env \<Rightarrow> AddressParams \<Rightarrow> PublicKey \<Rightarrow> Address list" where
  "compressed_addrs E net k = (case NewAddressSecpPubKeyCompressed E k net of Inl _ \<Rightarrow> [] | Inr a \<Rightarrow> [a])"

lemma extract_key:
  assumes "builds_to r [data_pop b, op_pop OP_CHECKSIG]" and "length b = 33 \<or> length b = 65" and "parse_key E b = Inr k"
  shows "\<exists>s. r = Inr s \<and> ExtractPkScriptAddrs E 0 s net = Inr (PubKeyTy, compressed_addrs E net k, 1)"
proof -
  have "key_addr E net b = Inr (compressed_addrs E net k)"
    using assms(3) new_secp_key_no_panic [of E "SerializeCompressed k" net]
    by (auto simp: key_addr_def NewAddressSecpPubKeyCompressed_def try_addr_def compressed_addrs_def
        split: sum.split addr_error.split ec_error.split)
  then show ?thesis using assms(1) class_key [OF assms(2)]
    by (auto simp: builds_to_def ExtractPkScriptAddrs.simps DefaultScriptVersion_def)
qed

lemma extract_key_alt:
  assumes "builds_to r [data_pop k, op_pop (word_of_int (80 + suite)), op_pop OP_CHECKSIGALT]"
    and "length k \<le> 75" "suite = STEd25519 \<or> suite = STSchnorrSecp256k1"
    and "alt_key_addr E net suite k = Inr [a]"
  shows "\<exists>s. r = Inr s \<and> ExtractPkScriptAddrs E 0 s net = Inr (PubkeyAltTy, [a], 1)"
  using assms(1,4) class_key_alt [OF assms(2,3)] alt_suite_pops(2) [OF assms(3,2)]
  by (auto simp: builds_to_def ExtractPkScriptAddrs.simps DefaultScriptVersion_def)

lemma pay_pkh:
  assumes "known_net net" "NewAddressPubKeyHash h net algo = Inr a"
  shows "\<exists>s. PayToAddrScript E (Some a) = Inr s \<and> ExtractPkScriptAddrs E 0 s net =
    Inr (if algo = STEcdsaSecp256k1 then PubKeyHashTy else PubkeyHashAltTy, [a], 1)"
proof -
  from assms obtain f where a: "length h = 20" "a = AddressPubKeyHash net h (f net)" "DSA a net = algo"
    by (rule new_hash_address)
  consider "algo = STEcdsaSecp256k1" | "algo = STEd25519 \<or> algo = STSchnorrSecp256k1"
    using assms(2) by (auto simp: NewAddressPubKeyHash_def split: if_splits)
  then show ?thesis
  proof cases
    case 1
    then have "PayToAddrScript E (Some a) = payToPubKeyHashScript h"
      using a by (simp add: PayToAddrScript_def)
    with 1 extract_pkh [OF builds_pkh a(1)] a(1) assms(2) show ?thesis by simp
  next
    case 2
    then have "PayToAddrScript E (Some a) = pay_hash_alt algo h" "algo \<noteq> STEcdsaSecp256k1"
      using a by (auto simp: PayToAddrScript_def payToPubKeyHashEdwardsScript_def
          payToPubKeyHashSchnorrScript_def suite_defs)
    with 2 extract_pkh_alt [OF builds_pkh_alt a(1) 2] a(1) assms(2) show ?thesis by simp
  qed
qed

lemma pay_sh:
  assumes "NewAddressScriptHashFromHash h net = Inr a"
  shows "\<exists>s. PayToAddrScript E (Some a) = Inr s \<and> ExtractPkScriptAddrs E 0 s net = Inr (ScriptHashTy, [a], 1)"
proof -
  from assms have a: "length h = 20" "a = AddressScriptHash net h (ScriptHashAddrID net)"
    by (auto simp: NewAddressScriptHashFromHash_def newAddressScriptHashFromHash_def split: if_splits)
  then show ?thesis
    using extract_sh [OF builds_sh a(1) assms] by (simp add: PayToAddrScript_def)
qed

lemma pay_key:
  assumes "NewAddressSecpPubKey E b net = Inr a" "length b = 33"
  shows "\<exists>s. PayToAddrScript E (Some a) = Inr s \<and> ExtractPkScriptAddrs E 0 s net = Inr (PubKeyTy, [a], 1)"
proof -
  from assms obtain k where k: "parse_key E b = Inr k"
    "a = AddressSecpPubKey net PKFCompressed k (PubKeyHashAddrID net)" by (rule new_secp_key)
  with assms(2) have c: "SerializeCompressed k = b" by (blast intro: parse_key_compressed)
  then have "PayToAddrScript E (Some a) = payToPubKeyScript b" using k(2) by (simp add: PayToAddrScript_def)
  moreover have "compressed_addrs E net k = [a]"
    using assms(1) c by (simp add: compressed_addrs_def NewAddressSecpPubKeyCompressed_def)
  ultimately show ?thesis using extract_key [OF builds_key _ k(1), of net] assms(2) by simp
qed

lemma pay_key_uncompressed:
  assumes "NewAddressSecpPubKey E b net = Inr a" "length b \<noteq> 33"
  shows "\<exists>s k. parse_key E b = Inr k \<and> PayToAddrScript E (Some a) = Inr s \<and>
    ExtractPkScriptAddrs E 0 s net = Inr (PubKeyTy, compressed_addrs E net k, 1) \<and> a \<notin> set (compressed_addrs E net k)"
proof -
  from assms obtain k where k: "parse_key E b = Inr k" "b ! 0 = 4"
    "a = AddressSecpPubKey net PKFUncompressed k (PubKeyHashAddrID net)" by (rule new_secp_key_uncompressed)
  note u = parse_key_uncompressed [OF k(1) assms(2) k(2)]
  then have "PayToAddrScript E (Some a) = payToPubKeyScript b" using k(3) by (simp add: PayToAddrScript_def)
  moreover have "length (SerializeCompressed k) = 33" by (simp add: u(1,3))
  then have "NewAddressSecpPubKey E (SerializeCompressed k) net \<noteq> Inr a"
    using new_secp_key [of E "SerializeCompressed k" net a] k(3) by blast
  then have "a \<notin> set (compressed_addrs E net k)"
    by (auto simp: compressed_addrs_def NewAddressSecpPubKeyCompressed_def split: sum.splits)
  ultimately show ?thesis using extract_key [OF builds_key _ k(1), of net] u(1) k(1) by auto
qed

lemma pay_schnorr:
  assumes "NewAddressSecSchnorrPubKey E b net = Inr a"
  shows "\<exists>s. PayToAddrScript E (Some a) = Inr s \<and> ExtractPkScriptAddrs E 0 s net = Inr (PubkeyAltTy, [a], 1)"
proof -
  from assms obtain k where k: "parse_key E b = Inr k" "length b = 33"
    "a = AddressSecSchnorrPubKey net k (PKHSchnorrAddrID net)" by (rule new_schnorr_key)
  then have "PayToAddrScript E (Some a) = pay_key_alt STSchnorrSecp256k1 b"
    using parse_key_compressed(1) [of E b k]
    by (simp add: PayToAddrScript_def PublicKey_Serialize_def payToSchnorrPubKeyScript_def)
  moreover have "alt_key_addr E net STSchnorrSecp256k1 b = Inr [a]"
    using assms by (simp add: alt_key_addr_def try_addr_def suite_defs)
  ultimately show ?thesis
    using extract_key_alt [OF builds_key_alt, of b STSchnorrSecp256k1 E net a] k(2) by simp
qed

lemma pay_edwards:
  assumes "NewAddressEdwardsPubKey E b net = Inr a" "ScriptAddress E a = b" "length b = 32"
  shows "\<exists>s. PayToAddrScript E (Some a) = Inr s \<and> ExtractPkScriptAddrs E 0 s net = Inr (PubkeyAltTy, [a], 1)"
proof -
  from assms obtain k where "a = AddressEdwardsPubKey net k (PKHEdwardsAddrID net)"
    by (auto simp: NewAddressEdwardsPubKey_def split: option.splits)
  then have "PayToAddrScript E (Some a) = pay_key_alt STEd25519 b"
    using assms(2) by (simp add: PayToAddrScript_def payToEdwardsPubKeyScript_def)
  moreover have "alt_key_addr E net STEd25519 b = Inr [a]"
    using assms(1) by (simp add: alt_key_addr_def try_addr_def)
  ultimately show ?thesis
    using extract_key_alt [OF builds_key_alt, of b STEd25519 E net a] assms(3) by simp
qed

text \<open>
  C13: Paying to an address and reading the script.  For a network of the code and
  an address made from a public key hash, a script hash, a compressed secp256k1
  key, a Schnorr key, or an Ed25519 key that serializes to the 32 bytes it was
  parsed from, \<open>PayToAddrScript\<close> succeeds, and \<open>ExtractPkScriptAddrs\<close> finds in the
  script the class that belongs to the address, exactly this address, and one
  required signature.  For an uncompressed secp256k1 key the script is built and
  classified in the same way, but the address found is that of the compressed key,
  never the one that was paid to.
\<close>

theorem pay_to_addr_roundtrip:
  assumes "known_net net"
  shows "(NewAddressPubKeyHash h net algo = Inr a \<longrightarrow>
      (\<exists>s. PayToAddrScript E (Some a) = Inr s \<and> ExtractPkScriptAddrs E 0 s net =
        Inr (if algo = STEcdsaSecp256k1 then PubKeyHashTy else PubkeyHashAltTy, [a], 1))) \<and>
    (NewAddressScriptHashFromHash h net = Inr a \<longrightarrow>
      (\<exists>s. PayToAddrScript E (Some a) = Inr s \<and>
        ExtractPkScriptAddrs E 0 s net = Inr (ScriptHashTy, [a], 1))) \<and>
    (NewAddressSecpPubKey E b net = Inr a \<and> length b = 33 \<longrightarrow>
      (\<exists>s. PayToAddrScript E (Some a) = Inr s \<and>
        ExtractPkScriptAddrs E 0 s net = Inr (PubKeyTy, [a], 1))) \<and>
    (NewAddressSecpPubKey E b net = Inr a \<and> length b \<noteq> 33 \<longrightarrow>
      (\<exists>s k addrs. parse_key E b = Inr k \<and> PayToAddrScript E (Some a) = Inr s \<and>
        addrs = (case NewAddressSecpPubKeyCompressed E k net of Inl _ \<Rightarrow> [] | Inr c \<Rightarrow> [c]) \<and>
        ExtractPkScriptAddrs E 0 s net = Inr (PubKeyTy, addrs, 1) \<and> a \<notin> set addrs)) \<and>
    (NewAddressSecSchnorrPubKey E b net = Inr a \<or>
     NewAddressEdwardsPubKey E b net = Inr a \<and> ScriptAddress E a = b \<and> length b = 32 \<longrightarrow>
      (\<exists>s. PayToAddrScript E (Some a) = Inr s \<and>
        ExtractPkScriptAddrs E 0 s net = Inr (PubkeyAltTy, [a], 1)))"
  using pay_pkh [OF assms, of h algo a E] pay_sh [of h net a E] pay_key [of E b net a]
    pay_key_uncompressed [of E b net a, unfolded compressed_addrs_def] pay_schnorr [of E b net a] pay_edwards [of E b net a]
  by blast

theorem pay_to_addr_roundtrip_witness:
  "let h = replicate 20 7; a = AddressPubKeyHash SimNetParams h [0x0e, 0x53] in
   NewAddressPubKeyHash h SimNetParams STSchnorrSecp256k1 = Inr a \<and>
   (\<exists>s. PayToAddrScript ex_addr_env (Some a) = Inr s \<and>
     ExtractPkScriptAddrs ex_addr_env 0 s SimNetParams = Inr (PubkeyHashAltTy, [a], 1)) \<and>
   (\<exists>a s addrs. NewAddressSecpPubKey ex_addr_env ex_long_key SimNetParams = Inr a \<and>
     PayToAddrScript ex_addr_env (Some a) = Inr s \<and>
     ExtractPkScriptAddrs ex_addr_env 0 s SimNetParams = Inr (PubKeyTy, addrs, 1) \<and> a \<notin> set addrs)"
proof -
  have net: "known_net SimNetParams" by (simp add: known_net_def)
  note R = pay_to_addr_roundtrip [OF net]
  have "length ex_long_key \<noteq> 33" by (simp add: ex_long_key_def)
  with R [of "[]" 0 _ ex_addr_env ex_long_key] ex_long_address
  have "\<exists>a s addrs. NewAddressSecpPubKey ex_addr_env ex_long_key SimNetParams = Inr a \<and>
     PayToAddrScript ex_addr_env (Some a) = Inr s \<and>
     ExtractPkScriptAddrs ex_addr_env 0 s SimNetParams = Inr (PubKeyTy, addrs, 1) \<and> a \<notin> set addrs"
    by blast
  with R [of "replicate 20 7" STSchnorrSecp256k1 "AddressPubKeyHash SimNetParams (replicate 20 7) [0x0e, 0x53]"
      ex_addr_env "[]"]
  show ?thesis
    by (simp add: NewAddressPubKeyHash_def newAddressPubKeyHash_def suite_defs SimNetParams_def)
qed

section \<open>Stake scripts\<close>

lemma stake_tag_length: "stake_tag tag class \<Longrightarrow> op_length (opcodeArray tag) = 1"
  by (auto simp: stake_tag_def opcodeArray_def)

lemma stake_tag_class: "stake_tag tag class \<Longrightarrow> stake_class class"
  by (auto simp: stake_tag_def stake_class_def)

lemma stake_tag_opcode: "stake_tag tag class \<Longrightarrow> isStakeOpcode (opcodeArray tag)"
  by (auto simp: stake_tag_def isStakeOpcode_def)

text \<open>The script behind the tag is the one that the tag is dropped from.\<close>

lemma parsed_drop_tag:
  assumes "parsed_ok s = Inr (op_pop tag # pops)" "op_length (opcodeArray tag) = 1"
  shows "\<exists>s'. s = tag # s' \<and> parsed_ok s' = Inr pops"
proof -
  have "list_all valid_pop (op_pop tag # pops)" "unparseScript (op_pop tag # pops) = Inr s"
    using assms(1) by (simp_all add: parsed_ok_iff parseScript_ok_iff)
  then show ?thesis
    using assms(2) by (auto simp: parsed_ok_iff parseScript_ok_iff bindE_eq_Inr_iff pop_bytes_plain)
qed

lemma extract_tagged:
  assumes tag: "stake_tag tag class" and s: "parsed_ok s = Inr (op_pop tag # pops)"
    and cls: "typeOfScript (op_pop tag # pops) = class"
    and sub: "\<And>s'. parsed_ok s' = Inr pops \<Longrightarrow> ExtractPkScriptAddrs E 0 s' net = Inr (subclass, addrs, n)"
  shows "ExtractPkScriptAddrs E 0 s net = Inr (class, addrs, n)"
proof -
  obtain s' where s': "s = tag # s'" "parsed_ok s' = Inr pops"
    using parsed_drop_tag [OF s stake_tag_length [OF tag]] by blast
  then show ?thesis
    using sub [OF s'(2)] s cls tag
    by (subst ExtractPkScriptAddrs.simps)
      (auto simp: DefaultScriptVersion_def stake_tag_def split: ScriptClass.splits)
qed

lemma subclass_tagged:
  assumes "stake_tag tag class" "parsed_ok s = Inr (op_pop tag # pops)"
    and "typeOfScript (op_pop tag # pops) = class"
    and "list_all (\<lambda>pop. \<not> isStakeOpcode (pop_opcode pop)) pops"
  shows "GetScriptClass 0 s = class" "GetStakeOutSubclass s = Inr (typeOfScript pops)"
  using assms stake_tag_class [OF assms(1)] stake_tag_opcode [OF assms(1)]
  by (simp_all add: GetScriptClass_def GetStakeOutSubclass_def DefaultScriptVersion_def list_all_iff
      filter_id_conv [THEN iffD2])

lemma pay_tagged_pkh:
  assumes net: "known_net net" and tag: "stake_tag tag class"
    and a: "NewAddressPubKeyHash h net STEcdsaSecp256k1 = Inr a"
  shows "\<exists>s. pay_tagged E tag (Some a) = Inr s \<and> GetScriptClass 0 s = class \<and>
    GetStakeOutSubclass s = Inr PubKeyHashTy \<and> ExtractPkScriptAddrs E 0 s net = Inr (class, [a], 1)"
proof -
  from net a obtain f where h: "length h = 20" and eq: "a = AddressPubKeyHash net h (f net)"
    and dsa: "DSA a net = STEcdsaSecp256k1" by (rule new_hash_address)
  let ?pops = "[op_pop OP_DUP, op_pop OP_HASH160, data_pop h, op_pop OP_EQUALVERIFY, op_pop OP_CHECKSIG]"
  have "pay_tagged E tag (Some a) = tagged_pkh tag h"
    using dsa by (simp add: pay_tagged_def stake_addr_type_def eq)
  then obtain s where s: "pay_tagged E tag (Some a) = Inr s" "parsed_ok s = Inr (op_pop tag # ?pops)"
    using builds_tagged_pkh [OF h stake_tag_length [OF tag]] by (auto simp: builds_to_def)
  have sub: "ExtractPkScriptAddrs E 0 s' net = Inr (PubKeyHashTy, [a], 1)" if "parsed_ok s' = Inr ?pops" for s'
    using extract_pkh [OF _ h a, of "Inr s'" E] that by (cases s') (auto simp: builds_to_def parsed_ok_iff)
  note cls = class_tagged(1) [OF tag h]
  from extract_tagged [OF tag s(2) cls sub] subclass_tagged [OF tag s(2) cls] s(1) class_pkh [OF h]
  show ?thesis by (simp add: isStakeOpcode_def h)
qed

lemma pay_tagged_sh:
  assumes tag: "stake_tag tag class" and a: "NewAddressScriptHashFromHash h net = Inr a"
  shows "\<exists>s. pay_tagged E tag (Some a) = Inr s \<and> GetScriptClass 0 s = class \<and>
    GetStakeOutSubclass s = Inr ScriptHashTy \<and> ExtractPkScriptAddrs E 0 s net = Inr (class, [a], 1)"
proof -
  from a have h: "length h = 20" and eq: "a = AddressScriptHash net h (ScriptHashAddrID net)"
    by (auto simp: NewAddressScriptHashFromHash_def newAddressScriptHashFromHash_def split: if_splits)
  let ?pops = "[op_pop OP_HASH160, data_pop h, op_pop OP_EQUAL]"
  have "pay_tagged E tag (Some a) = tagged_sh tag h"
    by (simp add: pay_tagged_def stake_addr_type_def eq)
  then obtain s where s: "pay_tagged E tag (Some a) = Inr s" "parsed_ok s = Inr (op_pop tag # ?pops)"
    using builds_tagged_sh [OF h stake_tag_length [OF tag]] by (auto simp: builds_to_def)
  have sub: "ExtractPkScriptAddrs E 0 s' net = Inr (ScriptHashTy, [a], 1)" if "parsed_ok s' = Inr ?pops" for s'
    using extract_sh [OF _ h a, of "Inr s'" E] that by (cases s') (auto simp: builds_to_def parsed_ok_iff)
  note cls = class_tagged(2) [OF tag h]
  from extract_tagged [OF tag s(2) cls sub] subclass_tagged [OF tag s(2) cls] s(1) class_sh [OF h]
  show ?thesis by (simp add: isStakeOpcode_def h)
qed

text \<open>
  C14: Stake outputs are recognised.  The scripts that \<open>PayToSStx\<close>,
  \<open>PayToSSGen\<close>, \<open>PayToSSRtx\<close> and \<open>PayToSStxChange\<close> make for a public key
  hash or a script hash have the class of their tag, the subclass of the
  address, and give the address back; every other kind of address is refused.
\<close>

theorem stake_scripts_roundtrip:
  assumes net: "known_net net"
    and pay: "(pay, class) \<in> {(PayToSStx E, StakeSubmissionTy), (PayToSSGen E, StakeGenTy),
      (PayToSSRtx E, StakeRevocationTy), (PayToSStxChange E, StakeSubChangeTy)}"
  shows "(NewAddressPubKeyHash h net STEcdsaSecp256k1 = Inr a \<and> sub = PubKeyHashTy \<or>
      NewAddressScriptHashFromHash h net = Inr a \<and> sub = ScriptHashTy \<longrightarrow>
      (\<exists>s. pay (Some a) = Inr s \<and> GetScriptClass 0 s = class \<and> GetStakeOutSubclass s = Inr sub \<and>
        ExtractPkScriptAddrs E 0 s net = Inr (class, [a], 1))) \<and>
    (NewAddressPubKeyHash h net algo = Inr a \<and> algo \<noteq> STEcdsaSecp256k1 \<or>
      a \<in> range (\<lambda>(n, f, k, i). AddressSecpPubKey n f k i) \<union>
          range (\<lambda>(n, k, i). AddressEdwardsPubKey n k i) \<union>
          range (\<lambda>(n, k, i). AddressSecSchnorrPubKey n k i) \<longrightarrow>
      pay (Some a) = Inl unsupported)"
proof -
  obtain tag where tag: "stake_tag tag class" "pay = pay_tagged E tag"
    using pay by (auto simp: stake_tag_def PayToSStx_def [abs_def] PayToSSGen_def [abs_def]
        PayToSSRtx_def [abs_def] PayToSStxChange_def [abs_def])
  have "pay (Some a) = Inl unsupported" if "NewAddressPubKeyHash h net algo = Inr a" "algo \<noteq> STEcdsaSecp256k1"
  proof -
    from net that(1) obtain f where "a = AddressPubKeyHash net h (f net)" "DSA a net = algo"
      by (rule new_hash_address)
    with that(2) tag(2) show ?thesis by (simp add: pay_tagged_def stake_addr_type_def)
  qed
  then show ?thesis
    using pay_tagged_pkh [OF net tag(1), of h a E] pay_tagged_sh [OF tag(1), of h net a E] tag(2)
    by (auto simp: pay_tagged_def stake_addr_type_def)
qed

theorem stake_scripts_roundtrip_witness:
  "let a = AddressScriptHash MainNetParams (replicate 20 5) [0x08, 0x1a] in
   \<exists>s. PayToSSGen ex_addr_env (Some a) = Inr s \<and> GetScriptClass 0 s = StakeGenTy \<and>
     GetStakeOutSubclass s = Inr ScriptHashTy \<and>
     ExtractPkScriptAddrs ex_addr_env 0 s MainNetParams = Inr (StakeGenTy, [a], 1)"
  using stake_scripts_roundtrip [of MainNetParams "PayToSSGen ex_addr_env" StakeGenTy ex_addr_env
      "replicate 20 5" "AddressScriptHash MainNetParams (replicate 20 5) [0x08, 0x1a]" ScriptHashTy 0]
  by (simp add: known_net_def NewAddressScriptHashFromHash_def newAddressScriptHashFromHash_def
      MainNetParams_def)

end
