(* ===== verification/Spec2Isabelle.thy ===== *)
theory Spec2Isabelle
  imports StakeStore MsgBlock MultiSig PayScript
begin

text \<open>
  A verification development for fnod, a full node of a hybrid proof-of-work and
  proof-of-stake chain written in Go.

  \<^bold>\<open>The program.\<close>  A node keeps three kinds of state that all other code trusts.
  The \<^emph>\<open>stake\<close> component (src/blockchain/stake) holds the tickets of the chain: live,
  missed and revoked ones, the winners of the next block, and for every block the undo
  data that takes the block back.  The \<^emph>\<open>wire\<close> component (src/wire) turns blocks and
  transactions into bytes and back; a block is known by the hash of those bytes.  The
  \<^emph>\<open>script\<close> component (src/txscript, src/fnoec) decides whether an input may spend an
  output, by running a stack machine over bytes from the wire.  Blocks arrive in wire
  form, their scripts are run, and the tickets they buy, call and revoke are applied to
  the stake node, whose changes are written to the database.  The development models
  these three components completely enough to run them, and proves what the rest of the
  node relies on.

  \<^bold>\<open>Stake.\<close>
  \<^item> \<^verbatim>\<open>ParentStack\<close> and \<^verbatim>\<open>TicketTreap\<close> model internal/tickettreap: the parent stack with its
    static part and overflow, the nodes as a datatype with their cached sizes and byte
    counts, Put, Delete, Get, GetByIndex, ForEach, ForEachByHeight with the loops of the
    code.  The locale \<^verbatim>\<open>node_stack\<close> is what the treap needs of the stack, and
    \<^verbatim>\<open>ticket_map\<close> what the stake node needs of the treap; both are interpreted on the
    model of the code.  The lemmas show that the treap is a sorted finite map, that it
    stays a heap, that its counts are right, and that the traversal of expiring tickets
    is a filter.
  \<^item> \<^verbatim>\<open>Lottery\<close> models lottery.go: the 256-bit generator over a parameter hash function, the
    rejection sampling of UniformRandom, the choice of distinct indices.  Sampling is
    unbiased; a loop that may run for ever is a partial function with value None, and
    the theorems say for which streams it returns.
  \<^item> \<^verbatim>\<open>ChainParams\<close>, \<^verbatim>\<open>TicketDB\<close>: the parameters the component reads, and the serialized
    forms of internal/ticketdb with every error.
  \<^item> \<^verbatim>\<open>StakeNode\<close>, \<^verbatim>\<open>StakeUndo\<close>: tickets.go.  \<^verbatim>\<open>Node\<close> is the record of the code;
    connectNode, disconnectNode and the constructors are the whole functions with every
    error branch.  The theorems: an invariant kept by every connected block, what the
    pools are after a block, with which outcome a block connects (the errors for votes and
    for the size of the pool, and the node otherwise), and that disconnecting restores
    the previous node exactly.  The last rests on the order of the undo data: it is shown
    for blocks that revoke tickets missed before them, and any other block that connects
    is shown to fail when it is disconnected.
  \<^item> \<^verbatim>\<open>StakeStore\<close>: the database buckets as maps from keys to bytes, WriteConnectedBestNode,
    WriteDisconnectedBestNode, InitDatabaseState and LoadBestNode.  The bytes in the
    buckets refine the node in memory: writing a change keeps the refinement, the data of
    a block that is taken back is dropped, and loading gives the node back.

  \<^bold>\<open>Wire.\<close>
  \<^item> \<^verbatim>\<open>Wire\<close> models common.go: readers as functions from the remaining bytes to an error or
    a value and the rest, with variable-length integers, strings and byte arrays.  The
    locale \<^verbatim>\<open>canonical_codec\<close> is a reader and a writer that accept the same bytes.
  \<^item> \<^verbatim>\<open>BlockHeader\<close>, \<^verbatim>\<open>MsgTx\<close>, \<^verbatim>\<open>MsgBlock\<close>: headers, transactions in their serialization types with
    the checks of the code on counts and sizes, the pooled script buffers, transaction
    hashes, blocks and the locations of transactions in them.  The theorems say which
    bytes are accepted, that decoding inverts encoding, that the decoder never panics,
    and what a transaction hash commits to.

  \<^bold>\<open>Script.\<close>
  \<^item> \<^verbatim>\<open>ScriptNum\<close>, \<^verbatim>\<open>ScriptStack\<close>, \<^verbatim>\<open>Script\<close>: scriptnum.go, stack.go, and the parser of
    script.go with the opcode table.  Numbers and scripts have one encoding each.
  \<^item> \<^verbatim>\<open>Standard\<close>: the recognition of standard scripts in standard.go.
  \<^item> \<^verbatim>\<open>SigHash\<close>: sighash.go, with the cached transaction hash as an optimisation that does not
    change the result.
  \<^item> \<^verbatim>\<open>Secp256k1\<close>: the parsers and printers of signatures and public keys.
  \<^item> \<^verbatim>\<open>EngineState\<close>, \<^verbatim>\<open>Opcodes\<close>: the engine as a record, the checks of encodings, the
    signature cache, and a definition for every handler of opcode.go.
  \<^item> \<^verbatim>\<open>Handlers\<close>: the contract of a handler as the locale \<^verbatim>\<open>script_handler\<close> (it changes only
    the stacks, the conditions, the count of operations, the last separator and the cache;
    it never panics on a well-formed engine; it behaves the same with and without cached
    signatures), interpreted on the opcode table.
  \<^item> \<^verbatim>\<open>Engine\<close>: NewEngine, Step, Execute.  A step keeps the engine well formed; a run never
    panics and always ends; the cache is invisible.
  \<^item> \<^verbatim>\<open>MultiSig\<close>: OP_CHECKMULTISIG accepts exactly the ordered assignments of signatures to
    keys.
  \<^item> \<^verbatim>\<open>Address\<close>: the five kinds of address of src/fnoutil/address.go, their strings, and the
    identifiers of the four networks.  Decoding gives back the addresses of hashes, of
    compressed secp256k1 keys and of Schnorr keys.  The string of an uncompressed key
    stands for the compressed one, and for Ed25519 keys the code is shown to parse the
    wrong bytes.
  \<^item> \<^verbatim>\<open>PayScript\<close>: the script builder, the constructors of payment and stake scripts and the
    extraction of addresses.  A push executes to its data; a script made for an
    address has the right class and gives the address back, or for an uncompressed
    secp256k1 key the address of the compressed one.

  \<^bold>\<open>Conventions.\<close>  A result is \<^verbatim>\<open>error + value\<close>; a Go panic is an error constructor of its
  own, so that the absence of panics is a theorem.  Fixed-width integers are words.  Byte
  slices are lists of 8-bit words.  Mutation is state passing.  A loop with a bound known
  from its data is a \<^verbatim>\<open>function\<close> with its termination proof (the run of an engine is bounded
  by the opcodes left in its scripts, with a script still to be taken from the stack
  counted in); no property depends on a fuel chosen by hand.

  \<^bold>\<open>Parameters.\<close>  Hash functions (BLAKE-256, SHA-256, RIPEMD-160, SHA-1), the membership of a
  point in the curve, the verification of ECDSA, Edwards and Schnorr signatures, base 58,
  the treap's random priorities and the database engine are arguments.  What a theorem needs of them is
  a hypothesis it names: a hash has its documented length, verification does not
  depend on the representation of the key.  Each such theorem has a witness with concrete
  functions.

  \<^bold>\<open>Not modelled.\<close>  The network messages other than blocks, headers and transactions; the
  chain itself (src/blockchain outside stake), the memory pool, mining, the peer-to-peer
  server, RPC and the wallet helpers, which are concurrent or interact with the network, the
  file system or the clock; field arithmetic and key derivation; the classification of stake
  transactions in staketx.go; signing; text formatting such as disassembly and error
  strings.
\<close>

end
